(* ===== verification/Prelude.thy ===== *)
theory Prelude
  imports Main "HOL-Library.Word"
begin

text \<open>
  Shared vocabulary of the development.

  \<^item> Machine integers: \<open>u8\<close> to \<open>u64\<close> as words.  The sources are built for 32-bit
    Android (\<open>armeabi\<close>), so \<^verbatim>\<open>unsigned long\<close>, the \<^verbatim>\<open>u32\<close> of \<^verbatim>\<open>TextMng.h\<close>, has 32 bits.
  \<^item> Computations: a C++ function that may crash or not return yields a value of type
    \<open>'a comp\<close>.  \<open>None\<close> is a run that does not end, \<open>Some (Inl e)\<close> a run that performs an
    operation the language leaves undefined (\<open>fault\<close> says which), \<open>Some (Inr v)\<close> a run
    that returns \<open>v\<close>.
  \<^item> Little-endian byte layouts, the memory order of the target.
  \<^item> Generic lemmas the components share.
\<close>

type_synonym u8 = "8 word"
type_synonym u16 = "16 word"
type_synonym u32 = "32 word"
type_synonym u64 = "64 word"

named_theorems comp_simps \<open>unfolding rules of the computation combinators\<close>
named_theorems layout_simps \<open>byte layout of the records of the data files\<close>

section \<open>Computations that may fault or diverge\<close>

datatype fault =
    NullDeref          \<comment> \<open>a null pointer is dereferenced\<close>
  | OutOfRange         \<comment> \<open>an element outside an array, a vector or a string is read or written\<close>
  | Indeterminate      \<comment> \<open>a variable no complete read has set is used\<close>
  | BadAlloc           \<comment> \<open>an array of negative length is requested\<close>
  | DivZero            \<comment> \<open>an integer is divided by zero\<close>
  | IntOverflow        \<comment> \<open>a signed operation overflows\<close>
  | ClosedFile         \<comment> \<open>a stream is used after it was closed\<close>
  | FreedObject        \<comment> \<open>an object is used after it was deleted or removed from its container\<close>
  | AssertFailed       \<comment> \<open>the condition of an assertion is false\<close>
  | WrongType          \<comment> \<open>an object is used through a pointer cast to another type\<close>

type_synonym 'a comp = "(fault + 'a) option"

definition ret :: "'a \<Rightarrow> 'a comp" where
  "ret x = Some (Inr x)"

definition fail :: "fault \<Rightarrow> 'a comp" where
  "fail e = Some (Inl e)"

definition bindc :: "'a comp \<Rightarrow> ('a \<Rightarrow> 'b comp) \<Rightarrow> 'b comp" where
  "bindc m k = (case m of None \<Rightarrow> None | Some (Inl e) \<Rightarrow> Some (Inl e) | Some (Inr x) \<Rightarrow> k x)"

text \<open>Use of a variable whose value is known (\<open>Some\<close>) or indeterminate (\<open>None\<close>).\<close>

definition need :: "'a option \<Rightarrow> 'a comp" where
  "need v = (case v of None \<Rightarrow> fail Indeterminate | Some x \<Rightarrow> ret x)"

text \<open>Dereference of a pointer; \<open>None\<close> is the null pointer.\<close>

definition deref :: "'a option \<Rightarrow> 'a comp" where
  "deref p = (case p of None \<Rightarrow> fail NullDeref | Some x \<Rightarrow> ret x)"

text \<open>Read of the element \<open>i\<close> of an array or a vector.\<close>

definition at :: "'a list \<Rightarrow> nat \<Rightarrow> 'a comp" where
  "at xs i = (if i < length xs then ret (xs ! i) else fail OutOfRange)"

text \<open>Store to the element \<open>i\<close> of an array.\<close>

definition put :: "'a list \<Rightarrow> nat \<Rightarrow> 'a \<Rightarrow> 'a list comp" where
  "put xs i v = (if i < length xs then ret (xs[i := v]) else fail OutOfRange)"

lemma bindc_ret [simp, comp_simps]: "bindc (ret x) k = k x"
  by (simp add: bindc_def ret_def)

lemma bindc_fail [simp, comp_simps]: "bindc (fail e) k = fail e"
  by (simp add: bindc_def fail_def)

lemma bindc_None [simp, comp_simps]: "bindc None k = None"
  by (simp add: bindc_def)

lemma bindc_assoc: "bindc (bindc m k) h = bindc m (\<lambda>x. bindc (k x) h)"
  by (simp add: bindc_def split: option.splits sum.splits)

lemma ret_inject [simp]: "ret x = ret y \<longleftrightarrow> x = y"
  by (simp add: ret_def)

lemma fail_inject [simp]: "fail x = fail y \<longleftrightarrow> x = y"
  by (simp add: fail_def)

lemma ret_neq_fail [simp]: "ret x \<noteq> fail e" "fail e \<noteq> ret x" "ret x \<noteq> None" "fail e \<noteq> None"
    "None \<noteq> ret x" "None \<noteq> fail e"
  by (auto simp: ret_def fail_def)

lemma bindc_cong [fundef_cong]:
  "m = m' \<Longrightarrow> (\<And>x. m' = ret x \<Longrightarrow> k x = k' x) \<Longrightarrow> bindc m k = bindc m' k'"
  by (auto simp: bindc_def ret_def split: option.splits sum.splits)

lemma bindc_via_bind: "bindc m k = Option.bind m (\<lambda>s. case s of Inl e \<Rightarrow> Some (Inl e) | Inr x \<Rightarrow> k x)"
  by (simp add: bindc_def split: option.split)

lemma bindc_mono [partial_function_mono]:
  assumes "mono_option B" and "\<And>x. mono_option (\<lambda>f. C x f)"
  shows "mono_option (\<lambda>f. bindc (B f) (\<lambda>x. C x f))"
  unfolding bindc_via_bind
proof (rule bind_mono [OF assms(1)], goal_cases)
  case (1 s)
  show ?case
    using assms(2) by (cases s) (simp_all add: monotone_def flat_ord_def fun_ord_def)
qed

lemma bindc_eq_ret:
  "bindc m k = ret y \<longleftrightarrow> (\<exists>x. m = ret x \<and> k x = ret y)"
  by (auto simp: bindc_def ret_def split: option.splits sum.splits)

lemma comp_cases [case_names diverges faults returns]:
  obtains "m = None" | e where "m = fail e" | x where "m = ret x"
  unfolding ret_def fail_def by (metis not_None_eq sum.exhaust)

lemma need_simps [simp, comp_simps]:
  "need (Some x) = ret x" "need None = fail Indeterminate"
  by (simp_all add: need_def)

lemma deref_simps [simp, comp_simps]:
  "deref (Some x) = ret x" "deref None = fail NullDeref"
  by (simp_all add: deref_def)

lemma at_in [simp]: "i < length xs \<Longrightarrow> at xs i = ret (xs ! i)"
  by (simp add: at_def)

lemma at_out [simp]: "\<not> i < length xs \<Longrightarrow> at xs i = fail OutOfRange"
  by (simp add: at_def)

lemma at_eq_ret: "at xs i = ret x \<longleftrightarrow> i < length xs \<and> x = xs ! i"
  by (auto simp: at_def)

lemma put_in [simp]: "i < length xs \<Longrightarrow> put xs i v = ret (xs[i := v])"
  by (simp add: put_def)

lemma put_out [simp]: "\<not> i < length xs \<Longrightarrow> put xs i v = fail OutOfRange"
  by (simp add: put_def)

lemma put_eq_ret: "put xs i v = ret ys \<longleftrightarrow> i < length xs \<and> ys = xs[i := v]"
  by (auto simp: put_def)

lemma all_less_2: "(\<forall>j < 2. P j) \<longleftrightarrow> P 0 \<and> P (1 :: nat)"
  by (auto simp: less_2_cases_iff)

section \<open>Little-endian layout\<close>

fun le_nat :: "u8 list \<Rightarrow> nat" where
  "le_nat [] = 0"
| "le_nat (b # bs) = unat b + 256 * le_nat bs"

fun le_bytes :: "nat \<Rightarrow> nat \<Rightarrow> u8 list" where
  "le_bytes 0 v = []"
| "le_bytes (Suc n) v = of_nat v # le_bytes n (v div 256)"

definition le_word :: "u8 list \<Rightarrow> 'a::len word" where
  "le_word bs = of_nat (le_nat bs)"

lemma unat_u8_less [simp]: "unat (b::u8) < 256"
  using unsigned_less [of b, where 'a = nat] by simp

lemma length_le_bytes [simp]: "length (le_bytes n v) = n"
  by (induction n arbitrary: v) auto

lemma le_nat_bound: "le_nat bs < 256 ^ length bs"
proof (induction bs)
  case (Cons b bs)
  have "unat b < 256" by simp
  with Cons show ?case by (simp del: unat_u8_less)
qed simp

lemma le_nat_le_bytes: "le_nat (le_bytes n v) = v mod 256 ^ n"
proof (induction n arbitrary: v)
  case (Suc n)
  have "v mod (256 * 256 ^ n) = 256 * (v div 256 mod 256 ^ n) + v mod 256"
    by (rule mod_mult2_eq)
  with Suc show ?case by (simp add: unat_of_nat)
qed simp

lemma le_nat_roundtrip [simp]: "v < 256 ^ n \<Longrightarrow> le_nat (le_bytes n v) = v"
  by (simp add: le_nat_le_bytes)

lemma le_bytes_roundtrip: "le_bytes (length bs) (le_nat bs) = bs"
proof (induction bs)
  case (Cons b bs)
  have "unat b < 256" by simp
  then have "(unat b + 256 * le_nat bs) div 256 = le_nat bs"
    by simp
  moreover have "(of_nat (unat b + 256 * le_nat bs) :: u8) = b"
    by (simp only: word_unat_eq_iff unat_of_nat) simp
  ultimately show ?case using Cons by simp
qed simp

lemma le_word_bytes [simp]:
  fixes w :: "'a::len word"
  assumes "2 ^ LENGTH('a) \<le> (256::nat) ^ n"
  shows "le_word (le_bytes n (unat w)) = w"
proof -
  have "unat w < 256 ^ n"
    using unsigned_less [of w] assms by (rule less_le_trans)
  then show ?thesis by (simp add: le_word_def)
qed

end
