(* ===== verification/C_File.thy ===== *)
theory C_File
  imports Prelude
begin

text \<open>
  The part of \<^verbatim>\<open><stdio.h>\<close> that the search module uses, for a stream opened with
  \<^verbatim>\<open>"rb"\<close>: the bytes of the file, the position and the end-of-file flag.

  \<^item> \<^verbatim>\<open>fseek\<close> takes a \<^verbatim>\<open>long\<close> (32 bits): an unsigned offset of at least \<open>2\<^sup>3\<^sup>1\<close> becomes
    negative, the call fails and the position stays.  A position past the end is allowed.
  \<^item> \<^verbatim>\<open>fread\<close> of one object reads what is left when the file is too short.  The object is
    then unchanged (nothing was read) or indeterminate (a partial element was read).
\<close>

record cfile =
  fdata :: "u8 list"
  fpos :: nat
  feof :: bool

definition fopen_rb :: "u8 list \<Rightarrow> cfile" where
  "fopen_rb bs = \<lparr>fdata = bs, fpos = 0, feof = False\<rparr>"

definition fseek_set :: "u32 \<Rightarrow> cfile \<Rightarrow> cfile" where
  "fseek_set off f = (if sint off < 0 then f else f\<lparr>fpos := nat (sint off), feof := False\<rparr>)"

definition fseek_end :: "int \<Rightarrow> cfile \<Rightarrow> cfile" where
  "fseek_end off f =
     (let p = int (length (fdata f)) + off
      in if p < 0 then f else f\<lparr>fpos := nat p, feof := False\<rparr>)"

definition ftell :: "cfile \<Rightarrow> u32" where
  "ftell f = of_nat (fpos f)"

text \<open>\<open>fread_into n dec old f\<close> is \<^verbatim>\<open>fread(&x, n, 1, f)\<close> for a variable \<^verbatim>\<open>x\<close> of \<open>n\<close> bytes that holds
  \<open>old\<close> and whose bytes \<open>dec\<close> reads.\<close>

definition fread_into :: "nat \<Rightarrow> (u8 list \<Rightarrow> 'a) \<Rightarrow> 'a option \<Rightarrow> cfile \<Rightarrow> 'a option \<times> cfile" where
  "fread_into n dec old f =
     (let bs = take n (drop (fpos f) (fdata f))
      in (if length bs = n then Some (dec bs) else if bs = [] then old else None,
          f\<lparr>fpos := fpos f + length bs, feof := feof f \<or> length bs < n\<rparr>))"

text \<open>A read into a variable that holds no value yet, the value used afterwards.\<close>

definition fread_new :: "nat \<Rightarrow> (u8 list \<Rightarrow> 'a) \<Rightarrow> cfile \<Rightarrow> ('a \<times> cfile) comp" where
  "fread_new n dec f =
     (case fread_into n dec None f of (v, f') \<Rightarrow> bindc (need v) (\<lambda>x. ret (x, f')))"

definition fread_u8 :: "cfile \<Rightarrow> (u8 \<times> cfile) comp" where
  "fread_u8 = fread_new 1 le_word"

definition fread_u16 :: "cfile \<Rightarrow> (u16 \<times> cfile) comp" where
  "fread_u16 = fread_new 2 le_word"

definition fread_u32 :: "cfile \<Rightarrow> (u32 \<times> cfile) comp" where
  "fread_u32 = fread_new 4 le_word"

text \<open>\<^verbatim>\<open>fread(a, n, cnt, f)\<close> into an array of \<open>cnt\<close> elements that hold no value yet: the elements
  past the last complete one stay indeterminate.\<close>

fun fread_array :: "nat \<Rightarrow> (u8 list \<Rightarrow> 'a) \<Rightarrow> nat \<Rightarrow> cfile \<Rightarrow> 'a option list \<times> cfile" where
  "fread_array n dec 0 f = ([], f)"
| "fread_array n dec (Suc cnt) f =
     (case fread_into n dec None f of
        (v, f') \<Rightarrow> (case fread_array n dec cnt f' of (vs, f'') \<Rightarrow> (v # vs, f'')))"

text \<open>\<^verbatim>\<open>fread(a, n, cnt, f)\<close> into an array that may hold values: element by element, from \<open>i\<close> on.\<close>

fun fread_over :: "nat \<Rightarrow> (u8 list \<Rightarrow> 'a) \<Rightarrow> nat \<Rightarrow> nat \<Rightarrow> 'a option list \<Rightarrow> cfile \<Rightarrow> ('a option list \<times> cfile) comp" where
  "fread_over n dec 0 i buf f = ret (buf, f)"
| "fread_over n dec (Suc cnt) i buf f =
     bindc (at buf i) (\<lambda>old.
       case fread_into n dec old f of
         (v, f') \<Rightarrow> bindc (put buf i v) (\<lambda>buf'. fread_over n dec cnt (i + 1) buf' f'))"

text \<open>A stream opened with \<^verbatim>\<open>"wb"\<close> starts empty; \<^verbatim>\<open>fwrite\<close> stores at the position and fills a gap
  behind the end with zeros.\<close>

definition fwrite_bytes :: "u8 list \<Rightarrow> cfile \<Rightarrow> cfile" where
  "fwrite_bytes bs f =
     f\<lparr>fdata := take (fpos f) (fdata f @ replicate (fpos f - length (fdata f)) 0) @ bs
                 @ drop (fpos f + length bs) (fdata f),
       fpos := fpos f + length bs\<rparr>"

section \<open>Laws of the stream\<close>

text \<open>\<open>bytes_at bs p f\<close>: the file holds the bytes \<open>bs\<close> at position \<open>p\<close>.\<close>

definition bytes_at :: "u8 list \<Rightarrow> nat \<Rightarrow> cfile \<Rightarrow> bool" where
  "bytes_at bs p f \<longleftrightarrow> take (length bs) (drop p (fdata f)) = bs"

lemma fopen_rb_simps [simp]:
  "fdata (fopen_rb bs) = bs" "fpos (fopen_rb bs) = 0" "feof (fopen_rb bs) = False"
  by (simp_all add: fopen_rb_def)

lemma cfile_update_swap [simp]: "f\<lparr>feof := e, fpos := p\<rparr> = f\<lparr>fpos := p, feof := e\<rparr>"
  by simp

lemma fseek_set_data [simp]: "fdata (fseek_set off f) = fdata f"
  by (simp add: fseek_set_def)

lemma fseek_end_data [simp]: "fdata (fseek_end off f) = fdata f"
  by (simp add: fseek_end_def Let_def)

lemma fread_into_data [simp]: "fdata (snd (fread_into n dec old f)) = fdata f"
  by (simp add: fread_into_def Let_def)

lemma fseek_set_of_nat:
  assumes "p < 2 ^ 31"
  shows "fseek_set (of_nat p) f = f\<lparr>fpos := p, feof := False\<rparr>"
proof -
  have "signed_take_bit 31 (int p) = int p"
    using assms by (simp add: signed_take_bit_int_eq_self_iff)
  then have "sint (of_nat p :: u32) = int p"
    by (simp add: signed_of_nat)
  then show ?thesis by (simp add: fseek_set_def)
qed

lemma bytes_at_len:
  assumes "bytes_at bs p f" and "bs \<noteq> []"
  shows "p + length bs \<le> length (fdata f)"
proof -
  have "length (take (length bs) (drop p (fdata f))) = length bs"
    using assms(1) by (simp add: bytes_at_def)
  with assms(2) show ?thesis by (cases "p < length (fdata f)") auto
qed

lemma bytes_at_update [simp]:
  "bytes_at bs p (f\<lparr>fpos := q\<rparr>) = bytes_at bs p f"
  "bytes_at bs p (f\<lparr>feof := e\<rparr>) = bytes_at bs p f"
  by (simp_all add: bytes_at_def)

lemma bytes_at_cong: "fdata g = fdata f \<Longrightarrow> bytes_at bs p g = bytes_at bs p f"
  by (simp add: bytes_at_def)

lemma fread_into_at:
  assumes "bytes_at bs (fpos f) f" and "length bs = n"
  shows "fread_into n dec old f = (Some (dec bs), f\<lparr>fpos := fpos f + n\<rparr>)"
  using assms by (simp add: bytes_at_def fread_into_def Let_def)

lemma fread_new_at:
  assumes "bytes_at bs (fpos f) f" and "length bs = n"
  shows "fread_new n dec f = ret (dec bs, f\<lparr>fpos := fpos f + n\<rparr>)"
  by (simp add: fread_new_def fread_into_at [OF assms])

lemma take_append_eq:
  "take (length bs + length cs) xs = bs @ cs \<longleftrightarrow>
     take (length bs) xs = bs \<and> take (length cs) (drop (length bs) xs) = cs"
proof (cases "length bs \<le> length xs")
  case True
  then have "length (take (length bs) xs) = length bs" by simp
  then show ?thesis by (simp add: take_add)
next
  case False
  then have "length (take (length bs + length cs) xs) \<noteq> length (bs @ cs)"
    and "length (take (length bs) xs) \<noteq> length bs"
    by auto
  then show ?thesis by metis
qed

lemma bytes_at_append:
  "bytes_at (bs @ cs) p f \<longleftrightarrow> bytes_at bs p f \<and> bytes_at cs (p + length bs) f"
  by (simp add: bytes_at_def take_append_eq add.commute)

end
