(* ===== verification/Key_Search.thy ===== *)
theory Key_Search
  imports C_File
begin

text \<open>
  The binary search over sorted tables in a data file: \<^verbatim>\<open>searchu8KeyValue\<close>,
  \<^verbatim>\<open>searchu16KeyValue\<close> and \<^verbatim>\<open>searchu32KeyValue\<close> of \<^verbatim>\<open>UmSearchModule.cpp\<close>.  The three differ in
  the width of the key only, so they share the loop \<open>search_loop\<close>, whose key width (in bytes)
  and key are parameters.  The loop works on 32-bit unsigned bounds that wrap around, as in
  the source, and may run forever.
\<close>

section \<open>The search\<close>

text \<open>One run of the loop body reads the record \<open>mid\<close> into \<open>nKeyValue\<close>; the variable keeps its
  value when the read finds nothing.\<close>

partial_function (option) search_loop ::
    "nat \<Rightarrow> nat \<Rightarrow> u32 \<Rightarrow> u32 \<Rightarrow> u32 \<Rightarrow> u32 \<Rightarrow> u32 \<Rightarrow> nat option \<Rightarrow> cfile \<Rightarrow> (bool \<times> cfile) comp" where
  "search_loop ksz key ofs rsz left right mid nKeyValue f =
     (if left < right then
        (case fread_into ksz le_nat nKeyValue (fseek_set (ofs + mid * rsz) f) of
           (None, f') \<Rightarrow> fail Indeterminate
         | (Some v, f') \<Rightarrow>
             (if key = v then ret (True, f')
              else if v < key then
                search_loop ksz key ofs rsz (mid + 1) right ((mid + 1 + right) div 2) (Some v) f'
              else
                search_loop ksz key ofs rsz left (mid - 1) ((left + (mid - 1)) div 2) (Some v) f'))
      else if left = right then
        (case fread_into ksz le_nat nKeyValue (fseek_set (ofs + left * rsz) f) of
           (None, f') \<Rightarrow> fail Indeterminate
         | (Some v, f') \<Rightarrow> ret (key = v, f'))
      else ret (False, f))"

definition searchu8KeyValue :: "cfile \<Rightarrow> u8 \<Rightarrow> u32 \<Rightarrow> u32 \<Rightarrow> u32 \<Rightarrow> (bool \<times> cfile) comp" where
  "searchu8KeyValue fp key offset record_size record_cnt =
     search_loop 1 (unat key) offset record_size 0 record_cnt ((0 + record_cnt) div 2) None fp"

definition searchu16KeyValue :: "cfile \<Rightarrow> u16 \<Rightarrow> u32 \<Rightarrow> u32 \<Rightarrow> u32 \<Rightarrow> (bool \<times> cfile) comp" where
  "searchu16KeyValue fp key offset record_size record_cnt =
     search_loop 2 (unat key) offset record_size 0 record_cnt ((0 + record_cnt) div 2) None fp"

definition searchu32KeyValue :: "cfile \<Rightarrow> u32 \<Rightarrow> u32 \<Rightarrow> u32 \<Rightarrow> u32 \<Rightarrow> (bool \<times> cfile) comp" where
  "searchu32KeyValue fp key offset record_size record_cnt =
     search_loop 4 (unat key) offset record_size 0 record_cnt ((0 + record_cnt) div 2) None fp"

section \<open>Sorted key tables\<close>

text \<open>\<open>key_table ksz f ofs rsz ks\<close>: from \<open>ofs\<close> on, the file holds records of \<open>rsz\<close> bytes whose first
  \<open>ksz\<close> bytes are the keys \<open>ks\<close>, in increasing order, and every offset fits a \<^verbatim>\<open>long\<close>.\<close>

definition key_table :: "nat \<Rightarrow> cfile \<Rightarrow> nat \<Rightarrow> nat \<Rightarrow> nat list \<Rightarrow> bool" where
  "key_table ksz f ofs rsz ks \<longleftrightarrow>
     0 < ksz \<and> ksz \<le> rsz \<and> ofs + length ks * rsz < 2 ^ 31 \<and> sorted_wrt (<) ks \<and>
     (\<forall>i < length ks. ks ! i < 256 ^ ksz \<and> bytes_at (le_bytes ksz (ks ! i)) (ofs + i * rsz) f)"

lemma key_table_cong: "fdata g = fdata f \<Longrightarrow> key_table ksz g ofs rsz ks = key_table ksz f ofs rsz ks"
  using bytes_at_cong [of g f] by (simp add: key_table_def)

lemma key_table_count:
  assumes "key_table ksz f ofs rsz ks"
  shows "length ks < 2 ^ 31"
proof -
  have "ofs + length ks * rsz < 2 ^ 31" and "0 < rsz"
    using assms by (auto simp: key_table_def)
  moreover have "length ks * 1 \<le> length ks * rsz"
    using \<open>0 < rsz\<close> by (intro mult_le_mono2) simp
  ultimately show ?thesis by linarith
qed

text \<open>Reading record \<open>m\<close> of a table: the key is read and the stream stands behind it.\<close>

lemma read_record:
  assumes tab: "key_table ksz f ofs rsz ks" and m: "m < length ks"
  shows "fread_into ksz le_nat old (fseek_set (of_nat ofs + of_nat m * of_nat rsz) f) =
           (Some (ks ! m), f\<lparr>fpos := ofs + m * rsz + ksz, feof := False\<rparr>)"
proof -
  let ?p = "ofs + m * rsz"
  have "m * rsz \<le> length ks * rsz"
    using m by simp
  moreover have "ofs + length ks * rsz < 2 ^ 31"
    using tab by (simp add: key_table_def)
  ultimately have p: "?p < 2 ^ 31" by linarith
  have "(of_nat ofs + of_nat m * of_nat rsz :: u32) = of_nat ?p"
    by simp
  then have seek: "fseek_set (of_nat ofs + of_nat m * of_nat rsz) f = f\<lparr>fpos := ?p, feof := False\<rparr>"
    using fseek_set_of_nat [OF p] by simp
  have "bytes_at (le_bytes ksz (ks ! m)) ?p f" and k: "ks ! m < 256 ^ ksz"
    using tab m by (auto simp: key_table_def)
  then show ?thesis
    unfolding seek by (subst fread_into_at [where bs = "le_bytes ksz (ks ! m)"]) simp_all
qed

lemma less_max_word: "(x::u32) < - 1 \<longleftrightarrow> x \<noteq> - 1"
  by (simp add: word_order.not_eq_extremum)

lemma unat_small: "n < 2 ^ 32 \<Longrightarrow> unat (of_nat n :: u32) = n"
  by (simp add: unat_of_nat)

lemma word_mid:
  assumes "l + r < 2 ^ 32"
  shows "(of_nat l + of_nat r :: u32) div 2 = of_nat ((l + r) div 2)"
proof -
  have "unat ((of_nat (l + r) :: u32) div 2) = (l + r) div 2"
    using unat_small [OF assms] by (simp add: unat_div del: of_nat_add)
  moreover have "unat (of_nat ((l + r) div 2) :: u32) = (l + r) div 2"
    using assms by (intro unat_small) simp
  ultimately show ?thesis
    by (simp add: word_unat_eq_iff)
qed

text \<open>The loop on a table, in terms of \<open>nat\<close> bounds, with one rule per branch of the body.\<close>

definition table_loop ::
    "nat \<Rightarrow> nat \<Rightarrow> nat \<Rightarrow> nat \<Rightarrow> nat \<Rightarrow> nat \<Rightarrow> nat option \<Rightarrow> cfile \<Rightarrow> (bool \<times> cfile) comp" where
  "table_loop ksz key ofs rsz l r old f =
     search_loop ksz key (of_nat ofs) (of_nat rsz) (of_nat l) (of_nat r) (of_nat ((l + r) div 2)) old f"

abbreviation after_key :: "nat \<Rightarrow> nat \<Rightarrow> nat \<Rightarrow> nat \<Rightarrow> cfile \<Rightarrow> cfile" where
  "after_key ksz ofs rsz i f \<equiv> f\<lparr>fpos := ofs + i * rsz + ksz, feof := False\<rparr>"

lemma table_bounds:
  assumes "key_table ksz f ofs rsz ks" and "r \<le> length ks" and "l \<le> Suc r"
  shows "(of_nat l :: u32) < of_nat r \<longleftrightarrow> l < r" "(of_nat l :: u32) = of_nat r \<longleftrightarrow> l = r"
  using key_table_count [OF assms(1)] assms(2,3) unat_small [of l] unat_small [of r]
  by (auto simp: word_less_nat_alt word_unat_eq_iff)

lemma table_loop_hit:
  assumes "key_table ksz f ofs rsz ks" and "r \<le> length ks" and "l < r"
  shows "table_loop ksz (ks ! ((l + r) div 2)) ofs rsz l r old f =
           ret (True, after_key ksz ofs rsz ((l + r) div 2) f)"
proof -
  have m: "(l + r) div 2 < length ks"
    using assms(2,3) by simp
  show ?thesis
    using table_bounds [OF assms(1,2), of l] assms(3) read_record [OF assms(1) m] unfolding table_loop_def
    by (subst search_loop.simps) simp
qed

lemma table_loop_up:
  assumes "key_table ksz f ofs rsz ks" and "r \<le> length ks" and "l < r"
    and m: "m = (l + r) div 2" and "ks ! m < key"
  shows "table_loop ksz key ofs rsz l r old f =
           table_loop ksz key ofs rsz (Suc m) r (Some (ks ! m)) (after_key ksz ofs rsz m f)"
proof -
  have m': "m < length ks" "m < r"
    using assms by auto
  have "(of_nat m + 1 + of_nat r :: u32) div 2 = of_nat ((Suc m + r) div 2)"
    using word_mid [of "Suc m" r] m' assms(2) key_table_count [OF assms(1)] by (simp add: add_ac)
  then show ?thesis
    using table_bounds [OF assms(1,2), of l] assms(3,5) read_record [OF assms(1) m'(1)]
    unfolding table_loop_def m [symmetric]
    by (subst search_loop.simps) (simp add: add.commute [of 1 "of_nat m"])
qed

lemma table_loop_down:
  assumes "key_table ksz f ofs rsz ks" and "r \<le> length ks" and "l < r"
    and m: "m = (l + r) div 2" and "key < ks ! m" and "0 < m"
  shows "table_loop ksz key ofs rsz l r old f =
           table_loop ksz key ofs rsz l (m - 1) (Some (ks ! m)) (after_key ksz ofs rsz m f)"
proof -
  have m': "m < length ks" "l \<le> m"
    using assms by auto
  have pred: "(of_nat m - 1 :: u32) = of_nat (m - 1)"
    using \<open>0 < m\<close> by simp
  have "(of_nat l + of_nat (m - 1) :: u32) div 2 = of_nat ((l + (m - 1)) div 2)"
    using m' key_table_count [OF assms(1)] by (intro word_mid) simp
  then show ?thesis
    using table_bounds [OF assms(1,2), of l] assms(3,5) read_record [OF assms(1) m'(1)]
    unfolding table_loop_def m [symmetric]
    by (subst search_loop.simps) (simp add: pred del: of_nat_diff)
qed

lemma table_loop_last:
  assumes "key_table ksz f ofs rsz ks" and "l < length ks"
  shows "table_loop ksz key ofs rsz l l old f = ret (key = ks ! l, after_key ksz ofs rsz l f)"
  unfolding table_loop_def using read_record [OF assms]
  by (subst search_loop.simps) simp

lemma table_loop_end:
  assumes "key_table ksz f ofs rsz ks" and "r < l" and "l \<le> Suc r" and "r \<le> length ks"
  shows "table_loop ksz key ofs rsz l r old f = ret (False, f)"
  unfolding table_loop_def using table_bounds [OF assms(1,4,3)] assms(2)
  by (subst search_loop.simps) simp

text \<open>The record behind the table, read when the search ends at \<open>left = right = record_cnt\<close>.\<close>

lemma table_loop_behind:
  assumes "key_table ksz f ofs rsz ks" and "bytes_at (le_bytes ksz w) (ofs + length ks * rsz) f"
    and "w < 256 ^ ksz"
  shows "table_loop ksz key ofs rsz (length ks) (length ks) old f =
           ret (key = w, after_key ksz ofs rsz (length ks) f)"
proof -
  have "ofs + length ks * rsz < 2 ^ 31"
    using assms(1) by (simp add: key_table_def)
  then have "fread_into ksz le_nat old (fseek_set (of_nat ofs + of_nat (length ks) * of_nat rsz) f) =
      (Some w, after_key ksz ofs rsz (length ks) f)"
    using fseek_set_of_nat [of "ofs + length ks * rsz" f] assms(2,3)
    by (simp add: fread_into_at [where bs = "le_bytes ksz w"])
  then show ?thesis
    unfolding table_loop_def by (subst search_loop.simps) simp
qed

lemma key_table_after [simp]:
  "key_table ksz (after_key a b c d f) ofs rsz ks = key_table ksz f ofs rsz ks"
  by (rule key_table_cong) simp

lemma key_table_less:
  assumes "key_table ksz f ofs rsz ks" and "a < length ks" "b < length ks"
  shows "ks ! a < ks ! b \<longleftrightarrow> a < b"
  using assms sorted_wrt_nth_less [of "(<)" ks] unfolding key_table_def
  by (metis less_asym' linorder_neqE_nat)

lemma table_loop_found:
  assumes "key_table ksz f ofs rsz ks" "l \<le> i" "i \<le> r" "i < length ks" "r \<le> length ks"
  shows "table_loop ksz (ks ! i) ofs rsz l r old f = ret (True, after_key ksz ofs rsz i f)"
  using assms
proof (induction "r - l" arbitrary: l r old f rule: less_induct)
  case less
  let ?m = "(l + r) div 2"
  note tab = less.prems(1)
  have mono: "ks ! a < ks ! i \<longleftrightarrow> a < i" "ks ! i < ks ! a \<longleftrightarrow> i < a" if "a < length ks" for a
    using key_table_less [OF tab] less.prems that by blast+
  consider "l = i" "r = i" | "l < r" "?m = i" | "l < r" "?m < i" | "l < r" "i < ?m"
    using less.prems by linarith
  then show ?case
  proof cases
    case 1
    then show ?thesis using table_loop_last [OF tab] less.prems by simp
  next
    case 2
    then show ?thesis using table_loop_hit [OF tab less.prems(5), of l] by simp
  next
    case 3
    have "table_loop ksz (ks ! i) ofs rsz (Suc ?m) r (Some (ks ! ?m)) (after_key ksz ofs rsz ?m f) =
        ret (True, after_key ksz ofs rsz i (after_key ksz ofs rsz ?m f))"
      using 3 less.prems by (intro less.hyps) auto
    moreover have "ks ! ?m < ks ! i"
      using 3 less.prems by (subst mono) auto
    ultimately show ?thesis
      using table_loop_up [OF tab less.prems(5) 3(1) refl] by simp
  next
    case 4
    have "table_loop ksz (ks ! i) ofs rsz l (?m - 1) (Some (ks ! ?m)) (after_key ksz ofs rsz ?m f) =
        ret (True, after_key ksz ofs rsz i (after_key ksz ofs rsz ?m f))"
      using 4 less.prems by (intro less.hyps) auto
    moreover have "ks ! i < ks ! ?m"
      using 4 less.prems by (subst mono) auto
    ultimately show ?thesis
      using table_loop_down [OF tab less.prems(5) 4(1) refl] 4(2) by simp
  qed
qed

text \<open>The bounds stay in range as long as the key lies above the first one: the rank \<open>p\<close> of the
  key satisfies \<open>l \<le> p \<le> r + 1\<close> throughout.\<close>

lemma table_loop_absent:
  assumes "key_table ksz f ofs rsz ks" "bytes_at (le_bytes ksz w) (ofs + length ks * rsz) f"
    "l \<le> p" "p \<le> Suc r" "r \<le> length ks" "l \<le> Suc r"
    and w: "w < 256 ^ ksz" "w \<noteq> key" and rank: "0 < p" "p \<le> length ks" "\<forall>j < p. ks ! j < key"
      "\<forall>j. p \<le> j \<and> j < length ks \<longrightarrow> key < ks ! j"
  shows "\<exists>f'. table_loop ksz key ofs rsz l r old f = ret (False, f') \<and> fdata f' = fdata f"
  using assms(1-6)
proof (induction "Suc r - l" arbitrary: l r old f rule: less_induct)
  case less
  let ?m = "(l + r) div 2"
  note tab = less.prems(1)
  consider "r < l" | "l = r" "l < length ks" | "l = r" "l = length ks" | "l < r" "?m < p"
    | "l < r" "p \<le> ?m"
    using less.prems(5) by linarith
  then show ?case
  proof cases
    case 1
    then show ?thesis using table_loop_end [OF tab _ less.prems(6,5)] by simp
  next
    case 2
    moreover have "ks ! l \<noteq> key"
      using rank(3,4) 2(2) by (metis less_irrefl not_less)
    ultimately show ?thesis using table_loop_last [OF tab] by simp
  next
    case 3
    then show ?thesis using table_loop_behind [OF tab less.prems(2) w(1)] w(2) by simp
  next
    case 4
    have "\<exists>f'. table_loop ksz key ofs rsz (Suc ?m) r (Some (ks ! ?m)) (after_key ksz ofs rsz ?m f) =
        ret (False, f') \<and> fdata f' = fdata (after_key ksz ofs rsz ?m f)"
      using 4 less.prems by (intro less.hyps) auto
    then show ?thesis
      using table_loop_up [OF tab less.prems(5) 4(1) refl] rank(3) 4(2) by simp
  next
    case 5
    have "\<exists>f'. table_loop ksz key ofs rsz l (?m - 1) (Some (ks ! ?m)) (after_key ksz ofs rsz ?m f) =
        ret (False, f') \<and> fdata f' = fdata (after_key ksz ofs rsz ?m f)"
      using 5 rank(1) less.prems by (intro less.hyps) auto
    moreover have "key < ks ! ?m" "0 < ?m"
      using rank(1,4) 5 less.prems(5) by auto
    ultimately show ?thesis
      using table_loop_down [OF tab less.prems(5) 5(1) refl] by simp
  qed
qed

lemma sorted_takeWhile_above:
  fixes ks :: "nat list"
  assumes "sorted_wrt (<) ks" and "length (takeWhile (\<lambda>k. k < x) ks) \<le> j" and "j < length ks"
    and "x \<notin> set ks"
  shows "x < ks ! j"
  using assms
proof (induction ks arbitrary: j)
  case (Cons k ks)
  show ?case
  proof (cases j)
    case 0
    with Cons.prems show ?thesis by (auto split: if_splits)
  next
    case (Suc i)
    then have "k < ks ! i" "i < length ks"
      using Cons.prems by auto
    then show ?thesis
    proof (cases "k < x")
      case True
      then show ?thesis using Suc Cons.IH [of i] Cons.prems by simp
    next
      case False
      with Cons.prems(4) have "x < k" by simp
      with \<open>k < ks ! i\<close> Suc show ?thesis by simp
    qed
  qed
qed simp

section \<open>A key below the first one\<close>

text \<open>The bounds wrap around when the key is smaller than the first key of the table.  With
  \<open>left = 1\<close>, \<open>right = 2\<^sup>3\<^sup>2 - 1\<close> and a first key above the one searched for, the loop body
  reproduces its own state.\<close>

lemma search_loop_stuck:
  assumes read: "\<And>old g. fdata g = fdata f \<Longrightarrow>
      \<exists>g'. fread_into ksz le_nat old (fseek_set ofs g) = (Some v, g') \<and> fdata g' = fdata f"
    and "key < v"
  shows "search_loop ksz key ofs rsz 2 (- 1) 0 old f = None"
proof (rule ccontr)
  assume "search_loop ksz key ofs rsz 2 (- 1) 0 old f \<noteq> None"
  then obtain r where ret: "search_loop ksz key ofs rsz 2 (- 1) 0 old f = Some r" by auto
  have "\<not> (ksz = ksz \<and> key = key \<and> ofs = ofs \<and> (2::u32) = 2 \<and> (- 1 :: u32) = - 1 \<and> (0::u32) = 0
      \<and> fdata f = fdata f)"
  proof (rule search_loop.raw_induct [where P = "\<lambda>ksz' key' ofs' rsz' l r' m old' g y.
        \<not> (ksz' = ksz \<and> key' = key \<and> ofs' = ofs \<and> l = 2 \<and> r' = - 1 \<and> m = 0 \<and> fdata g = fdata f)",
        OF _ ret], goal_cases)
    case (1 search ksz' key' ofs' rsz' l r' m old' g y)
    show ?case
    proof
      assume st: "ksz' = ksz \<and> key' = key \<and> ofs' = ofs \<and> l = 2 \<and> r' = - 1 \<and> m = 0 \<and> fdata g = fdata f"
      then obtain g' where "fread_into ksz le_nat old' (fseek_set ofs g) = (Some v, g')"
        and g': "fdata g' = fdata f"
        using read by blast
      then have "search ksz key ofs rsz' 2 (- 1) 0 (Some v) g' = Some y"
        using 1(2) st \<open>key < v\<close> by (simp add: less_max_word)
      from 1(1) [OF this] g' show False by simp
    qed
  qed
  then show False by simp
qed

text \<open>Towards that state: each read behind the end of the file keeps a value below the key, so the
  lower bound halves.\<close>

lemma search_loop_halves:
  assumes "length (fdata f) = 16" and "v < key" and "k \<le> 27"
    and read: "\<And>old g. fdata g = fdata f \<Longrightarrow>
      \<exists>g'. fread_into 4 le_nat old (fseek_set 8 g) = (Some w, g') \<and> fdata g' = fdata f" and "key < w"
  shows "search_loop 4 key 8 8 (2 ^ Suc k) (- 1) (2 ^ k - 1) (Some v) f = None"
  using assms
proof (induction k arbitrary: f)
  case 0
  then show ?case using search_loop_stuck [OF 0(4,5)] by simp
next
  case (Suc k)
  let ?p = "8 * 2 ^ Suc k :: nat"
  let ?g = "f\<lparr>fpos := ?p, feof := True\<rparr>"
  have "(2::nat) ^ Suc k \<le> 2 ^ 27" "(2::nat) ^ 1 \<le> 2 ^ Suc k"
    using Suc.prems(3) by (intro power_increasing; simp)+
  then have p: "?p < 2 ^ 31" "16 \<le> ?p"
    by simp_all
  have "(8 + (2 ^ Suc k - 1) * 8 :: u32) = of_nat ?p"
    by (simp add: algebra_simps)
  then have "fread_into 4 le_nat (Some v) (fseek_set (8 + (2 ^ Suc k - 1) * 8) f) = (Some v, ?g)"
    using fseek_set_of_nat [OF p(1), of f] p(2) Suc.prems(1) by (simp add: fread_into_def)
  moreover have "even (2 ^ Suc (Suc k) :: u32)" by simp
  then have "(2 ^ Suc (Suc k) :: u32) < - 1"
    by (metis less_max_word odd_one even_minus)
  moreover have "(2 * 2 ^ k - Suc 0) div 2 = 2 ^ k - Suc 0"
    by arith
  then have "(2 ^ Suc k - 1 :: u32) div 2 = 2 ^ k - 1"
    using word_mid [of "2 ^ Suc k - 1" 0] p(1) by (simp add: of_nat_diff)
  moreover have "search_loop 4 key 8 8 (2 ^ Suc k) (- 1) (2 ^ k - 1) (Some v) ?g = None"
    using Suc by (intro Suc.IH) simp_all
  ultimately show ?case
    using Suc.prems(2) by (subst search_loop.simps) simp
qed

section \<open>The interface of the search\<close>

text \<open>
  What the clients of the search rely on: a key that the table holds is found, and the stream
  is left behind the key, where the payload of the record starts.
\<close>

locale key_index =
  fixes search :: "cfile \<Rightarrow> 'k::len word \<Rightarrow> u32 \<Rightarrow> u32 \<Rightarrow> u32 \<Rightarrow> (bool \<times> cfile) comp"
    and ksz :: nat
  assumes search_present:
    "key_table ksz f ofs rsz ks \<Longrightarrow> i < length ks \<Longrightarrow>
       search f (of_nat (ks ! i)) (of_nat ofs) (of_nat rsz) (of_nat (length ks)) =
         ret (True, f\<lparr>fpos := ofs + i * rsz + ksz, feof := False\<rparr>)"
begin

text \<open>The 32-bit value that follows the key is what the next read returns.\<close>

lemma search_payload:
  assumes "key_table ksz f ofs rsz ks" and "i < length ks"
    and "bytes_at (le_bytes 4 (unat v)) (ofs + i * rsz + ksz) f"
  shows "bindc (search f (of_nat (ks ! i)) (of_nat ofs) (of_nat rsz) (of_nat (length ks)))
           (\<lambda>(found, f'). if found then bindc (fread_u32 f') (\<lambda>(x, f''). h x f'') else g f') =
         h v (f\<lparr>fpos := ofs + i * rsz + ksz + 4, feof := False\<rparr>)"
proof -
  let ?f = "f\<lparr>fpos := ofs + i * rsz + ksz, feof := False\<rparr>"
  have "fread_u32 ?f = ret (v, ?f\<lparr>fpos := fpos ?f + 4\<rparr>)"
    unfolding fread_u32_def using assms(3)
    by (subst fread_new_at [where bs = "le_bytes 4 (unat v)"]) simp_all
  then show ?thesis
    by (simp add: search_present [OF assms(1,2)])
qed

end

lemma search_from_start:
  assumes "key_table ksz f ofs rsz ks"
  shows "search_loop ksz key (of_nat ofs) (of_nat rsz) 0 (of_nat (length ks))
           ((0 + of_nat (length ks)) div 2) None f = table_loop ksz key ofs rsz 0 (length ks) None f"
  using word_mid [of 0 "length ks"] key_table_count [OF assms] by (simp add: table_loop_def)

lemma unat_key:
  assumes "key_table ksz f ofs rsz ks" and "i < length ks" and "(256::nat) ^ ksz \<le> 2 ^ LENGTH('k::len)"
  shows "unat (of_nat (ks ! i) :: 'k word) = ks ! i"
proof -
  have "ks ! i < 256 ^ ksz"
    using assms by (simp add: key_table_def)
  with assms(3) have "ks ! i < 2 ^ LENGTH('k)" by simp
  then show ?thesis by (simp add: unat_of_nat)
qed

interpretation idx8: key_index searchu8KeyValue 1
  by unfold_locales
    (simp add: searchu8KeyValue_def unat_key [where ksz = 1 and 'k = 8, simplified]
      search_from_start [where ksz = 1, simplified] table_loop_found [where ksz = 1, simplified])

interpretation idx16: key_index searchu16KeyValue 2
  by unfold_locales
    (simp add: searchu16KeyValue_def unat_key [where ksz = 2 and 'k = 16, simplified]
      search_from_start [where ksz = 2, simplified] table_loop_found [where ksz = 2, simplified])

interpretation idx32: key_index searchu32KeyValue 4
  by unfold_locales
    (simp add: searchu32KeyValue_def unat_key [where ksz = 4 and 'k = 32, simplified]
      search_from_start [where ksz = 4, simplified] table_loop_found [where ksz = 4, simplified])

section \<open>Properties\<close>

text \<open>C2: a code that the table of a data file holds is found by the 32-bit search, which leaves the
  stream behind the key, at the payload of the record.\<close>

theorem searchu32KeyValue_present:
  assumes "key_table 4 f ofs rsz ks" and "i < length ks"
  shows "searchu32KeyValue f (of_nat (ks ! i)) (of_nat ofs) (of_nat rsz) (of_nat (length ks)) =
           ret (True, f\<lparr>fpos := ofs + i * rsz + 4, feof := False\<rparr>)"
  using assms by (rule idx32.search_present)

definition sample_table :: "u8 list" where
  "sample_table = concat (map (le_bytes 4) [5, 3, 100, 7, 200, 8, 300, 9, 0])"

lemma sample_key_table: "key_table 4 (fopen_rb sample_table) 8 8 [100, 200, 300]"
  by (simp add: key_table_def sample_table_def bytes_at_def less_Suc_eq numeral_3_eq_3)

theorem searchu32KeyValue_present_witness:
  "searchu32KeyValue (fopen_rb sample_table) 200 8 8 3 =
     ret (True, (fopen_rb sample_table)\<lparr>fpos := 20, feof := False\<rparr>)"
  using searchu32KeyValue_present [OF sample_key_table, of 1] by simp

text \<open>C15: a code the table does not hold and that lies above its first key is reported absent, if the
  record behind the table, which the loop may read, does not start with that code.\<close>

theorem searchu32KeyValue_absent:
  assumes "key_table 4 f ofs rsz ks" and "ks \<noteq> []" and "hd ks < unat key" and "unat key \<notin> set ks"
    and "bytes_at (le_bytes 4 (unat w)) (ofs + length ks * rsz) f" and "w \<noteq> key"
  shows "\<exists>f'. searchu32KeyValue f key (of_nat ofs) (of_nat rsz) (of_nat (length ks)) = ret (False, f')
           \<and> fdata f' = fdata f"
proof -
  let ?p = "length (takeWhile (\<lambda>k. k < unat key) ks)"
  have "sorted_wrt (<) ks"
    using assms(1) by (simp add: key_table_def)
  then have above: "unat key < ks ! j" if "?p \<le> j" "j < length ks" for j
    using sorted_takeWhile_above [OF _ that assms(4)] by simp
  have below: "ks ! j < unat key" if "j < ?p" for j
    using that by (metis nth_mem set_takeWhileD takeWhile_nth)
  have "0 < ?p"
    using assms(2,3) by (cases ks) auto
  moreover have "unat w < 256 ^ 4" "unat w \<noteq> unat key"
    using assms(6) unsigned_less [of w, where 'a = nat] by (auto simp: word_unat_eq_iff)
  ultimately show ?thesis
    using table_loop_absent [OF assms(1,5), of 0 ?p "length ks" "unat key" None] above below
      length_takeWhile_le [of "\<lambda>k. k < unat key" ks] search_from_start [OF assms(1)]
    by (simp add: searchu32KeyValue_def)
qed

theorem searchu32KeyValue_absent_witness:
  "\<exists>f'. searchu32KeyValue (fopen_rb sample_table) 250 8 8 3 = ret (False, f') \<and> fdata f' = sample_table"
  using searchu32KeyValue_absent [OF sample_key_table, of 250 0]
  by (simp add: sample_table_def bytes_at_def)

text \<open>C16: a code below the first key of a table can make the search run forever: here a table with
  the single key 100, preceded by its record count and the value 5, searched for 50.\<close>

theorem searchu32KeyValue_below_diverges:
  "searchu32KeyValue (fopen_rb (concat (map (le_bytes 4) [5, 1, 100, 7]))) 50 8 8 1 = None"
proof -
  let ?bs = "concat (map (le_bytes 4) [5, 1, 100, 7])"
  let ?f = "(fopen_rb ?bs)\<lparr>fpos := 8\<rparr>"
  have "search_loop 4 50 8 8 (2 ^ Suc 27) (- 1) (2 ^ 27 - 1) (Some 1) ?f = None"
    by (rule search_loop_halves [where w = 100]) (simp_all add: fseek_set_def fread_into_def)
  then show ?thesis
    by (simp add: searchu32KeyValue_def fopen_rb_def fseek_set_def fread_into_def less_max_word
        search_loop.simps [where left = 0] search_loop.simps [where left = "2 ^ 31", simplified]
        search_loop.simps [where left = "2 ^ 30", simplified]
        search_loop.simps [where left = "2 ^ 29", simplified])
qed

end
