(* ===== verification/U16_Text.thy ===== *)
theory U16_Text
  imports Prelude
begin

text \<open>
  The text routines at the end of \<^verbatim>\<open>UmSearchModule.cpp\<close> and the tables of
  \<^verbatim>\<open>UmSearchModule.h\<close> they use: zero-terminated 16-bit strings, the splitting of a line into
  tokens, the code of the initial consonants of a Korean word and the packed codes of telephone
  numbers.  A \<^verbatim>\<open>u16 *\<close> is an index into the array it points into; reading or writing outside
  the array is the fault \<open>OutOfRange\<close>.
\<close>

unbundle bit_operations_syntax

section \<open>Tables\<close>

record SIDO_INFO_ST =
  sidoCode :: u8
  ddd :: string
  dddLen :: u8
  tail :: string
  sido_name :: string

definition sido_info :: "u8 \<Rightarrow> string \<Rightarrow> u8 \<Rightarrow> string \<Rightarrow> string \<Rightarrow> SIDO_INFO_ST" where
  "sido_info c d l t n = \<lparr>sidoCode = c, ddd = d, dddLen = l, tail = t, sido_name = n\<rparr>"

definition g_sido_info :: "SIDO_INFO_ST list" where
  "g_sido_info =
    [sido_info 11 ''02'' 2 ''su'' ''Seoul'',
     sido_info 26 ''051'' 3 ''bs'' ''Busna'',
     sido_info 27 ''053'' 3 ''dg'' ''Daegu'',
     sido_info 28 ''032'' 3 ''ic'' ''Incheon'',
     sido_info 29 ''062'' 3 ''kj'' ''Gwangju'',
     sido_info 30 ''042'' 3 ''dj'' ''Daejeon'',
     sido_info 31 ''052'' 3 ''us'' ''Ulsan'',
     sido_info 41 ''031'' 3 ''kg'' ''Gyeonggi-do'',
     sido_info 42 ''033'' 3 ''kw'' ''Gangwon-do'',
     sido_info 43 ''043'' 3 ''cb'' ''Chungcheong buk-do'',
     sido_info 44 ''041'' 3 ''cn'' ''Chungcheong nam-do'',
     sido_info 45 ''063'' 3 ''jb'' ''Jeolla buk-do'',
     sido_info 46 ''061'' 3 ''jn'' ''Jeolla nam-do'',
     sido_info 47 ''054'' 3 ''kb'' ''Gyeongsan buk-do'',
     sido_info 48 ''055'' 3 ''kn'' ''Gyeongsan nam-do'',
     sido_info 50 ''064'' 3 ''jj'' ''Jeju-do'']"

definition chHangulBegin :: u16 where "chHangulBegin = 0xAC00"
definition chHangulEnd :: u16 where "chHangulEnd = 0xD7AF"
definition chHangulChosungBegin :: u16 where "chHangulChosungBegin = 0x3131"
definition chHangulChosungEnd :: u16 where "chHangulChosungEnd = 0x314E"
definition HAN_JUNG_MUL_JONG :: nat where "HAN_JUNG_MUL_JONG = 21 * 28"
definition MAX_HAN_CHO_CNT :: nat where "MAX_HAN_CHO_CNT = 19"
definition MAX_CHOSUNG_LEN :: nat where "MAX_CHOSUNG_LEN = 2"

text \<open>The 19 initial consonants, the digits and the capital letters.\<close>

definition chHangulCho :: "u16 list" where
  "chHangulCho =
    [12593, 12594, 12596, 12599, 12600, 12601, 12609, 12610, 12611, 12613, 12614, 12615, 12616,
     12617, 12618, 12619, 12620, 12621, 12622,
     48, 49, 50, 51, 52, 53, 54, 55, 56, 57,
     65, 66, 67, 68, 69, 70, 71, 72, 73, 74, 75, 76, 77,
     78, 79, 80, 81, 82, 83, 84, 85, 86, 87, 88, 89, 90]"

section \<open>Strings\<close>

function u16len_loop :: "u16 list \<Rightarrow> nat \<Rightarrow> nat \<Rightarrow> nat comp" where
  "u16len_loop m text len =
     bindc (at m (text + len)) (\<lambda>c. if c = 0 then ret len else u16len_loop m text (len + 1))"
  by pat_completeness auto
termination
  by (relation "measure (\<lambda>(m, text, len). length m - (text + len))") (auto simp: at_eq_ret)

definition u16len :: "u16 list \<Rightarrow> nat \<Rightarrow> nat comp" where
  "u16len m text = u16len_loop m text 0"

text \<open>Source and destination of a copy are different arrays at every call.\<close>

function u16cpy :: "u16 list \<Rightarrow> nat \<Rightarrow> u16 list \<Rightarrow> nat \<Rightarrow> u16 list comp" where
  "u16cpy dm dest sm src =
     bindc (at sm src) (\<lambda>c.
       if c \<noteq> 0 then bindc (put dm dest c) (\<lambda>dm'. u16cpy dm' (dest + 1) sm (src + 1))
       else put dm dest 0)"
  by pat_completeness auto
termination
  by (relation "measure (\<lambda>(dm, dest, sm, src). length sm - src)") (auto simp: at_eq_ret)

definition u16cat :: "u16 list \<Rightarrow> nat \<Rightarrow> u16 list \<Rightarrow> nat \<Rightarrow> u16 list comp" where
  "u16cat dm dest sm src = bindc (u16len dm dest) (\<lambda>len. u16cpy dm (dest + len) sm src)"

function u16chr_loop :: "u16 list \<Rightarrow> nat \<Rightarrow> u16 \<Rightarrow> nat comp" where
  "u16chr_loop m pRet ch =
     bindc (at m pRet) (\<lambda>c. if c \<noteq> 0 \<and> c \<noteq> ch then u16chr_loop m (pRet + 1) ch else ret pRet)"
  by pat_completeness auto
termination
  by (relation "measure (\<lambda>(m, pRet, ch). length m - pRet)") (auto simp: at_eq_ret)

definition u16chr :: "u16 list \<Rightarrow> nat option \<Rightarrow> u16 \<Rightarrow> nat option comp" where
  "u16chr m src ch =
     (case src of None \<Rightarrow> ret None | Some p \<Rightarrow> bindc (u16chr_loop m p ch) (\<lambda>r. ret (Some r)))"

section \<open>Trimming and tokens\<close>

function Trim_Left :: "u16 list \<Rightarrow> nat \<Rightarrow> nat comp" where
  "Trim_Left m str = bindc (at m str) (\<lambda>c. if c = 32 then Trim_Left m (str + 1) else ret str)"
  by pat_completeness auto
termination
  by (relation "measure (\<lambda>(m, str). length m - str)") (auto simp: at_eq_ret)

text \<open>\<^verbatim>\<open>nLen\<close> counts down without a lower bound, so that the index may fall below the array.\<close>

definition at_int :: "u16 list \<Rightarrow> int \<Rightarrow> u16 comp" where
  "at_int m i = (if i < 0 then fail OutOfRange else at m (nat i))"

function Trim_Right_loop :: "u16 list \<Rightarrow> nat \<Rightarrow> int \<Rightarrow> int comp" where
  "Trim_Right_loop m str nLen =
     bindc (at_int m (int str + nLen)) (\<lambda>c.
       if c = 32 \<or> c = 13 \<or> c = 10 then Trim_Right_loop m str (nLen - 1) else ret nLen)"
  by pat_completeness auto
termination
  by (relation "measure (\<lambda>(m, str, nLen). nat (int str + nLen + 1))")
    (auto simp: at_int_def split: if_splits)

definition Trim_Right :: "u16 list \<Rightarrow> nat \<Rightarrow> u16 list comp" where
  "Trim_Right m str =
     bindc (u16len m str) (\<lambda>len.
     bindc (Trim_Right_loop m str (int len - 1)) (\<lambda>nLen.
       put m (nat (int str + nLen + 1)) 0))"

definition Trim :: "u16 list \<Rightarrow> nat \<Rightarrow> (nat \<times> u16 list) comp" where
  "Trim m str =
     bindc (Trim_Right m str) (\<lambda>m'. bindc (Trim_Left m' str) (\<lambda>p. ret (p, m')))"

lemmas [simp del] = u16len_loop.simps u16cpy.simps u16chr_loop.simps Trim_Left.simps
  Trim_Right_loop.simps

lemma u16chr_loop_ge: "u16chr_loop m p ch = ret r \<Longrightarrow> p \<le> r \<and> r < length m"
proof (induction m p ch rule: u16chr_loop.induct)
  case (1 m p ch)
  from 1(2) have "p < length m"
    by (subst (asm) u16chr_loop.simps) (auto simp: bindc_eq_ret at_eq_ret)
  with 1(2) show ?case
    using 1(1) [of "m ! p"] by (subst (asm) u16chr_loop.simps) (auto split: if_splits)
qed

lemma u16chr_ge: "u16chr m (Some p) ch = ret (Some r) \<Longrightarrow> p \<le> r \<and> r < length m"
  by (auto simp: u16chr_def bindc_eq_ret dest: u16chr_loop_ge)

lemma Trim_Left_ge: "Trim_Left m p = ret r \<Longrightarrow> p \<le> r \<and> r < length m"
proof (induction m p rule: Trim_Left.induct)
  case (1 m p)
  from 1(2) have "p < length m"
    by (subst (asm) Trim_Left.simps) (auto simp: bindc_eq_ret at_eq_ret)
  with 1(2) show ?case
    using 1(1) [of "m ! p"] by (subst (asm) Trim_Left.simps) (auto split: if_splits)
qed

text \<open>The array of tokens, \<^verbatim>\<open>u16TokenValue\<close>, has 128 entries.\<close>

type_synonym u16TokenValue = "nat option list"

function u16Tokens_loop ::
    "u16 list \<Rightarrow> nat \<Rightarrow> nat \<Rightarrow> nat \<Rightarrow> u16TokenValue \<Rightarrow> u16 \<Rightarrow> (nat \<times> u16TokenValue \<times> u16 list) comp" where
  "u16Tokens_loop m line i n toks ch =
     bindc (at m line) (\<lambda>c. if c = 0 then ret (n, toks, m) else
     bindc (put toks i (Some line)) (\<lambda>toks1.
     bindc (u16chr m (Some line) ch) (\<lambda>r.
     bindc (deref r) (\<lambda>line1.
     bindc (at m line1) (\<lambda>c1. if c1 = 0 then ret (n + 1, toks1, m) else
     bindc (put m line1 0) (\<lambda>m1.
     bindc (Trim_Left m1 (line1 + 1)) (\<lambda>line2.
     bindc (at m1 line2) (\<lambda>c2.
       if c2 = 0 then
         bindc (put toks1 (i + 1) (Some line2)) (\<lambda>toks2.
           u16Tokens_loop m1 line2 (i + 1) (n + 2) toks2 ch)
       else u16Tokens_loop m1 line2 (i + 1) (n + 1) toks1 ch))))))))"
  by pat_completeness auto
termination
proof (relation "measure (\<lambda>(m, line, i, n, toks, ch). length m - line)", goal_cases)
  case 1
  show ?case by simp
next
  case (2 m line i n toks ch)
  then show ?case
    by (auto simp: at_eq_ret put_eq_ret deref_def split: option.splits dest!: u16chr_ge Trim_Left_ge)
next
  case (3 m line i n toks ch)
  then show ?case
    by (auto simp: at_eq_ret put_eq_ret deref_def split: option.splits dest!: u16chr_ge Trim_Left_ge)
qed

definition u16Tokens :: "u16 list \<Rightarrow> nat \<Rightarrow> u16 \<Rightarrow> (nat \<times> u16TokenValue \<times> u16 list) comp" where
  "u16Tokens m str ch =
     bindc (Trim_Left m str) (\<lambda>line.
     bindc (at m line) (\<lambda>c.
       if c \<noteq> 0 then u16Tokens_loop m line 0 0 (replicate 128 None) ch
       else ret (0, replicate 128 None, m)))"

section \<open>Region codes\<close>

text \<open>A code of an administrative district starts with the code of its province, which \<^verbatim>\<open>dongCode\<close>
  replaces by the index of the province in \<^verbatim>\<open>g_sido_info\<close>.\<close>

fun dongCode_loop :: "SIDO_INFO_ST list \<Rightarrow> u32 \<Rightarrow> u32 \<Rightarrow> u64 \<Rightarrow> u32" where
  "dongCode_loop [] i nSido dCode = 0"
| "dongCode_loop (s # ss) i nSido dCode =
     (if ucast (sidoCode s) = nSido then ucast (ucast (i * 100000000) + dCode mod 100000000)
      else dongCode_loop ss (i + 1) nSido dCode)"

definition dongCode :: "u64 \<Rightarrow> u32" where
  "dongCode dCode = dongCode_loop g_sido_info 0 (ucast (dCode div 100000000)) dCode"

section \<open>Codes of initial consonants\<close>

definition isHangul :: "u16 \<Rightarrow> bool" where
  "isHangul ch \<longleftrightarrow> chHangulBegin \<le> ch \<and> ch \<le> chHangulEnd"

definition isChosung :: "u16 \<Rightarrow> bool" where
  "isChosung ch \<longleftrightarrow> chHangulChosungBegin \<le> ch \<and> ch \<le> chHangulChosungEnd"

definition hangul_index :: "u16 \<Rightarrow> nat" where
  "hangul_index ch = (unat ch - unat chHangulBegin) div HAN_JUNG_MUL_JONG"

definition tranChosung :: "u16 \<Rightarrow> u16 comp" where
  "tranChosung ch = (if isHangul ch then at chHangulCho (hangul_index ch) else ret ch)"

text \<open>The classification of wide characters in the \<^verbatim>\<open>"C"\<close> locale.\<close>

definition iswalpha :: "u16 \<Rightarrow> bool" where
  "iswalpha ch \<longleftrightarrow> (65 \<le> ch \<and> ch \<le> 90) \<or> (97 \<le> ch \<and> ch \<le> 122)"

definition towupper :: "u16 \<Rightarrow> u16" where
  "towupper ch = (if 97 \<le> ch \<and> ch \<le> 122 then ch - 32 else ch)"

fun cho_scan :: "nat \<Rightarrow> nat \<Rightarrow> u16 \<Rightarrow> nat" where
  "cho_scan 0 choIdx ch = choIdx"
| "cho_scan (Suc k) choIdx ch =
     (if ch \<noteq> chHangulCho ! choIdx then cho_scan k (choIdx + 1) ch else choIdx)"

text \<open>The value \<^verbatim>\<open>choIdx\<close> that the body of the loop computes for one character.\<close>

definition choIdx :: "u16 \<Rightarrow> u32" where
  "choIdx ch =
     (if isHangul ch then of_nat (1 + hangul_index ch)
      else if isChosung ch then of_nat (cho_scan MAX_HAN_CHO_CNT 0 ch) + 1
      else if iswalpha ch then 1 + 19 + ucast ch - 48
      else if iswalpha ch then 1 + 29 + ucast (towupper ch) - 65
      else 0)"

fun tranChosung_loop :: "u16 list \<Rightarrow> nat \<Rightarrow> nat \<Rightarrow> nat \<Rightarrow> u32 \<Rightarrow> u32 comp" where
  "tranChosung_loop m pText 0 i nRet = ret nRet"
| "tranChosung_loop m pText (Suc k) i nRet =
     bindc (at m (pText + i)) (\<lambda>c.
       tranChosung_loop m pText k (i + 1)
         (nRet OR (push_bit 6 ^^ i) (push_bit 8 (choIdx c))))"

definition tranChosung_text :: "u16 list \<Rightarrow> nat \<Rightarrow> nat \<Rightarrow> u32 comp" where
  "tranChosung_text m pText nLen0 =
     (let nLen = (if nLen0 > MAX_CHOSUNG_LEN then MAX_CHOSUNG_LEN else nLen0)
      in tranChosung_loop m pText nLen 0 (of_nat nLen))"

text \<open>The decoder writes into a static array of six characters.\<close>

fun tranChosung_code_loop :: "nat \<Rightarrow> nat \<Rightarrow> u32 \<Rightarrow> u16 list \<Rightarrow> u16 list comp" where
  "tranChosung_code_loop 0 nIndex nChoCode g = put g nIndex 0"
| "tranChosung_code_loop (Suc k) nIndex nChoCode g =
     (let nChoIndex = int (unat (nChoCode AND 0x3F)) - 1
      in bindc (if nChoIndex < 0 then ret 32 else at chHangulCho (nat nChoIndex)) (\<lambda>c.
         bindc (put g nIndex c) (\<lambda>g'.
           tranChosung_code_loop k (nIndex + 1) (drop_bit 6 nChoCode) g')))"

definition tranChosung_code :: "u32 \<Rightarrow> u16 list comp" where
  "tranChosung_code nChoCode =
     tranChosung_code_loop (unat (nChoCode AND 0xFF)) 0 (drop_bit 8 nChoCode) (replicate 6 0)"

fun checkCompletHangul_loop :: "u16 list \<Rightarrow> nat \<Rightarrow> nat \<Rightarrow> u32 \<Rightarrow> u32 comp" where
  "checkCompletHangul_loop m pText 0 nRet = ret nRet"
| "checkCompletHangul_loop m pText (Suc i) nRet =
     bindc (at m (pText + i)) (\<lambda>c.
       checkCompletHangul_loop m pText i
         (push_bit 1 (if isChosung c then nRet OR 0 else nRet OR 1)))"

definition checkCompletHangul :: "u16 list \<Rightarrow> nat \<Rightarrow> nat \<Rightarrow> u32 comp" where
  "checkCompletHangul m pText nLen =
     bindc (checkCompletHangul_loop m pText nLen 0) (\<lambda>nRet. ret (drop_bit 1 nRet))"

section \<open>Codes of telephone numbers\<close>

fun tranTelNumber2_loop :: "u16 list \<Rightarrow> nat \<Rightarrow> nat \<Rightarrow> nat \<Rightarrow> u16 \<Rightarrow> u16 comp" where
  "tranTelNumber2_loop m pTel 0 i nRet = ret nRet"
| "tranTelNumber2_loop m pTel (Suc k) i nRet =
     bindc (at m (pTel + i)) (\<lambda>c.
       tranTelNumber2_loop m pTel k (i + 1) (push_bit 4 nRet + (c - 48)))"

definition tranTelNumber2 :: "u16 list \<Rightarrow> nat \<Rightarrow> nat \<Rightarrow> u16 comp" where
  "tranTelNumber2 m pTel nLen = tranTelNumber2_loop m pTel nLen 0 0"

text \<open>The printer; its result is the string up to the terminator.\<close>

fun tranTelNumber2_str_loop :: "nat \<Rightarrow> nat \<Rightarrow> u16 \<Rightarrow> u16 \<Rightarrow> bool \<Rightarrow> u8 list \<Rightarrow> u8 list" where
  "tranTelNumber2_str_loop 0 i nFormat nTelCode enable g = g"
| "tranTelNumber2_str_loop (Suc k) i nFormat nTelCode enable g =
     (let nTmp = drop_bit (4 * (3 - i)) (nTelCode AND nFormat)
      in if nTmp \<noteq> 0 \<or> enable
         then tranTelNumber2_str_loop k (i + 1) (drop_bit 4 nFormat) nTelCode True (g @ [ucast (nTmp + 48)])
         else tranTelNumber2_str_loop k (i + 1) (drop_bit 4 nFormat) nTelCode enable g)"

definition tranTelNumber2_str :: "u16 \<Rightarrow> bool \<Rightarrow> u8 list" where
  "tranTelNumber2_str nTelCode bLeftTrim =
     tranTelNumber2_str_loop 4 0 0xF000 nTelCode (\<not> bLeftTrim) []"

text \<open>Number of one token: the token is read up to its terminator.\<close>

definition tel_token :: "u16 list \<Rightarrow> u16TokenValue \<Rightarrow> nat \<Rightarrow> u16 comp" where
  "tel_token m token k =
     bindc (at token k) (\<lambda>t.
     bindc (deref t) (\<lambda>p.
     bindc (u16len m p) (\<lambda>len. tranTelNumber2 m p len)))"

definition tranTelNumber2_parse :: "u16 list \<Rightarrow> nat \<Rightarrow> (u8 \<times> u32) option comp" where
  "tranTelNumber2_parse m pTel =
     bindc (u16Tokens m pTel 45) (\<lambda>(nTokCnt, token, m1).
       let result = (\<lambda>nTelDDD nTelKUK nTelNUM.
             ret (Some (ucast (nTelDDD :: u16), push_bit 16 (ucast (nTelKUK :: u16)) + ucast (nTelNUM :: u16))))
       in if nTokCnt = 3 then
            bindc (tel_token m1 token 0) (\<lambda>nTelDDD.
            bindc (tel_token m1 token 1) (\<lambda>nTelKUK.
            bindc (tel_token m1 token 2) (\<lambda>nTelNUM. result nTelDDD nTelKUK nTelNUM)))
          else if nTokCnt = 2 then
            bindc (tel_token m1 token 0) (\<lambda>nTelKUK.
            bindc (tel_token m1 token 1) (\<lambda>nTelNUM. result 0 nTelKUK nTelNUM))
          else ret None)"

fun tranTelNumber_loop :: "u16 list \<Rightarrow> nat \<Rightarrow> nat \<Rightarrow> u32 \<Rightarrow> u32 \<Rightarrow> u32 comp" where
  "tranTelNumber_loop m pTel 0 nRet nCnt = ret (nRet OR nCnt)"
| "tranTelNumber_loop m pTel (Suc i) nRet nCnt =
     bindc (at m (pTel + i)) (\<lambda>c.
       if c = 45 \<or> c = 32 then tranTelNumber_loop m pTel i nRet nCnt
       else tranTelNumber_loop m pTel i (nRet OR (push_bit 4 ^^ i) (ucast c - 48)) (nCnt + 1))"

definition tranTelNumber :: "u16 list \<Rightarrow> nat \<Rightarrow> u32 comp" where
  "tranTelNumber m pTel = bindc (u16len m pTel) (\<lambda>nLen. tranTelNumber_loop m pTel nLen 0 0)"

section \<open>What the string routines compute\<close>

text \<open>\<open>str_at m p s\<close>: the array \<open>m\<close> holds the zero-terminated string \<open>s\<close> at \<open>p\<close>.\<close>

definition str_at :: "u16 list \<Rightarrow> nat \<Rightarrow> u16 list \<Rightarrow> bool" where
  "str_at m p s \<longleftrightarrow> p + length s < length m \<and> 0 \<notin> set s \<and>
     (\<forall>i < length s. m ! (p + i) = s ! i) \<and> m ! (p + length s) = 0"

lemma str_at_Nil: "str_at m p [] \<longleftrightarrow> p < length m \<and> m ! p = 0"
  by (simp add: str_at_def)

lemma str_at_Cons:
  "str_at m p (c # s) \<longleftrightarrow> c \<noteq> 0 \<and> p < length m \<and> m ! p = c \<and> str_at m (p + 1) s"
  by (auto simp: str_at_def nth_Cons less_Suc_eq_0_disj split: nat.splits)

lemma str_at_append: "str_at m p (a @ b) \<Longrightarrow> str_at m (p + length a) b"
  by (induction a arbitrary: p) (simp, fastforce simp: str_at_Cons)

lemma str_at_update: "q < p \<Longrightarrow> str_at (m[q := v]) p s = str_at m p s"
  by (simp add: str_at_def)

lemma str_at_nonzero: "str_at m p s \<Longrightarrow> 0 \<notin> set s"
  by (simp add: str_at_def)

lemma str_at_head: "str_at m p s \<Longrightarrow> at m p = ret (if s = [] then 0 else hd s)"
  by (cases s) (auto simp: str_at_Nil str_at_Cons)

lemma str_at_index: "str_at m p s \<Longrightarrow> i < length s \<Longrightarrow> at m (p + i) = ret (s ! i)"
  by (simp add: str_at_def)

lemma str_at_keep:
  "str_at m p s \<Longrightarrow> p + length s < q \<Longrightarrow> length m' = length m \<Longrightarrow> \<forall>j < q. m' ! j = m ! j \<Longrightarrow> str_at m' p s"
  by (simp add: str_at_def)

lemma u16len_loop_str: "str_at m (p + k) s \<Longrightarrow> u16len_loop m p k = ret (k + length s)"
  by (induction s arbitrary: k) (subst u16len_loop.simps, simp add: str_at_Nil str_at_Cons)+

lemma u16len_str: "str_at m p s \<Longrightarrow> u16len m p = ret (length s)"
  by (simp add: u16len_def u16len_loop_str)

lemma Trim_Left_str: "str_at m p s \<Longrightarrow> Trim_Left m p = ret (p + length (takeWhile (\<lambda>c. c = 32) s))"
  by (induction s arbitrary: p) (subst Trim_Left.simps, simp add: str_at_Nil str_at_Cons)+

lemma str_at_drop:
  assumes "str_at m p s"
  shows "str_at m (p + length (takeWhile P s)) (dropWhile P s)"
  using str_at_append [of m p "takeWhile P s" "dropWhile P s"] assms by simp

lemma u16chr_str:
  assumes "str_at m p s"
  shows "u16chr m (Some p) ch = ret (Some (p + length (takeWhile (\<lambda>c. c \<noteq> ch) s)))"
proof -
  have "u16chr_loop m p ch = ret (p + length (takeWhile (\<lambda>c. c \<noteq> ch) s))"
    using assms
    by (induction s arbitrary: p) (subst u16chr_loop.simps, simp add: str_at_Nil str_at_Cons)+
  then show ?thesis by (simp add: u16chr_def)
qed

text \<open>Cutting a string at one of its characters gives two strings.\<close>

lemma str_at_cut:
  assumes "str_at m p (a @ c # b)"
  shows "str_at (m[p + length a := 0]) p a" "str_at (m[p + length a := 0]) (p + length a + 1) b"
proof -
  show "str_at (m[p + length a := 0]) p a"
    using assms by (auto simp: str_at_def nth_append)
  show "str_at (m[p + length a := 0]) (p + length a + 1) b"
    using str_at_append [OF assms] by (simp add: str_at_update str_at_Cons)
qed

lemma u16cpy_str:
  assumes "str_at sm src s" and "dest + length s < length dm"
  shows "\<exists>dm'. u16cpy dm dest sm src = ret dm' \<and> length dm' = length dm \<and> str_at dm' dest s
           \<and> (\<forall>j < dest. dm' ! j = dm ! j)"
  using assms
proof (induction s arbitrary: dm dest src)
  case Nil
  then show ?case by (subst u16cpy.simps) (simp add: str_at_Nil)
next
  case (Cons c s)
  then obtain dm' where "u16cpy (dm[dest := c]) (dest + 1) sm (src + 1) = ret dm'"
    and dm': "length dm' = length dm" "str_at dm' (dest + 1) s"
      "\<forall>j < dest + 1. dm' ! j = dm[dest := c] ! j"
    using Cons.IH [of "src + 1" "dest + 1" "dm[dest := c]"] by (auto simp: str_at_Cons)
  then show ?case
    using Cons.prems by (subst u16cpy.simps) (auto simp: str_at_Cons)
qed

text \<open>A destination of fixed size too short for the string and its terminator is overrun.\<close>

lemma u16cpy_overrun:
  assumes "str_at sm src s" and "length dm \<le> dest + length s"
  shows "u16cpy dm dest sm src = fail OutOfRange"
  using assms
proof (induction s arbitrary: dm dest src)
  case Nil
  then show ?case by (subst u16cpy.simps) (simp add: str_at_Nil)
next
  case (Cons c s)
  then show ?case
    by (subst u16cpy.simps, cases "dest < length dm") (simp_all add: str_at_Cons)
qed

text \<open>The tokens of a line that starts with no blank: the pieces between the separators, with the
  blanks in front of each piece removed; a separator at the end gives a last empty token.\<close>

function tokens_of :: "u16 \<Rightarrow> u16 list \<Rightarrow> u16 list list" where
  "tokens_of ch s =
     (if s = [] then []
      else if dropWhile (\<lambda>c. c \<noteq> ch) s = [] then [s]
      else (let r = dropWhile (\<lambda>c. c = 32) (tl (dropWhile (\<lambda>c. c \<noteq> ch) s))
            in takeWhile (\<lambda>c. c \<noteq> ch) s # (if r = [] then [[]] else tokens_of ch r)))"
  by pat_completeness auto
termination
proof (relation "measure (\<lambda>(ch, s). length s)", goal_cases)
  case (2 ch s r)
  have "length r \<le> length (tl (dropWhile (\<lambda>c. c \<noteq> ch) s))"
    unfolding 2(3) by (rule length_dropWhile_le)
  also have "\<dots> < length (dropWhile (\<lambda>c. c \<noteq> ch) s)"
    using 2(2) by (cases "dropWhile (\<lambda>c. c \<noteq> ch) s") auto
  also have "\<dots> \<le> length s" by (rule length_dropWhile_le)
  finally show ?case by simp
qed simp

lemmas [simp del] = tokens_of.simps u16Tokens_loop.simps

text \<open>What a run of the loop leaves behind: the tokens \<open>ts\<close> from entry \<open>i\<close> on, everything before entry
  \<open>i\<close> and before the position \<open>line\<close> unchanged.\<close>

definition tokens_done ::
    "u16 list \<Rightarrow> nat \<Rightarrow> nat \<Rightarrow> u16TokenValue \<Rightarrow> u16 list list \<Rightarrow> u16TokenValue \<Rightarrow> u16 list \<Rightarrow> bool" where
  "tokens_done m line i toks ts toks' m' \<longleftrightarrow>
     length m' = length m \<and> length toks' = length toks \<and>
     (\<forall>j < line. m' ! j = m ! j) \<and> (\<forall>j < i. toks' ! j = toks ! j) \<and>
     (\<forall>k < length ts. \<exists>q. toks' ! (i + k) = Some q \<and> str_at m' q (ts ! k))"

lemma tokens_done_one:
  "str_at m line s \<Longrightarrow> i < length toks \<Longrightarrow> tokens_done m line i toks [s] (toks[i := Some line]) m"
  by (simp add: tokens_done_def)

lemma tokens_done_Cons:
  assumes "tokens_done m1 line2 (i + 1) toks1 ts toks' m'" and "toks1 ! i = Some line"
    and "str_at m1 line a" and "line + length a < line2" and "length m1 = length m"
    and "length toks1 = length toks" and "\<forall>j < line. m1 ! j = m ! j" and "\<forall>j < i. toks1 ! j = toks ! j"
  shows "tokens_done m line i toks (a # ts) toks' m'"
proof -
  have "str_at m' line a"
    using assms by (auto simp: tokens_done_def intro: str_at_keep)
  moreover have "toks' ! i = Some line"
    using assms by (simp add: tokens_done_def)
  ultimately show ?thesis
    using assms by (auto simp: tokens_done_def nth_Cons split: nat.splits)
qed

lemma tokens_cut:
  assumes "dropWhile (\<lambda>c. c \<noteq> ch) s \<noteq> []"
  shows "s = takeWhile (\<lambda>c. c \<noteq> ch) s @ ch # tl (dropWhile (\<lambda>c. c \<noteq> ch) s)"
proof -
  have "hd (dropWhile (\<lambda>c. c \<noteq> ch) s) = ch"
    using hd_dropWhile [OF assms] by simp
  then have "dropWhile (\<lambda>c. c \<noteq> ch) s = ch # tl (dropWhile (\<lambda>c. c \<noteq> ch) s)"
    using assms by (metis list.collapse)
  then show ?thesis by (metis takeWhile_dropWhile_id)
qed

lemma tokens_last:
  assumes "at m line = ret c" "c \<noteq> 0" "i < length toks" "u16chr m (Some line) ch = ret (Some l1)"
    "at m l1 = ret 0"
  shows "u16Tokens_loop m line i n toks ch = ret (n + 1, toks[i := Some line], m)"
  using assms by (subst u16Tokens_loop.simps) simp

lemma tokens_step:
  assumes "at m line = ret c" "c \<noteq> 0" "i < length toks" "u16chr m (Some line) ch = ret (Some l1)"
    "at m l1 = ret c1" "c1 \<noteq> 0" "Trim_Left (m[l1 := 0]) (l1 + 1) = ret l2" "at (m[l1 := 0]) l2 = ret c2"
  shows "u16Tokens_loop m line i n toks ch =
      (if c2 = 0 then bindc (put (toks[i := Some line]) (i + 1) (Some l2))
         (\<lambda>t. u16Tokens_loop (m[l1 := 0]) l2 (i + 1) (n + 2) t ch)
       else u16Tokens_loop (m[l1 := 0]) l2 (i + 1) (n + 1) (toks[i := Some line]) ch)"
proof -
  have "put m l1 0 = ret (m[l1 := 0])"
    using assms(5) by (simp add: at_eq_ret)
  then show ?thesis
    using assms by (subst u16Tokens_loop.simps) simp
qed

lemma tokens_end: "at m line = ret 0 \<Longrightarrow> u16Tokens_loop m line i n toks ch = ret (n, toks, m)"
  by (subst u16Tokens_loop.simps) simp

lemma tokens_of_unfold:
  "s \<noteq> [] \<Longrightarrow> tokens_of ch s =
     (if dropWhile (\<lambda>c. c \<noteq> ch) s = [] then [s]
      else takeWhile (\<lambda>c. c \<noteq> ch) s #
        (if dropWhile (\<lambda>c. c = 32) (tl (dropWhile (\<lambda>c. c \<noteq> ch) s)) = [] then [[]]
         else tokens_of ch (dropWhile (\<lambda>c. c = 32) (tl (dropWhile (\<lambda>c. c \<noteq> ch) s)))))"
  using tokens_of.simps [of ch s] by (simp only: if_False Let_def)

lemma hd_nonzero: "str_at m p s \<Longrightarrow> s \<noteq> [] \<Longrightarrow> hd s \<noteq> 0"
  using str_at_nonzero [of m p s] hd_in_set [of s] by metis

lemma u16Tokens_loop_str:
  assumes "str_at m line s" and "s \<noteq> []" and "i + length (tokens_of ch s) \<le> length toks"
  shows "\<exists>toks' m'. u16Tokens_loop m line i n toks ch = ret (n + length (tokens_of ch s), toks', m')
           \<and> tokens_done m line i toks (tokens_of ch s) toks' m'"
  using assms
proof (induction ch s arbitrary: m line i n toks rule: tokens_of.induct)
  case (1 ch s)
  define a d r toks1 where "a = takeWhile (\<lambda>c. c \<noteq> ch) s" and "d = dropWhile (\<lambda>c. c \<noteq> ch) s"
    and "r = dropWhile (\<lambda>c. c = 32) (tl d)" and "toks1 = toks[i := Some line]"
  note defs = a_def d_def r_def
  have ts: "tokens_of ch s = (if d = [] then [s] else a # (if r = [] then [[]] else tokens_of ch r))"
    unfolding defs by (rule tokens_of_unfold [OF 1(3)])
  have i: "i < length toks"
    using 1(4) by (auto simp: ts split: if_splits)
  note head = str_at_head [OF 1(2), simplified 1(3) if_False] hd_nonzero [OF 1(2,3)] i
    u16chr_str [OF 1(2), of ch, folded a_def]
  note d = str_at_drop [OF 1(2), of "\<lambda>c. c \<noteq> ch", folded defs]
  show ?case
  proof (cases "d = []")
    case True
    then show ?thesis
      using tokens_last [OF head, of n] str_at_head [OF d] tokens_done_one [OF 1(2) i] by (simp add: ts)
  next
    case False
    let ?l1 = "line + length a"
    let ?m = "m[?l1 := 0]" and ?l = "?l1 + 1 + length (takeWhile (\<lambda>c. c = 32) (tl d))"
    have s: "s = a @ ch # tl d"
      using tokens_cut [of ch s] False unfolding defs by simp
    note cut = str_at_cut [OF 1(2) [unfolded s]]
    have r: "str_at ?m ?l r"
      unfolding r_def by (rule str_at_drop [OF cut(2)])
    have step: "u16Tokens_loop m line i n toks ch =
      (if r = [] then bindc (put toks1 (i + 1) (Some ?l)) (\<lambda>t. u16Tokens_loop ?m ?l (i + 1) (n + 2) t ch)
       else u16Tokens_loop ?m ?l (i + 1) (n + 1) toks1 ch)"
      using tokens_step [OF head _ _ Trim_Left_str [OF cut(2)] str_at_head [OF r], of "hd d"]
        str_at_head [OF d] hd_nonzero [OF d False] hd_nonzero [OF r] False by (simp add: toks1_def)
    have rest: "tokens_done m line i toks (a # ts) toks' m'"
      if "tokens_done ?m ?l (i + 1) toks2 ts toks' m'" "toks2 = toks1 \<or> toks2 = toks1[i + 1 := x]"
      for ts toks2 toks' m' x
      using that by (intro tokens_done_Cons [OF that(1) _ cut(1)]) (auto simp: toks1_def i)
    show ?thesis
    proof (cases "r = []")
      case True
      then have "tokens_of ch s = [a, []]" "i + 1 < length toks1"
        using ts False 1(4) by (simp_all add: toks1_def)
      moreover have "tokens_done ?m ?l (i + 1) toks1 [[]] (toks1[i + 1 := Some ?l]) ?m"
        using r True calculation(2) by (intro tokens_done_one) simp_all
      ultimately show ?thesis
        using step True r rest [of toks1 "[[]]"] tokens_end [of ?m ?l] str_at_head [OF r] by simp
    next
      case r0: False
      have len: "i + 1 + length (tokens_of ch r) \<le> length toks1"
        using 1(4) ts False r0 by (simp add: toks1_def)
      obtain toks' m' where
        "u16Tokens_loop ?m ?l (i + 1) (n + 1) toks1 ch = ret (n + 1 + length (tokens_of ch r), toks', m')"
        "tokens_done ?m ?l (i + 1) toks1 (tokens_of ch r) toks' m'"
        using 1(1) [OF 1(3) False [unfolded d_def] r_def [unfolded d_def] r0 r r0 len, of "n + 1"] by metis
      then show ?thesis
        using step r0 rest ts False by simp
    qed
  qed
qed

section \<open>Trimming\<close>

definition blank :: "u16 \<Rightarrow> bool" where
  "blank c \<longleftrightarrow> c = 32 \<or> c = 13 \<or> c = 10"

definition trim_right :: "u16 list \<Rightarrow> u16 list" where
  "trim_right s = rev (dropWhile blank (rev s))"

lemma trim_right_prefix: "\<exists>b. s = trim_right s @ b"
  by (metis rev_append rev_rev_ident takeWhile_dropWhile_id trim_right_def)

lemma Trim_Right_loop_step:
  assumes "p + i < length m"
  shows "Trim_Right_loop m p (int i) =
           (if blank (m ! (p + i)) then Trim_Right_loop m p (int i - 1) else ret (int i))"
  using assms by (subst Trim_Right_loop.simps) (simp add: at_int_def blank_def nat_add_distrib)

lemma Trim_Right_loop_str:
  assumes "p + length s \<le> length m" and "\<forall>i < length s. m ! (p + i) = s ! i" and "\<exists>c \<in> set s. \<not> blank c"
  shows "Trim_Right_loop m p (int (length s) - 1) = ret (int (length (trim_right s)) - 1)"
  using assms
proof (induction s rule: rev_induct)
  case (snoc c s)
  have s: "m ! (p + i) = s ! i" if "i < length s" for i
    using snoc(3) that by (simp add: nth_append)
  have c: "m ! (p + length s) = c"
    using snoc(3) by simp
  have step: "Trim_Right_loop m p (int (length (s @ [c])) - 1) =
      (if blank c then Trim_Right_loop m p (int (length s) - 1) else ret (int (length s)))"
    using Trim_Right_loop_step [of p "length s" m] snoc(2) c by simp
  show ?case
  proof (cases "blank c")
    case True
    then have "Trim_Right_loop m p (int (length s) - 1) = ret (int (length (trim_right s)) - 1)"
      using snoc s by (intro snoc.IH) auto
    then show ?thesis unfolding step using True by (simp add: trim_right_def)
  next
    case False
    then show ?thesis unfolding step by (simp add: trim_right_def)
  qed
qed simp

lemma Trim_Right_str:
  assumes "str_at m p s" and "\<exists>c \<in> set s. \<not> blank c"
  shows "\<exists>m'. Trim_Right m p = ret m' \<and> str_at m' p (trim_right s)"
proof -
  have len: "p + length s < length m" and s: "\<forall>i < length s. m ! (p + i) = s ! i"
    using assms(1) by (auto simp: str_at_def)
  obtain b where b: "s = trim_right s @ b"
    using trim_right_prefix by blast
  then have t: "length (trim_right s) \<le> length s"
    by (metis length_append le_add1)
  let ?m = "m[p + length (trim_right s) := 0]"
  have "Trim_Right m p = ret ?m"
    using u16len_str [OF assms(1)] Trim_Right_loop_str [OF _ s assms(2)] len t
    by (simp add: Trim_Right_def nat_add_distrib)
  moreover have "str_at ?m p (trim_right s)"
  proof (cases b)
    case Nil
    with b assms(1) have "trim_right s = s" by simp
    then show ?thesis using assms(1) by (simp add: str_at_def)
  next
    case (Cons c b')
    then show ?thesis using str_at_cut(1) [of m p "trim_right s" c b'] assms(1) b by simp
  qed
  ultimately show ?thesis by blast
qed

lemma Trim_Right_loop_blank:
  assumes "length s \<le> length m" and "\<forall>i < length s. m ! i = s ! i" and "\<forall>c \<in> set s. blank c"
  shows "Trim_Right_loop m 0 (int (length s) - 1) = fail OutOfRange"
  using assms
proof (induction s rule: rev_induct)
  case Nil
  show ?case by (subst Trim_Right_loop.simps) (simp add: at_int_def)
next
  case (snoc c s)
  have "Trim_Right_loop m 0 (int (length s) - 1) = fail OutOfRange"
    using snoc by (intro snoc.IH) (auto simp: nth_append)
  moreover have "m ! length s = c" "blank c"
    using snoc by auto
  ultimately show ?case
    using Trim_Right_loop_step [of 0 "length s" m] snoc(2) by simp
qed

lemma u16Tokens_full:
  assumes "str_at m p s" and "length (tokens_of ch (dropWhile (\<lambda>c. c = 32) s)) \<le> 128"
  shows "\<exists>toks m'. u16Tokens m p ch = ret (length (tokens_of ch (dropWhile (\<lambda>c. c = 32) s)), toks, m')
           \<and> length toks = 128 \<and> (\<forall>k < length (tokens_of ch (dropWhile (\<lambda>c. c = 32) s)). \<exists>q. toks ! k = Some q \<and>
                str_at m' q (tokens_of ch (dropWhile (\<lambda>c. c = 32) s) ! k))"
proof -
  define t l where "t = dropWhile (\<lambda>c. c = 32) s" and "l = p + length (takeWhile (\<lambda>c. c = 32) s)"
  have t: "str_at m l t"
    unfolding t_def l_def by (rule str_at_drop [OF assms(1)])
  have trim: "Trim_Left m p = ret l"
    using Trim_Left_str [OF assms(1)] by (simp add: l_def)
  show ?thesis
  proof (cases "t = []")
    case True
    then show ?thesis
      using trim str_at_head [OF t] by (simp add: u16Tokens_def t_def tokens_of.simps)
  next
    case False
    obtain toks m' where "u16Tokens_loop m l 0 0 (replicate 128 None) ch = ret (length (tokens_of ch t), toks, m')"
      and fin: "tokens_done m l 0 (replicate 128 None) (tokens_of ch t) toks m'"
      using u16Tokens_loop_str [OF t False, of 0 ch "replicate 128 None" 0] assms(2) t_def by auto
    then have "u16Tokens m p ch = ret (length (tokens_of ch t), toks, m')"
      using trim str_at_head [OF t] hd_nonzero [OF t False] False by (simp add: u16Tokens_def)
    then show ?thesis using fin by (auto simp: tokens_done_def t_def)
  qed
qed

section \<open>Properties of the text routines\<close>

text \<open>C17: \<^verbatim>\<open>u16Tokens\<close> returns the number of tokens of the line, and every entry of the token array
  points to a zero-terminated copy of its token, provided the line has at most 128 tokens.\<close>

theorem u16Tokens_refines:
  assumes "str_at m p s" and "length (tokens_of ch (dropWhile (\<lambda>c. c = 32) s)) \<le> 128"
  shows "\<exists>toks m'. u16Tokens m p ch = ret (length (tokens_of ch (dropWhile (\<lambda>c. c = 32) s)), toks, m')
           \<and> (\<forall>k < length (tokens_of ch (dropWhile (\<lambda>c. c = 32) s)). \<exists>q. toks ! k = Some q \<and>
                str_at m' q (tokens_of ch (dropWhile (\<lambda>c. c = 32) s) ! k))"
  using u16Tokens_full [OF assms] by blast

definition sample_tel :: "u16 list" where
  "sample_tel = [32, 48, 51, 49, 45, 32, 49, 50, 51, 45, 52, 53, 54, 55, 0]"

lemma sample_tel_str: "str_at sample_tel 0 (butlast sample_tel)"
  by (simp add: sample_tel_def str_at_Nil str_at_Cons)

lemma sample_tel_tokens:
  "tokens_of 45 (dropWhile (\<lambda>c. c = 32) (butlast sample_tel)) = [[48, 51, 49], [49, 50, 51], [52, 53, 54, 55]]"
  by (simp add: sample_tel_def tokens_of.simps)

theorem u16Tokens_refines_witness:
  "\<exists>toks m'. u16Tokens sample_tel 0 45 = ret (3, toks, m') \<and>
     (\<exists>q. toks ! 2 = Some q \<and> str_at m' q [52, 53, 54, 55])"
  using u16Tokens_refines [OF sample_tel_str, of 45] unfolding sample_tel_tokens
  by (force dest: spec [of _ 2])

text \<open>\<^verbatim>\<open>Trim\<close> of a text with at least one character that is no blank yields the text without the
  blanks and line ends behind it and without the blanks in front of it.\<close>

theorem Trim_removes_blanks:
  assumes "str_at m p s" and "\<exists>c \<in> set s. \<not> blank c"
  shows "\<exists>q m'. Trim m p = ret (q, m') \<and> str_at m' q (dropWhile (\<lambda>c. c = 32) (trim_right s))"
proof -
  obtain m' where m': "Trim_Right m p = ret m'" "str_at m' p (trim_right s)"
    using Trim_Right_str [OF assms] by blast
  then show ?thesis
    using Trim_Left_str [OF m'(2)] str_at_drop [OF m'(2)] by (simp add: Trim_def)
qed

theorem Trim_removes_blanks_witness:
  "\<exists>q m'. Trim [32, 65, 32, 66, 13, 10, 0] 0 = ret (q, m') \<and> str_at m' q [65, 32, 66]"
  using Trim_removes_blanks [of "[32, 65, 32, 66, 13, 10, 0]" 0 "[32, 65, 32, 66, 13, 10]"]
  by (simp add: str_at_Nil str_at_Cons blank_def trim_right_def)

text \<open>\<^verbatim>\<open>Trim\<close> of an empty text, or of a text of blanks only, reads the memory in front of the
  text.\<close>

theorem Trim_blank_faults:
  assumes "str_at m 0 s" and "\<forall>c \<in> set s. blank c"
  shows "Trim m 0 = fail OutOfRange"
  using assms Trim_Right_loop_blank [of s m] u16len_str [OF assms(1)]
  by (simp add: Trim_def Trim_Right_def str_at_def)

theorem Trim_blank_faults_witness: "Trim [32, 32, 0] 0 = fail OutOfRange"
  using Trim_blank_faults [of "[32, 32, 0]" "[32, 32]"] by (simp add: str_at_Nil str_at_Cons blank_def)

lemma tel_loop_str:
  "str_at m (p + i) s \<Longrightarrow>
     tranTelNumber2_loop m p (length s) i v = ret (foldl (\<lambda>v c. push_bit 4 v + (c - 48)) v s)"
  by (induction s arbitrary: i v) (auto simp: str_at_Cons)

text \<open>The code of a string of digits.\<close>

definition tel_code :: "u16 list \<Rightarrow> u16" where
  "tel_code s = foldl (\<lambda>v c. push_bit 4 v + (c - 48)) 0 s"

lemma tranTelNumber2_str_at: "str_at m p s \<Longrightarrow> tranTelNumber2 m p (length s) = ret (tel_code s)"
  using tel_loop_str [of m p 0 s 0] by (simp add: tranTelNumber2_def tel_code_def)

definition digit :: "u16 \<Rightarrow> bool" where
  "digit c \<longleftrightarrow> 48 \<le> c \<and> c \<le> 57"

lemma digit_cases: "digit c \<Longrightarrow> \<exists>d < 10. c = 48 + of_nat d"
proof -
  assume d: "digit c"
  then have "unat c - 48 < 10" "c = 48 + of_nat (unat c - 48)"
    by (auto simp: digit_def word_le_nat_alt of_nat_diff)
  then show ?thesis by blast
qed

lemma nibble:
  assumes "n < 2 ^ 16"
  shows "drop_bit k (of_nat n :: u16) AND 15 = of_nat (n div 2 ^ k mod 16)"
proof -
  have "(15 :: u16) = mask 4"
    by (simp add: mask_eq_exp_minus_1)
  then have "drop_bit k (of_nat n :: u16) AND 15 = take_bit 4 (drop_bit k (of_nat n))"
    by (simp only: take_bit_eq_mask)
  also have "unat \<dots> = n div 2 ^ k mod 16"
    using assms
    by (simp only: unsigned_take_bit_eq unsigned_drop_bit_eq unat_of_nat)
      (simp add: take_bit_eq_mod drop_bit_eq_div)
  finally show ?thesis
    by (metis word_of_nat_eq_iff word_unat_eq_iff unat_of_nat take_bit_of_nat of_nat_unat ucast_id)
qed

text \<open>The printer writes the four nibbles of the code, from the highest on.\<close>

lemma tel_str_nibbles:
  assumes "n < 2 ^ 16"
  shows "tranTelNumber2_str (of_nat n) b =
    (let ds = map (\<lambda>k. of_nat (n div 2 ^ k mod 16) :: u16) [12, 8, 4, 0]
     in map (\<lambda>d. ucast (d + 48)) (if b then dropWhile (\<lambda>d. d = 0) ds else ds))"
proof -
  let ?c = "of_nat n :: u16"
  have four: "tranTelNumber2_str_loop 4 = tranTelNumber2_str_loop (Suc (Suc (Suc (Suc 0))))"
    by (simp add: eval_nat_numeral)
  have "drop_bit 12 (?c AND 0xF000) = of_nat (n div 2 ^ 12 mod 16)"
    "drop_bit 8 (?c AND 0xF00) = of_nat (n div 2 ^ 8 mod 16)"
    "drop_bit 4 (?c AND 0xF0) = of_nat (n div 2 ^ 4 mod 16)"
    "?c AND 0xF = of_nat (n div 2 ^ 0 mod 16)"
    using nibble [OF assms, of 12] nibble [OF assms, of 8] nibble [OF assms, of 4] nibble [OF assms, of 0]
    by (simp_all only: drop_bit_and) simp_all
  then show ?thesis
    unfolding tranTelNumber2_str_def four by (simp add: Let_def)
qed

lemma tel_code_digits:
  "tel_code [48 + of_nat a, 48 + of_nat b, 48 + of_nat c, 48 + of_nat d] =
     of_nat (4096 * a + 256 * b + 16 * c + d)"
  by (simp add: tel_code_def push_bit_eq_mult algebra_simps)

text \<open>C13: a telephone number of four digits survives packing into 16 bits and printing; with
  \<^verbatim>\<open>bLeftTrim\<close> the printed form lacks the leading zeros.\<close>

theorem tranTelNumber2_roundtrip:
  assumes "str_at m p s" and "length s = 4" and "\<forall>c \<in> set s. digit c"
  shows "\<exists>code. tranTelNumber2 m p 4 = ret code \<and>
           tranTelNumber2_str code False = map ucast s \<and>
           tranTelNumber2_str code True = map ucast (dropWhile (\<lambda>c. c = 48) s)"
proof -
  obtain x y z w where s: "s = [x, y, z, w]"
    using assms(2) by (auto simp: numeral_eq_Suc length_Suc_conv)
  then obtain a b c d where abcd: "a < 10" "b < 10" "c < 10" "d < (10::nat)"
    "s = [48 + of_nat a, 48 + of_nat b, 48 + of_nat c, 48 + of_nat d]"
    using assms(3) digit_cases [of x] digit_cases [of y] digit_cases [of z] digit_cases [of w] by auto
  define n where "n = 4096 * a + 256 * b + 16 * c + d"
  have n: "n < 2 ^ 16" "n div 2 ^ 12 mod 16 = a" "n div 2 ^ 8 mod 16 = b" "n div 2 ^ 4 mod 16 = c"
    "n div 2 ^ 0 mod 16 = d"
  proof -
    have hex: "(16 * x + y) div 16 = x" "(16 * x + y) mod 16 = y" if "y < 10" for x y :: nat
      using that by simp_all
    have n: "n = 16 * (16 * (16 * a + b) + c) + d"
      by (simp add: n_def)
    have div: "n div 256 = n div 16 div 16" "n div 4096 = n div 16 div 16 div 16"
      by (simp_all add: div_mult2_eq [symmetric])
    have "n div 4096 = a" "n div 256 mod 16 = b" "n div 16 mod 16 = c" "n mod 16 = d"
      unfolding div unfolding n by (simp_all only: hex abcd(1-4))
    then show "n < 2 ^ 16" "n div 2 ^ 12 mod 16 = a" "n div 2 ^ 8 mod 16 = b"
      "n div 2 ^ 4 mod 16 = c" "n div 2 ^ 0 mod 16 = d"
      using abcd(1-4) by simp_all
  qed
  have zero: "(of_nat k :: u16) = 0 \<longleftrightarrow> k = 0" "48 + of_nat k = (48 :: u16) \<longleftrightarrow> k = 0" if "k < 10" for k
    using that by (auto simp: word_of_nat_eq_0_iff dvd_def)
  have code: "tranTelNumber2 m p 4 = ret (of_nat n)"
    using tranTelNumber2_str_at [OF assms(1), unfolded assms(2)] tel_code_digits abcd(5)
    by (simp only: n_def)
  have "tranTelNumber2_str (of_nat n) False = map ucast s"
    by (simp only: tel_str_nibbles [OF n(1)] n list.map abcd(5) Let_def if_False add.commute)
  moreover have "tranTelNumber2_str (of_nat n) True = map ucast (dropWhile (\<lambda>c. c = 48) s)"
    unfolding tel_str_nibbles [OF n(1)] n list.map abcd(5) Let_def
    using zero abcd by (simp add: add.commute)
  ultimately show ?thesis using code by blast
qed

theorem tranTelNumber2_roundtrip_witness:
  "\<exists>code. tranTelNumber2 [48, 49, 50, 55, 0] 0 4 = ret code \<and>
     tranTelNumber2_str code False = [48, 49, 50, 55] \<and> tranTelNumber2_str code True = [49, 50, 55]"
  using tranTelNumber2_roundtrip [of "[48, 49, 50, 55, 0]" 0 "[48, 49, 50, 55]"]
  by (simp add: str_at_Nil str_at_Cons digit_def)

section \<open>Properties of the codes of initial consonants\<close>

text \<open>A precomposed syllable; the last one is \<open>U+D7A3\<close>, twelve code points below \<^verbatim>\<open>chHangulEnd\<close>.\<close>

definition syllable :: "u16 \<Rightarrow> bool" where
  "syllable c \<longleftrightarrow> 0xAC00 \<le> c \<and> c \<le> 0xD7A3"

definition initial :: "u16 \<Rightarrow> u16" where
  "initial c = chHangulCho ! hangul_index c"

lemma syllable_index:
  assumes "syllable c"
  shows "isHangul c" "hangul_index c < 19"
proof -
  have "0xAC00 \<le> unat c" "unat c \<le> 0xD7A3"
    using assms by (simp_all add: syllable_def word_le_nat_alt)
  then show "isHangul c" "hangul_index c < 19"
    by (simp_all add: isHangul_def hangul_index_def chHangulBegin_def chHangulEnd_def
        HAN_JUNG_MUL_JONG_def word_le_nat_alt less_mult_imp_div_less)
qed

lemma choIdx_small: "k < 63 \<Longrightarrow> take_bit 6 (of_nat (Suc k) :: u32) = of_nat (Suc k)"
proof -
  assume "k < 63"
  then have "take_bit 6 (Suc k) = Suc k"
    by (simp add: take_bit_nat_eq_self_iff)
  then show ?thesis
    by (metis take_bit_of_nat)
qed

lemma shift_back:
  fixes x :: u32
  assumes "take_bit 6 x = x" and "k \<le> l" and "l \<le> 26"
  shows "drop_bit k (push_bit l x) = push_bit (l - k) x"
proof (rule bit_eqI)
  fix n
  have "n < 6" if "bit x n" for n
    using that assms(1) by (metis bit_take_bit_iff)
  then have "k + n < 32" if "l \<le> k + n" "bit x (k + n - l)"
    using that assms(3) by fastforce
  then show "bit (drop_bit k (push_bit l x)) n = bit (push_bit (l - k) x) n"
    using assms(2) by (simp add: bit_simps add.commute le_diff_conv) linarith
qed


lemma tranChosung_text_two:
  assumes "str_at m p (c # d # t)" and "syllable c" and "syllable d"
  shows "tranChosung_text m p (Suc (Suc k)) = ret (2 OR push_bit 8 (of_nat (Suc (hangul_index c)))
           OR push_bit 14 (of_nat (Suc (hangul_index d))))"
  using assms syllable_index
  by (simp add: tranChosung_text_def MAX_CHOSUNG_LEN_def numeral_2_eq_2 str_at_Cons choIdx_def Let_def
      or.assoc)

lemma tranChosung_text_one:
  assumes "str_at m p [c]" and "syllable c"
  shows "tranChosung_text m p 1 = ret (1 OR push_bit 8 (of_nat (Suc (hangul_index c))))"
  using assms syllable_index
  by (simp add: tranChosung_text_def MAX_CHOSUNG_LEN_def str_at_Cons choIdx_def Let_def)

lemma cho_code_two:
  fixes x y :: u32
  assumes "take_bit 6 x = x" and "take_bit 6 y = y"
  defines "code \<equiv> 2 OR push_bit 8 x OR push_bit 14 y"
  shows "code AND 0xFF = 2" "drop_bit 8 code AND 0x3F = x" "drop_bit 6 (drop_bit 8 code) AND 0x3F = y"
proof -
  have mask: "w AND 0xFF = take_bit 8 w" "w AND 0x3F = take_bit 6 w" for w :: u32
    by (simp_all add: take_bit_eq_mask mask_eq_exp_minus_1)
  have zero: "take_bit k (push_bit l w) = 0" if "k \<le> l" for k l and w :: u32
    using that by (simp add: take_bit_push_bit)
  show "code AND 0xFF = 2"
    unfolding mask code_def by (simp add: zero)
  have low: "drop_bit 8 code = x OR push_bit 6 y"
    using shift_back [OF assms(1), of 8 8] shift_back [OF assms(2), of 8 14] by (simp add: code_def)
  have none: "drop_bit 6 x = 0"
    by (subst assms(1) [symmetric]) (simp add: drop_bit_take_bit)
  show "drop_bit 8 code AND 0x3F = x"
    unfolding mask low by (simp add: zero assms(1))
  show "drop_bit 6 (drop_bit 8 code) AND 0x3F = y"
    unfolding mask low using shift_back [OF assms(2), of 6 6] none by (simp add: assms(2))
qed

lemma cho_code_one:
  fixes x :: u32
  assumes "take_bit 6 x = x"
  shows "(1 OR push_bit 8 x) AND 0xFF = 1" "drop_bit 8 (1 OR push_bit 8 x) AND 0x3F = x"
proof -
  have mask: "w AND 0xFF = take_bit 8 w" "w AND 0x3F = take_bit 6 w" for w :: u32
    by (simp_all add: take_bit_eq_mask mask_eq_exp_minus_1)
  show "(1 OR push_bit 8 x) AND 0xFF = 1"
    unfolding mask by (simp add: take_bit_push_bit)
  show "drop_bit 8 (1 OR push_bit 8 x) AND 0x3F = x"
    unfolding mask using shift_back [OF assms, of 8 8] by (simp add: assms)
qed

lemma unat_cho: "k < 63 \<Longrightarrow> unat (of_nat (Suc k) :: u32) = Suc k"
  by (simp only: unat_of_nat) simp

lemma length_chHangulCho: "length chHangulCho = 55"
  by (simp add: chHangulCho_def)

lemma initial_at: "syllable c \<Longrightarrow> at chHangulCho (hangul_index c) = ret (initial c)"
  using syllable_index(2) [of c] by (simp add: initial_def length_chHangulCho)

lemma initial_nonzero: "syllable c \<Longrightarrow> initial c \<noteq> 0"
proof -
  assume "syllable c"
  then have "initial c \<in> set chHangulCho"
    using syllable_index(2) [of c] by (simp add: initial_def length_chHangulCho)
  then show ?thesis by (auto simp: chHangulCho_def)
qed

lemma cho_step:
  assumes "nChoCode AND 0x3F = of_nat (Suc (hangul_index c))" and "syllable c" and "n < length g"
  shows "tranChosung_code_loop (Suc k) n nChoCode g =
           tranChosung_code_loop k (n + 1) (drop_bit 6 nChoCode) (g[n := initial c])"
proof -
  have "unat (nChoCode AND 0x3F) = Suc (hangul_index c)"
    unfolding assms(1) using syllable_index(2) [OF assms(2)] by (intro unat_cho) simp
  then show ?thesis
    using initial_at [OF assms(2)] assms(3) by (simp add: Let_def)
qed

lemma choIdx_syllable:
  "syllable c \<Longrightarrow> take_bit 6 (of_nat (Suc (hangul_index c)) :: u32) = of_nat (Suc (hangul_index c))"
  using syllable_index(2) [of c] by (intro choIdx_small) simp

lemma buf6: "replicate 6 0 = [0, 0, 0, 0, 0, 0 :: u16]"
  by (simp add: numeral_eq_Suc)

lemma tranChosung_code_one:
  assumes "syllable c"
  shows "tranChosung_code (1 OR push_bit 8 (of_nat (Suc (hangul_index c)))) = ret [initial c, 0, 0, 0, 0, 0]"
proof -
  note code = cho_code_one [OF choIdx_syllable [OF assms]]
  show ?thesis
    unfolding tranChosung_code_def code(1) unat_1 One_nat_def buf6
    by (subst cho_step [OF code(2) assms], simp) simp
qed

lemma tranChosung_code_two:
  assumes "syllable c" and "syllable d"
  shows "tranChosung_code (2 OR push_bit 8 (of_nat (Suc (hangul_index c)))
           OR push_bit 14 (of_nat (Suc (hangul_index d)))) = ret [initial c, initial d, 0, 0, 0, 0]"
proof -
  note code = cho_code_two [OF choIdx_syllable [OF assms(1)] choIdx_syllable [OF assms(2)]]
  have two: "unat (2 :: u32) = Suc (Suc 0)" by simp
  show ?thesis
    unfolding tranChosung_code_def code(1) two buf6
    by (subst cho_step [OF code(2) assms(1)], simp, subst cho_step [OF code(3) assms(2)], simp) simp
qed

text \<open>C18: the search code of a Korean word, decoded, gives the initial consonants of its first two
  syllables.\<close>

theorem tranChosung_roundtrip:
  assumes "str_at m p s" and "s \<noteq> []" and "\<forall>c \<in> set s. syllable c"
  shows "\<exists>code g. tranChosung_text m p (length s) = ret code \<and> tranChosung_code code = ret g \<and>
           str_at g 0 (map initial (take 2 s))"
proof -
  consider c where "s = [c]" | c d t where "s = c # d # t"
    using assms(2) by (metis list.exhaust)
  then show ?thesis
  proof cases
    case 1
    then show ?thesis
      using tranChosung_text_one [of m p c] tranChosung_code_one [of c] initial_nonzero [of c] assms
      by (auto simp: str_at_Nil str_at_Cons)
  next
    case 2
    then show ?thesis
      using tranChosung_text_two [of m p c d t "length t"] tranChosung_code_two [of c d]
        initial_nonzero [of c] initial_nonzero [of d] assms
      by (auto simp: str_at_Nil str_at_Cons)
  qed
qed

theorem tranChosung_roundtrip_witness:
  "\<exists>code g. tranChosung_text [0xC11C, 0xC6B8, 0xC2DC, 0] 0 3 = ret code \<and> tranChosung_code code = ret g
     \<and> str_at g 0 [0x3145, 0x3147]"
  using tranChosung_roundtrip [of "[0xC11C, 0xC6B8, 0xC2DC, 0]" 0 "[0xC11C, 0xC6B8, 0xC2DC]"]
  by (simp add: str_at_Nil str_at_Cons syllable_def initial_def hangul_index_def chHangulBegin_def
      HAN_JUNG_MUL_JONG_def chHangulCho_def numeral_3_eq_3)

text \<open>The code of a digit is the code of no character, and the letter \<open>A\<close> is decoded as \<open>H\<close>: the
  branches for digits and for letters test the same condition.\<close>

theorem tranChosung_digit_letter:
  "tranChosung_text [49, 65, 0] 0 2 = ret 606210 \<and>
     tranChosung_code 606210 = ret [32, 72, 0, 0, 0, 0]"
proof -
  have two: "tranChosung_loop m p 2 = tranChosung_loop m p (Suc (Suc 0))" for m p
    by (simp add: numeral_2_eq_2)
  have "tranChosung_text [49, 65, 0] 0 2 = ret 606210"
    by (simp add: tranChosung_text_def MAX_CHOSUNG_LEN_def two choIdx_def isHangul_def isChosung_def
        iswalpha_def chHangulBegin_def chHangulEnd_def chHangulChosungBegin_def chHangulChosungEnd_def)
  moreover have "tranChosung_code 606210 = ret [32, 72, 0, 0, 0, 0]"
  proof -
    have code: "unat (606210 AND 0xFF :: u32) = Suc (Suc 0)" "drop_bit 8 (606210 :: u32) = 2368"
      by simp_all
    show ?thesis
      unfolding tranChosung_code_def code buf6 by (simp add: Let_def chHangulCho_def)
  qed
  ultimately show ?thesis ..
qed

section \<open>Properties of telephone numbers and region codes\<close>

text \<open>A telephone number with area code, exchange and subscriber number, separated by hyphens
  and with blanks in front of the parts, is packed part by part.\<close>

theorem tranTelNumber2_parse_three:
  assumes "str_at m p s" and "tokens_of 45 (dropWhile (\<lambda>c. c = 32) s) = [a, b, c]"
  shows "tranTelNumber2_parse m p =
           ret (Some (ucast (tel_code a), push_bit 16 (ucast (tel_code b)) + ucast (tel_code c)))"
proof -
  let ?ts = "tokens_of 45 (dropWhile (\<lambda>c. c = 32) s)"
  have "length ?ts \<le> 128" by (simp add: assms(2))
  then obtain toks m' where tok: "u16Tokens m p 45 = ret (length ?ts, toks, m')"
    and at: "\<And>k. k < length ?ts \<Longrightarrow> \<exists>q. toks ! k = Some q \<and> str_at m' q (?ts ! k)"
    and len: "length toks = 128"
    using u16Tokens_full [OF assms(1)] by blast
  have "tel_token m' toks k = ret (tel_code (?ts ! k))" if k: "k < length ?ts" for k
  proof -
    obtain q where "toks ! k = Some q" "str_at m' q (?ts ! k)"
      using at [OF k] by blast
    then show ?thesis
      using len k \<open>length ?ts \<le> 128\<close> u16len_str tranTelNumber2_str_at by (simp add: tel_token_def)
  qed
  from this [of 0] this [of 1] this [of 2] tok show ?thesis
    by (simp add: tranTelNumber2_parse_def assms(2) Let_def)
qed

theorem tranTelNumber2_parse_three_witness:
  "tranTelNumber2_parse sample_tel 0 = ret (Some (0x31, 0x01234567))"
  using tranTelNumber2_parse_three [OF sample_tel_str sample_tel_tokens]
  by (simp add: tel_code_def)

lemma u64_of_nat: "n < 2 ^ 64 \<Longrightarrow> unat (of_nat n :: u64) = n"
  by (simp add: unat_of_nat)

lemma u64_div:
  assumes "n < 2 ^ 64" and "k < 2 ^ 64"
  shows "(of_nat n :: u64) div of_nat k = of_nat (n div k)"
proof -
  have "n div k < 2 ^ 64"
    using assms(1) by (rule le_less_trans [OF div_le_dividend])
  then show ?thesis using assms by (simp only: word_unat_eq_iff unat_div u64_of_nat)
qed

lemma u64_mod:
  assumes "n < 2 ^ 64" and "k < 2 ^ 64"
  shows "(of_nat n :: u64) mod of_nat k = of_nat (n mod k)"
proof -
  have "n mod k < 2 ^ 64"
    using assms(1) by (rule le_less_trans [OF mod_less_eq_dividend])
  then show ?thesis using assms by (simp only: word_unat_eq_iff unat_mod u64_of_nat)
qed

lemma ucast_u8_inject: "(ucast (x :: u8) :: u32) = ucast y \<longleftrightarrow> x = y"
  by transfer simp

lemma ucast_via_u64: "(ucast (ucast (x :: u8) :: u64) :: u32) = ucast x"
  by transfer simp

lemma ucast_add_ucast: "(ucast (ucast (x :: u32) + of_nat r :: u64) :: u32) = x + of_nat r"
proof -
  have "unat (ucast x :: u64) = unat x"
    using unsigned_less [of x, where 'a = nat] by (simp add: unsigned_ucast_eq take_bit_nat_eq_self_iff)
  then have "unat (ucast x + of_nat r :: u64) = (unat x + r) mod 2 ^ 64"
    by (simp add: unat_word_ariths unat_of_nat mod_simps)
  moreover have "(ucast w :: u32) = of_nat (unat w)" for w :: u64 by simp
  ultimately have "(ucast (ucast x + of_nat r :: u64) :: u32) = of_nat ((unat x + r) mod 2 ^ 64)" by metis
  also have "\<dots> = of_nat (unat x + r)"
    unfolding word_of_nat_eq_iff take_bit_eq_mod by (rule mod_mod_cancel) (simp add: le_imp_power_dvd)
  finally show ?thesis by simp
qed

lemma dongCode_loop_nth:
  assumes "distinct (map sidoCode ss)" and "i < length ss" and "dCode mod 100000000 = of_nat r"
  shows "dongCode_loop ss (of_nat j) (ucast (sidoCode (ss ! i))) dCode =
           (of_nat ((i + j) * 100000000 + r) :: u32)"
  using assms
proof (induction ss arbitrary: i j)
  case (Cons s ss)
  show ?case
  proof (cases i)
    case 0
    have "(ucast (ucast (of_nat j * 100000000 :: u32) + of_nat r :: u64) :: u32) = of_nat (j * 100000000 + r)"
      by (simp only: ucast_add_ucast) simp
    then show ?thesis using Cons.prems 0 by simp
  next
    case (Suc k)
    then have "sidoCode s \<noteq> sidoCode (ss ! k)"
      using Cons.prems by auto
    then have "(ucast (sidoCode s) :: u32) \<noteq> ucast (sidoCode (ss ! k))"
      by (simp add: ucast_u8_inject)
    then show ?thesis
      using Cons Suc Cons.IH [of k "Suc j"] by (simp add: add.commute)
  qed
qed simp

text \<open>A district code of a known province is translated to the index of the province followed
  by the remaining eight digits, so that different districts get different codes.\<close>

theorem dongCode_known:
  assumes "i < length g_sido_info" and "r < 100000000"
  shows "dongCode (of_nat (unat (sidoCode (g_sido_info ! i)) * 100000000 + r)) =
           of_nat (i * 100000000 + r)"
proof -
  let ?c = "unat (sidoCode (g_sido_info ! i))"
  let ?n = "?c * 100000000 + r"
  have "?c < 256" by simp
  then have "?n < 256 * 100000000 + 100000000" using assms(2) by linarith
  then have n: "?n < 2 ^ 64" by (rule less_trans) simp
  have "?n div 100000000 = ?c" "?n mod 100000000 = r"
    using assms(2) by simp_all
  then have "(of_nat ?n :: u64) div 100000000 = of_nat ?c" and r: "(of_nat ?n :: u64) mod 100000000 = of_nat r"
    using u64_div [OF n, of 100000000] u64_mod [OF n, of 100000000] by simp_all
  then have "(ucast ((of_nat ?n :: u64) div 100000000) :: u32) = ucast (sidoCode (g_sido_info ! i))"
    using ucast_via_u64 [of "sidoCode (g_sido_info ! i)"] by simp
  moreover have "distinct (map sidoCode g_sido_info)"
    by (simp add: g_sido_info_def sido_info_def)
  ultimately show ?thesis
    using dongCode_loop_nth [OF _ assms(1) r, of 0] by (simp add: dongCode_def)
qed

theorem dongCode_known_witness: "dongCode 4111012345 = 711012345"
  using dongCode_known [of 7 11012345] by (simp add: g_sido_info_def sido_info_def)

end
