(* ===== verification/Std_Map.thy ===== *)
theory Std_Map
  imports Prelude
begin

text \<open>
  \<^verbatim>\<open>std::map\<close> as the sequence of its entries in the order of the keys.  An iterator is the
  position of an entry; the number of entries stands for \<^verbatim>\<open>end()\<close>.
\<close>

type_synonym ('k, 'v) std_map = "('k \<times> 'v) list"

definition map_ok :: "('k::linorder, 'v) std_map \<Rightarrow> bool" where
  "map_ok m \<longleftrightarrow> sorted_wrt (<) (map fst m)"

text \<open>\<^verbatim>\<open>insert\<close> keeps an entry that is already there; \<^verbatim>\<open>operator[]\<close> on the left of an assignment
  replaces it.\<close>

fun map_insert :: "'k::linorder \<Rightarrow> 'v \<Rightarrow> ('k, 'v) std_map \<Rightarrow> ('k, 'v) std_map" where
  "map_insert k v [] = [(k, v)]"
| "map_insert k v ((k', v') # m) =
     (if k < k' then (k, v) # (k', v') # m
      else if k = k' then (k', v') # m
      else (k', v') # map_insert k v m)"

fun map_assign :: "'k::linorder \<Rightarrow> 'v \<Rightarrow> ('k, 'v) std_map \<Rightarrow> ('k, 'v) std_map" where
  "map_assign k v [] = [(k, v)]"
| "map_assign k v ((k', v') # m) =
     (if k < k' then (k, v) # (k', v') # m
      else if k = k' then (k, v) # m
      else (k', v') # map_assign k v m)"

definition map_find :: "'k \<Rightarrow> ('k, 'v) std_map \<Rightarrow> 'v option" where
  "map_find k m = map_of m k"

definition lower_bound :: "'k::linorder \<Rightarrow> ('k, 'v) std_map \<Rightarrow> nat" where
  "lower_bound k m = length (takeWhile (\<lambda>e. fst e < k) m)"

definition upper_bound :: "'k::linorder \<Rightarrow> ('k, 'v) std_map \<Rightarrow> nat" where
  "upper_bound k m = length (takeWhile (\<lambda>e. fst e \<le> k) m)"

text \<open>\<^verbatim>\<open>std::multimap::insert\<close> stores behind the entries with the same key.\<close>

definition multimap_insert :: "'k::linorder \<Rightarrow> 'v \<Rightarrow> ('k, 'v) std_map \<Rightarrow> ('k, 'v) std_map" where
  "multimap_insert k v m = takeWhile (\<lambda>e. fst e \<le> k) m @ (k, v) # dropWhile (\<lambda>e. fst e \<le> k) m"

text \<open>\<^verbatim>\<open>std::set\<close> as the sequence of its elements; \<^verbatim>\<open>insert\<close>.\<close>

fun std_set_insert :: "'a::linorder \<Rightarrow> 'a list \<Rightarrow> 'a list" where
  "std_set_insert x [] = [x]"
| "std_set_insert x (y # ys) =
     (if x < y then x # y # ys else if x = y then y # ys else y # std_set_insert x ys)"

text \<open>\<^verbatim>\<open>erase\<close> of a map and of a set, by key.\<close>

definition map_erase :: "'k \<Rightarrow> ('k, 'v) std_map \<Rightarrow> ('k, 'v) std_map" where
  "map_erase k m = filter (\<lambda>e. fst e \<noteq> k) m"

definition std_set_erase :: "'a \<Rightarrow> 'a list \<Rightarrow> 'a list" where
  "std_set_erase x ys = filter (\<lambda>y. y \<noteq> x) ys"

section \<open>Laws\<close>

lemma set_map_erase: "set (map_erase k m) = {e \<in> set m. fst e \<noteq> k}"
  by (auto simp: map_erase_def)

lemma set_std_set_erase [simp]: "set (std_set_erase x ys) = set ys - {x}"
  by (auto simp: std_set_erase_def)

lemma std_set_erase_absent: "x \<notin> set ys \<Longrightarrow> std_set_erase x ys = ys"
  by (auto simp: std_set_erase_def intro!: filter_True)

lemma sorted_std_set_erase: "sorted_wrt (<) ys \<Longrightarrow> sorted_wrt (<) (std_set_erase x ys)"
  by (simp add: std_set_erase_def sorted_wrt_filter)

lemma map_find_erase: "map_find k' (map_erase k m) = (if k' = k then None else map_find k' m)"
  unfolding map_find_def map_erase_def by (induction m) auto

lemma set_std_set_insert [simp]: "set (std_set_insert x ys) = insert x (set ys)"
  by (induction ys) auto

lemma sorted_std_set_insert: "sorted_wrt (<) ys \<Longrightarrow> sorted_wrt (<) (std_set_insert x ys)"
  by (induction ys) auto

lemma multimap_insert_set: "set (multimap_insert k v m) = insert (k, v) (set m)"
proof -
  have "set m = set (takeWhile (\<lambda>e. fst e \<le> k) m) \<union> set (dropWhile (\<lambda>e. fst e \<le> k) m)"
    by (metis set_append takeWhile_dropWhile_id)
  then show ?thesis by (auto simp: multimap_insert_def)
qed

lemma multimap_insert_sorted: "sorted (map fst m) \<Longrightarrow> sorted (map fst (multimap_insert k v m))"
proof (induction m)
  case (Cons e m)
  then show ?case
    by (cases "fst e \<le> k") (auto simp: multimap_insert_def dest!: set_takeWhileD set_dropWhileD)
qed (simp add: multimap_insert_def)


lemma map_ok_Nil [simp]: "map_ok []"
  by (simp add: map_ok_def)

lemma map_ok_Cons [simp]: "map_ok ((k, v) # m) \<longleftrightarrow> (\<forall>e \<in> set m. k < fst e) \<and> map_ok m"
  by (auto simp: map_ok_def)

lemma map_insert_keys: "fst ` set (map_insert k v m) = insert k (fst ` set m)"
  by (induction k v m rule: map_insert.induct) auto

lemma map_insert_set: "e \<in> set (map_insert k v m) \<Longrightarrow> e = (k, v) \<or> e \<in> set m"
  by (induction k v m rule: map_insert.induct) (auto split: if_splits)

lemma map_insert_ok [simp]: "map_ok m \<Longrightarrow> map_ok (map_insert k v m)"
  by (induction k v m rule: map_insert.induct) (auto dest!: map_insert_set)

lemma map_of_insert:
  assumes "map_ok m"
  shows "map_of (map_insert k v m) k' =
           (if k' = k \<and> k \<notin> fst ` set m then Some v else map_of m k')"
  using assms
proof (induction k v m rule: map_insert.induct)
  case (2 k v k1 v1 m)
  have new: "k1 \<notin> fst ` set m" "k < k1 \<Longrightarrow> k \<notin> fst ` set m" using 2(2) by auto
  consider "k < k1" | "k = k1" | "k1 < k" by fastforce
  then show ?case
  proof cases
    case 1
    with new show ?thesis by auto
  next
    case 2
    with new show ?thesis by simp
  next
    case 3
    then have "\<not> k < k1" "k \<noteq> k1" by auto
    with 2 new show ?thesis by auto
  qed
qed simp

lemma map_find_insert:
  assumes "map_ok m"
  shows "map_find k' (map_insert k v m) =
           (if k' = k \<and> map_find k m = None then Some v else map_find k' m)"
  using map_of_insert [OF assms] by (simp add: map_find_def map_of_eq_None_iff)

lemma map_assign_set: "e \<in> set (map_assign k v m) \<Longrightarrow> e = (k, v) \<or> e \<in> set m"
  by (induction k v m rule: map_assign.induct) (auto split: if_splits)

lemma map_assign_ok [simp]: "map_ok m \<Longrightarrow> map_ok (map_assign k v m)"
  by (induction k v m rule: map_assign.induct) (auto dest!: map_assign_set)

lemma map_find_assign: "map_ok m \<Longrightarrow> map_find k' (map_assign k v m) = (if k' = k then Some v else map_find k' m)"
  unfolding map_find_def
  by (induction k v m rule: map_assign.induct) (auto dest: map_of_SomeD)

lemma map_erase_ok [simp]: "map_ok m \<Longrightarrow> map_ok (map_erase k m)"
  by (simp add: map_ok_def map_erase_def filter_map [symmetric, unfolded o_def] sorted_wrt_map sorted_wrt_filter)

lemma map_erase_absent: "map_find k m = None \<Longrightarrow> map_erase k m = m"
  by (auto simp: map_erase_def map_find_def map_of_eq_None_iff intro!: filter_True)

lemma map_erase_insert: "map_find k m = None \<Longrightarrow> map_erase k (map_insert k v m) = m"
proof (induction k v m rule: map_insert.induct)
  case (2 k v k1 v1 m)
  then show ?case
    using map_erase_absent [of k "(k1, v1) # m"] by (auto simp: map_erase_def map_find_def split: if_splits)
qed (simp add: map_erase_def)

lemma map_find_mem: "map_ok m \<Longrightarrow> map_find k m = Some v \<longleftrightarrow> (k, v) \<in> set m"
  unfolding map_find_def
  by (intro map_of_eq_Some_iff) (simp add: map_ok_def strict_sorted_iff)

text \<open>A map is determined by what it finds.\<close>

lemma map_ok_eqI:
  assumes "map_ok m" "map_ok m'" "\<And>k. map_find k m = map_find k m'"
  shows "m = m'"
proof -
  have "set m = set m'" using assms by (metis (no_types) map_find_mem set_eqI surj_pair)
  then have keys: "map fst m = map fst m'"
    using assms(1,2) by (intro strict_sorted_equal) (simp_all add: map_ok_def)
  have "e = e'" if "e \<in> set m" "e' \<in> set m" "fst e = fst e'" for e e'
    using that assms(1) by (metis map_find_mem option.inject prod.collapse)
  then have "inj_on fst (set m \<union> set m')" using \<open>set m = set m'\<close> by (auto intro!: inj_onI)
  with keys show ?thesis by (simp add: inj_on_map_eq_map)
qed

section \<open>Positions in an ordered index\<close>

text \<open>
  What a client of \<^verbatim>\<open>lower_bound\<close> and \<^verbatim>\<open>upper_bound\<close> relies on, whichever container provides
  them: a tree walked in order, or a binary search over an array of keys.
\<close>

locale ordered_index =
  fixes ok :: "'m \<Rightarrow> bool"
    and count :: "'m \<Rightarrow> nat"
    and key_at :: "'m \<Rightarrow> nat \<Rightarrow> 'k::linorder"
    and lower :: "'k \<Rightarrow> 'm \<Rightarrow> nat"
    and upper :: "'k \<Rightarrow> 'm \<Rightarrow> nat"
  assumes increasing: "ok m \<Longrightarrow> i < j \<Longrightarrow> j < count m \<Longrightarrow> key_at m i < key_at m j"
    and lower_le: "ok m \<Longrightarrow> lower k m \<le> count m"
    and lower_below: "ok m \<Longrightarrow> i < lower k m \<Longrightarrow> key_at m i < k"
    and lower_above: "ok m \<Longrightarrow> lower k m \<le> i \<Longrightarrow> i < count m \<Longrightarrow> k \<le> key_at m i"
    and upper_le: "ok m \<Longrightarrow> upper k m \<le> count m"
    and upper_below: "ok m \<Longrightarrow> i < upper k m \<Longrightarrow> key_at m i \<le> k"
    and upper_above: "ok m \<Longrightarrow> upper k m \<le> i \<Longrightarrow> i < count m \<Longrightarrow> k < key_at m i"
begin

lemma lower_unique:
  assumes "ok m" "n \<le> count m" "\<And>i. i < n \<Longrightarrow> key_at m i < k"
    and "\<And>i. n \<le> i \<Longrightarrow> i < count m \<Longrightarrow> k \<le> key_at m i"
  shows "lower k m = n"
proof (rule antisym)
  show "lower k m \<le> n"
    using assms lower_below [OF assms(1), of n k] lower_le [OF assms(1), of k]
    by (metis leD leI less_le_trans order_refl)
  show "n \<le> lower k m"
    using assms(2,3) lower_above [OF assms(1), of k "lower k m"]
    by (metis leD leI less_le_trans order_refl)
qed

lemma upper_unique:
  assumes "ok m" "n \<le> count m" "\<And>i. i < n \<Longrightarrow> key_at m i \<le> k"
    and "\<And>i. n \<le> i \<Longrightarrow> i < count m \<Longrightarrow> k < key_at m i"
  shows "upper k m = n"
proof (rule antisym)
  show "upper k m \<le> n"
    using assms upper_below [OF assms(1), of n k] upper_le [OF assms(1), of k]
    by (metis leD leI less_le_trans order_refl)
  show "n \<le> upper k m"
    using assms(2,3) upper_above [OF assms(1), of k "upper k m"]
    by (metis leD leI less_le_trans order_refl)
qed

lemma lower_eq_iff:
  assumes "ok m" "a \<le> b"
  shows "lower a m = lower b m \<longleftrightarrow> (\<forall>i < count m. key_at m i < a \<or> b \<le> key_at m i)"
proof
  assume eq: "lower a m = lower b m"
  show "\<forall>i < count m. key_at m i < a \<or> b \<le> key_at m i"
    using lower_below [OF assms(1), of _ a] lower_above [OF assms(1), of b] eq by (metis not_le)
next
  assume gap: "\<forall>i < count m. key_at m i < a \<or> b \<le> key_at m i"
  show "lower a m = lower b m"
  proof (rule lower_unique [OF assms(1) lower_le [OF assms(1)]])
    show "key_at m i < a" if "i < lower b m" for i
      using that gap lower_below [OF assms(1) that] lower_le [OF assms(1), of b]
      by (meson leD less_le_trans)
    show "a \<le> key_at m i" if "lower b m \<le> i" "i < count m" for i
      using lower_above [OF assms(1) that] assms(2) by (rule order_trans [rotated])
  qed
qed

text \<open>The entry in front of the upper bound is the last one at or below the key.\<close>

lemma upper_floor:
  assumes "ok m" "upper k m \<noteq> 0"
  shows "upper k m - 1 < count m" "key_at m (upper k m - 1) \<le> k"
    and "j < count m \<Longrightarrow> key_at m j \<le> k \<Longrightarrow> key_at m j \<le> key_at m (upper k m - 1)"
proof -
  show last: "upper k m - 1 < count m" using upper_le [OF assms(1), of k] assms(2) by linarith
  show "key_at m (upper k m - 1) \<le> k" using upper_below [OF assms(1)] assms(2) by simp
  assume j: "j < count m" "key_at m j \<le> k"
  then have "j \<le> upper k m - 1" using upper_above [OF assms(1), of k j] assms(2) by fastforce
  then show "key_at m j \<le> key_at m (upper k m - 1)"
    using increasing [OF assms(1) _ last, of j] by (cases "j = upper k m - 1") auto
qed

lemma upper_zero_iff:
  assumes "ok m"
  shows "upper k m = 0 \<longleftrightarrow> (\<forall>i < count m. k < key_at m i)"
  using upper_above [OF assms, of k] upper_below [OF assms, of 0 k] upper_le [OF assms, of k]
  by (metis gr0I leD le0 less_le_trans)

end

definition key_of :: "('k, 'v) std_map \<Rightarrow> nat \<Rightarrow> 'k" where
  "key_of m i = fst (m ! i)"

lemma takeWhile_border:
  assumes "\<And>x y. P y \<Longrightarrow> R x y \<Longrightarrow> P x" "sorted_wrt R xs" "length (takeWhile P xs) \<le> i" "i < length xs"
  shows "\<not> P (xs ! i)"
proof
  let ?n = "length (takeWhile P xs)"
  assume i: "P (xs ! i)"
  have n: "?n < length xs" using assms(3,4) by simp
  then have "\<not> P (xs ! ?n)" by (rule nth_length_takeWhile)
  moreover have "P (xs ! ?n)"
    using assms(1) [OF i] i sorted_wrt_nth_less [OF assms(2), of ?n i] assms(3,4)
    by (cases "?n = i") auto
  ultimately show False ..
qed

lemma takeWhile_before: "i < length (takeWhile P xs) \<Longrightarrow> P (xs ! i)"
  by (metis nth_mem set_takeWhileD takeWhile_nth)

interpretation std: ordered_index map_ok length key_of lower_bound upper_bound
proof (unfold_locales, goal_cases)
  case (1 m i j)
  then show ?case
    using sorted_wrt_nth_less [of "(<)" "map fst m" i j] by (simp add: map_ok_def key_of_def)
next
  case (2 m k)
  then show ?case by (simp add: lower_bound_def length_takeWhile_le)
next
  case (3 m i k)
  then show ?case
    using takeWhile_before [of i "\<lambda>e. fst e < k" m] by (simp add: lower_bound_def key_of_def)
next
  case (4 m k i)
  then have "\<not> fst (m ! i) < k"
    by (intro takeWhile_border [where P = "\<lambda>e. fst e < k" and R = "\<lambda>x y. fst x < fst y"])
      (auto simp: lower_bound_def map_ok_def sorted_wrt_map)
  then show ?case by (simp add: key_of_def)
next
  case (5 m k)
  then show ?case by (simp add: upper_bound_def length_takeWhile_le)
next
  case (6 m i k)
  then show ?case
    using takeWhile_before [of i "\<lambda>e. fst e \<le> k" m] by (simp add: upper_bound_def key_of_def)
next
  case (7 m k i)
  then have "\<not> fst (m ! i) \<le> k"
    by (intro takeWhile_border [where P = "\<lambda>e. fst e \<le> k" and R = "\<lambda>x y. fst x < fst y"])
      (auto simp: upper_bound_def map_ok_def sorted_wrt_map)
  then show ?case by (simp add: key_of_def)
qed

end
