(* ===== verification/Text_Mng.thy ===== *)
theory Text_Mng
  imports Key_Search U16_Text Std_Map "HOL-Library.List_Lexorder"
begin

text \<open>
  The text store \<^verbatim>\<open>CTextMng\<close> (\<^verbatim>\<open>TextMng.h\<close>, \<^verbatim>\<open>TextMng.cpp\<close>): a file of 16-bit texts addressed by
  a packed code (offset and length), the index of the texts, and the tables of district and road
  names that refer to it.
\<close>

section \<open>State\<close>

text \<open>The stream of the text file: none, opened for writing, opened for reading, or closed while the
  member still points to it (\<^verbatim>\<open>Save\<close> does not reset it).\<close>

datatype text_file = NoFile | Writing cfile | Reading cfile | Dangling

type_synonym tstring = "u16 list"

record CTextMng =
  m_Text :: "tstring list"
  m_TextIdx :: "(tstring, u32 \<times> u32) std_map"
  m_offset :: u32
  m_Text_fp :: text_file
  m_Text_idx_ofs :: "u32 option"
  m_Text_buff :: "u16 option list list"
  m_name_fp :: "cfile option"
  m_sido_ofs :: "u32 option"
  m_sigungu_ofs :: "u32 option"
  m_dong_ofs :: "u32 option"
  m_road_ofs :: "u32 option"

definition CTextMng_new :: CTextMng where
  "CTextMng_new =
     \<lparr>m_Text = [[]], m_TextIdx = [], m_offset = 0, m_Text_fp = NoFile, m_Text_idx_ofs = Some 0,
      m_Text_buff = replicate 4 (replicate 32 None), m_name_fp = None, m_sido_ofs = Some 0,
      m_sigungu_ofs = Some 0, m_dong_ofs = Some 0, m_road_ofs = Some 0\<rparr>"

text \<open>A returned \<^verbatim>\<open>const u16 *\<close>: a row of the text buffer or a member of \<^verbatim>\<open>m_Text\<close>; \<open>None\<close> is
  \<^verbatim>\<open>NULL\<close>.\<close>

datatype text_ptr = Buff nat | Stored nat

fun c_str :: "u16 option list \<Rightarrow> tstring comp" where
  "c_str [] = fail OutOfRange"
| "c_str (x # xs) =
     bindc (need x) (\<lambda>c. if c = 0 then ret [] else bindc (c_str xs) (\<lambda>cs. ret (c # cs)))"

definition text_of :: "CTextMng \<Rightarrow> text_ptr \<Rightarrow> tstring comp" where
  "text_of st p = (case p of Buff i \<Rightarrow> bindc (at (m_Text_buff st) i) c_str
     | Stored i \<Rightarrow> bindc (at (m_Text st) i) (\<lambda>t. c_str (map Some t @ [Some 0])))"

section \<open>Streams\<close>

definition text_fseek :: "u32 \<Rightarrow> text_file \<Rightarrow> text_file comp" where
  "text_fseek off fp = (case fp of NoFile \<Rightarrow> fail NullDeref | Dangling \<Rightarrow> fail ClosedFile
     | Writing f \<Rightarrow> ret (Writing (fseek_set off f)) | Reading f \<Rightarrow> ret (Reading (fseek_set off f)))"

text \<open>Reading from a stream opened for writing reads nothing.\<close>

definition text_fread :: "nat \<Rightarrow> (u8 list \<Rightarrow> 'a) \<Rightarrow> nat \<Rightarrow> 'a option list \<Rightarrow> text_file \<Rightarrow>
    ('a option list \<times> text_file) comp" where
  "text_fread n dec cnt buf fp = (case fp of NoFile \<Rightarrow> fail NullDeref | Dangling \<Rightarrow> fail ClosedFile
     | Writing f \<Rightarrow> ret (buf, fp)
     | Reading f \<Rightarrow> bindc (fread_over n dec cnt 0 buf f) (\<lambda>(buf', f'). ret (buf', Reading f')))"

definition writable :: "text_file \<Rightarrow> cfile comp" where
  "writable fp = (case fp of NoFile \<Rightarrow> fail NullDeref | Dangling \<Rightarrow> fail ClosedFile
     | Writing f \<Rightarrow> ret f | Reading f \<Rightarrow> ret f)"

text \<open>\<^verbatim>\<open>fclose\<close> of a stream that was closed already is a fault.\<close>

definition text_fclose :: "text_file \<Rightarrow> unit comp" where
  "text_fclose fp = (case fp of NoFile \<Rightarrow> fail NullDeref | Dangling \<Rightarrow> fail ClosedFile | _ \<Rightarrow> ret ())"

definition u16_bytes :: "tstring \<Rightarrow> u8 list" where
  "u16_bytes t = concat (map (\<lambda>c. le_bytes 2 (unat c)) t)"

text \<open>\<^verbatim>\<open>fwrite\<close> to a stream opened for reading writes nothing.\<close>

definition text_fwrite :: "u8 list \<Rightarrow> text_file \<Rightarrow> text_file comp" where
  "text_fwrite bs fp = (case fp of NoFile \<Rightarrow> fail NullDeref | Dangling \<Rightarrow> fail ClosedFile
     | Writing f \<Rightarrow> ret (Writing (fwrite_bytes bs f)) | Reading f \<Rightarrow> ret fp)"

section \<open>Operations\<close>

text \<open>The packed code of a text: its offset in the upper 27 bits, its length in the lower five.\<close>

definition text_code :: "u32 \<Rightarrow> nat \<Rightarrow> u32" where
  "text_code ofs len = (push_bit 5 ofs AND NOT 0x1F) + of_nat len"

text \<open>The zero-terminated string at \<open>p\<close>, as the constructor of \<^verbatim>\<open>tstring\<close> reads it.\<close>

definition cstr_at :: "u16 list \<Rightarrow> nat \<Rightarrow> tstring comp" where
  "cstr_at m p = c_str (map Some (drop p m))"

definition addText :: "u16 list \<Rightarrow> nat \<Rightarrow> CTextMng \<Rightarrow> (u32 \<times> u32 \<times> u16 list \<times> CTextMng) comp" where
  "addText m pText st =
     bindc (Trim m pText) (\<lambda>(p, m1).
     bindc (cstr_at m1 p) (\<lambda>text.
       case map_find text (m_TextIdx st) of
         None \<Rightarrow>
           bindc (writable (m_Text_fp st)) (\<lambda>f.
           let nTextIdx = of_nat (length (m_Text st));
               ofs = ftell f;
               code = text_code ofs (length text)
           in bindc (text_fwrite (u16_bytes text) (m_Text_fp st)) (\<lambda>fp'.
              ret (nTextIdx, code, m1,
                st\<lparr>m_offset := ofs, m_Text_fp := fp', m_Text := m_Text st @ [text],
                   m_TextIdx := map_insert text (nTextIdx, code) (m_TextIdx st)\<rparr>)))
       | Some (i, code) \<Rightarrow> ret (i, code, m1, st)))"

definition getTextOfs :: "u32 \<Rightarrow> nat \<Rightarrow> CTextMng \<Rightarrow> (text_ptr \<times> nat \<times> CTextMng) comp" where
  "getTextOfs txt_ofs nBufIdx st =
     (let nLen = unat (txt_ofs AND 0x1F)
      in bindc (text_fseek (drop_bit 5 txt_ofs) (m_Text_fp st)) (\<lambda>fp1.
         bindc (at (m_Text_buff st) nBufIdx) (\<lambda>buf.
         bindc (text_fread 2 le_word nLen buf fp1) (\<lambda>(buf1, fp2).
         bindc (put buf1 nLen (Some 0)) (\<lambda>buf2.
         bindc (put (m_Text_buff st) nBufIdx buf2) (\<lambda>bufs.
           ret (Buff nBufIdx, nLen, st\<lparr>m_Text_fp := fp2, m_Text_buff := bufs\<rparr>)))))))"

definition getText :: "u32 \<Rightarrow> CTextMng \<Rightarrow> (text_ptr option \<times> CTextMng) comp" where
  "getText textIdx st =
     (if m_Text_fp st \<noteq> NoFile then
        bindc (need (m_Text_idx_ofs st)) (\<lambda>idx_ofs.
        bindc (text_fseek (idx_ofs + textIdx * 4) (m_Text_fp st)) (\<lambda>fp1.
        bindc (text_fread 4 le_word 1 [None] fp1) (\<lambda>(v, fp2).
        bindc (need (hd v)) (\<lambda>txt_ofs.
        bindc (getTextOfs txt_ofs 0 (st\<lparr>m_Text_fp := fp2\<rparr>)) (\<lambda>(p, len, st').
          ret (Some p, st'))))))
      else if unat textIdx \<ge> length (m_Text st) then ret (None, st)
      else ret (Some (Stored (unat textIdx)), st))"

text \<open>The names of the two files are built in an array of \<^verbatim>\<open>MAX_PATH\<close> characters.  The file system is a
  parameter: the contents of the files that can be opened for reading, and the names that can be
  opened for writing.\<close>

type_synonym file_system = "string \<Rightarrow> u8 list option"

definition MAX_PATH :: nat where "MAX_PATH = 256"

definition file_name :: "string \<Rightarrow> string \<Rightarrow> string comp" where
  "file_name path name =
     (if length path + length name < MAX_PATH then ret (path @ name) else fail OutOfRange)"

definition TextMng_Init :: "(string \<Rightarrow> bool) \<Rightarrow> string \<Rightarrow> CTextMng \<Rightarrow> CTextMng comp" where
  "TextMng_Init can_create path st =
     bindc (file_name path ''text.dat'') (\<lambda>name.
       ret (st\<lparr>m_Text_fp := if can_create name
                            then Writing \<lparr>fdata = [], fpos = 0, feof = False\<rparr> else NoFile\<rparr>))"

text \<open>The codes of the texts, in the order of the map, and behind them the offset of the first.\<close>

definition index_bytes :: "(tstring, u32 \<times> u32) std_map \<Rightarrow> u8 list" where
  "index_bytes idx = concat (map (\<lambda>e. le_bytes 4 (unat (snd (snd e)))) idx)"

text \<open>The result is the state and the bytes of the closed file.\<close>

definition TextMng_Save :: "CTextMng \<Rightarrow> (u8 list \<times> CTextMng) comp" where
  "TextMng_Save st =
     bindc (writable (m_Text_fp st)) (\<lambda>f.
     let text_idx_ofs = ftell f
     in bindc (text_fwrite (index_bytes (m_TextIdx st)) (m_Text_fp st)) (\<lambda>fp1.
        bindc (text_fwrite (le_bytes 4 (unat text_idx_ofs)) fp1) (\<lambda>fp2.
        bindc (writable fp2) (\<lambda>f2.
        bindc (text_fclose fp2) (\<lambda>_.
          ret (fdata f2, st\<lparr>m_Text_fp := Dangling\<rparr>))))))"

definition close_text :: "CTextMng \<Rightarrow> unit comp" where
  "close_text st = (if m_Text_fp st \<noteq> NoFile then text_fclose (m_Text_fp st) else ret ())"

text \<open>\<^verbatim>\<open>Load\<close> reads the offset of the index from the end of the text file before it tests whether the
  file could be opened.\<close>

definition TextMng_Load :: "file_system \<Rightarrow> string \<Rightarrow> CTextMng \<Rightarrow> (bool \<times> CTextMng) comp" where
  "TextMng_Load fs path st =
     bindc (close_text st) (\<lambda>_.
     bindc (file_name path ''text.dat'') (\<lambda>text_name.
     bindc (deref (map_option fopen_rb (fs text_name))) (\<lambda>t0.
     case fread_into 4 le_word (m_Text_idx_ofs st) (fseek_end (- 4) t0) of (idx_ofs, t1) \<Rightarrow>
     bindc (file_name path ''name.dat'') (\<lambda>name_name.
     let st1 = st\<lparr>m_Text_fp := Reading t1, m_Text_idx_ofs := idx_ofs\<rparr>
     in case fs name_name of
          None \<Rightarrow> ret (False, st1\<lparr>m_name_fp := None\<rparr>)
        | Some bs \<Rightarrow>
            (case fread_into 4 le_word (m_sigungu_ofs st) (fseek_end (- 12) (fopen_rb bs)) of (sg, n1) \<Rightarrow>
             case fread_into 4 le_word (m_dong_ofs st) n1 of (dg, n2) \<Rightarrow>
             case fread_into 4 le_word (m_road_ofs st) n2 of (rd, n3) \<Rightarrow>
               ret (True, st1\<lparr>m_name_fp := Some n3, m_sigungu_ofs := sg, m_dong_ofs := dg,
                              m_road_ofs := rd\<rparr>))))))"

text \<open>The loop of \<^verbatim>\<open>Load2\<close> appends a value once more after the last read has met the end.\<close>

function Load2_loop :: "u32 option \<Rightarrow> u32 option list \<Rightarrow> cfile \<Rightarrow> u32 option list \<times> cfile" where
  "Load2_loop text_ofs offsets f =
     (if feof f then (offsets, f)
      else let r = fread_into 4 le_word text_ofs f
           in Load2_loop (fst r) (offsets @ [fst r]) (snd r))"
  by pat_completeness auto
termination
  by (relation "measure (\<lambda>(v, offsets, f). length (fdata f) - fpos f + (if feof f then 0 else 1))")
    (auto simp: fread_into_def Let_def)

fun Load2_insert :: "u32 option list \<Rightarrow> CTextMng \<Rightarrow> CTextMng comp" where
  "Load2_insert [] st = ret st"
| "Load2_insert (v # vs) st =
     bindc (need v) (\<lambda>ofs.
     bindc (getTextOfs ofs 0 st) (\<lambda>(p, len, st1).
     bindc (text_of st1 p) (\<lambda>t.
       Load2_insert vs (st1\<lparr>m_TextIdx := map_insert t (0, ofs) (m_TextIdx st1)\<rparr>))))"

definition TextMng_Load2 :: "file_system \<Rightarrow> string \<Rightarrow> CTextMng \<Rightarrow> (bool \<times> CTextMng) comp" where
  "TextMng_Load2 fs path st =
     bindc (close_text st) (\<lambda>_.
     bindc (file_name path ''text.dat'') (\<lambda>text_name.
     bindc (deref (map_option fopen_rb (fs text_name))) (\<lambda>t0.
     bindc (fread_u32 (fseek_end (- 4) t0)) (\<lambda>(text_idx_ofs, t1).
     case Load2_loop None [] (fseek_set text_idx_ofs t1) of (offsets, t2) \<Rightarrow>
     bindc (Load2_insert offsets (st\<lparr>m_Text_fp := Reading t2\<rparr>)) (\<lambda>st1. ret (True, st1))))))"

text \<open>The four name tables of \<^verbatim>\<open>name.dat\<close>: the number of records, then the records, each a key and the
  code of a text.  The functions differ in the table, the width of the key and the buffer.\<close>

definition name_search :: "(cfile \<Rightarrow> 'k::len word \<Rightarrow> u32 \<Rightarrow> u32 \<Rightarrow> u32 \<Rightarrow> (bool \<times> cfile) comp) \<Rightarrow> u32 \<Rightarrow>
    u32 option \<Rightarrow> nat \<Rightarrow> 'k word \<Rightarrow> CTextMng \<Rightarrow> ((text_ptr \<times> nat) option \<times> CTextMng) comp" where
  "name_search search rsz table_ofs nBufIdx code st =
     (case m_name_fp st of
        None \<Rightarrow> ret (None, st)
      | Some f \<Rightarrow>
          (if m_Text_fp st = NoFile then ret (None, st)
           else
             bindc (need table_ofs) (\<lambda>ofs.
             bindc (fread_u32 (fseek_set ofs f)) (\<lambda>(nu32, f1).
             bindc (search f1 code (ftell f1) rsz nu32) (\<lambda>(found, f2).
               if found then
                 (case fread_into 4 le_word (Some nu32) f2 of (v, f3) \<Rightarrow>
                  bindc (need v) (\<lambda>txt_ofs.
                  bindc (getTextOfs txt_ofs nBufIdx (st\<lparr>m_name_fp := Some f3\<rparr>)) (\<lambda>(p, len, st').
                    ret (Some (p, len), st'))))
               else ret (None, st\<lparr>m_name_fp := Some f2\<rparr>))))))"

definition getSidoName :: "u8 \<Rightarrow> CTextMng \<Rightarrow> ((text_ptr \<times> nat) option \<times> CTextMng) comp" where
  "getSidoName sidoIdx st = name_search searchu8KeyValue 5 (m_sido_ofs st) 0 sidoIdx st"

definition getSigunguName :: "u16 \<Rightarrow> CTextMng \<Rightarrow> ((text_ptr \<times> nat) option \<times> CTextMng) comp" where
  "getSigunguName sigunguCode st = name_search searchu16KeyValue 6 (m_sigungu_ofs st) 1 sigunguCode st"

definition getDongName :: "u32 \<Rightarrow> CTextMng \<Rightarrow> ((text_ptr \<times> nat) option \<times> CTextMng) comp" where
  "getDongName code st = name_search searchu32KeyValue 8 (m_dong_ofs st) 2 code st"

definition getRoadName :: "u32 \<Rightarrow> CTextMng \<Rightarrow> ((text_ptr \<times> nat) option \<times> CTextMng) comp" where
  "getRoadName roadCode st = name_search searchu32KeyValue 8 (m_road_ofs st) 3 roadCode st"

section \<open>Texts in the file\<close>

text \<open>\<open>text_at bs t code\<close>: the file contents \<open>bs\<close> hold the text \<open>t\<close> where \<open>code\<close> says.\<close>

definition text_at :: "u8 list \<Rightarrow> tstring \<Rightarrow> u32 \<Rightarrow> bool" where
  "text_at bs t code \<longleftrightarrow> length t = unat (code AND 0x1F) \<and> 0 \<notin> set t \<and>
     take (2 * length t) (drop (unat (drop_bit 5 code)) bs) = u16_bytes t"

lemma length_u16_bytes [simp]: "length (u16_bytes t) = 2 * length t"
  by (induction t) (simp_all add: u16_bytes_def)

lemma le_bytes2: "le_bytes 2 v = [of_nat v, of_nat (v div 256)]"
  by (simp add: numeral_2_eq_2)

lemma le_bytes4: "le_bytes 4 v = [of_nat v, of_nat (v div 256), of_nat (v div 65536), of_nat (v div 16777216)]"
proof -
  have "4 = Suc (Suc (Suc (Suc 0)))" by simp
  then show ?thesis
    by (simp only: le_bytes.simps) (simp add: div_mult2_eq [symmetric])
qed

lemma u16_bytes_Cons: "u16_bytes (c # t) = le_bytes 2 (unat c) @ u16_bytes t"
  by (simp add: u16_bytes_def)

lemma mask5: "(w :: u32) AND 0x1F = take_bit 5 w"
  by (simp add: take_bit_eq_mask mask_eq_exp_minus_1)

lemma unat_drop5: "unat (drop_bit 5 (w :: u32)) = unat w div 32"
proof -
  have "take_bit 32 (unat w) = unat w"
    using unsigned_less [of w, where 'a = nat] by (simp add: take_bit_nat_eq_self_iff)
  then show ?thesis
    by (simp only: unsigned_drop_bit_eq) (simp add: drop_bit_eq_div)
qed

lemma text_code_nat:
  assumes "ofs < 2 ^ 27" and "len < 32"
  shows "text_code (of_nat ofs) len = of_nat (32 * ofs + len)"
proof -
  have "push_bit 5 (of_nat ofs :: u32) = of_nat (32 * ofs)"
    by (simp add: push_bit_eq_mult)
  moreover have "push_bit 5 (of_nat ofs :: u32) AND NOT 0x1F = push_bit 5 (of_nat ofs)"
  proof (rule bit_eqI)
    fix n
    have m: "(0x1F :: u32) = mask 5" by (simp add: mask_eq_exp_minus_1)
    show "bit (push_bit 5 (of_nat ofs :: u32) AND NOT 0x1F) n = bit (push_bit 5 (of_nat ofs :: u32)) n"
      unfolding m bit_and_iff bit_not_iff bit_mask_iff bit_push_bit_iff by auto
  qed
  ultimately show ?thesis by (simp add: text_code_def)
qed

lemma text_code_parts:
  assumes "ofs < 2 ^ 27" and "len < 32"
  shows "unat (text_code (of_nat ofs) len AND 0x1F) = len"
    and "drop_bit 5 (text_code (of_nat ofs) len) = of_nat ofs"
proof -
  let ?n = "32 * ofs + len"
  have n: "unat (of_nat ?n :: u32) = ?n"
    using assms by (intro unat_small) simp
  show "unat (text_code (of_nat ofs) len AND 0x1F) = len"
    unfolding mask5 text_code_nat [OF assms] unsigned_take_bit_eq n
    using assms(2) by (simp add: take_bit_eq_mod)
  have "unat (drop_bit 5 (of_nat ?n :: u32)) = ofs"
    unfolding unat_drop5 n using assms(2) by simp
  then show "drop_bit 5 (text_code (of_nat ofs) len) = of_nat ofs"
    unfolding text_code_nat [OF assms] by (metis of_nat_unat ucast_id)
qed

text \<open>Reading a text into a buffer.\<close>

lemma fread_over_text:
  assumes "bytes_at (u16_bytes t) (fpos f) f" and "i + length t \<le> length buf"
  shows "\<exists>buf'. fread_over 2 le_word (length t) i buf f = ret (buf', f\<lparr>fpos := fpos f + 2 * length t\<rparr>)
           \<and> length buf' = length buf \<and> (\<forall>j < length t. buf' ! (i + j) = Some (t ! j))
           \<and> (\<forall>j < i. buf' ! j = buf ! j)"
  using assms
proof (induction t arbitrary: i buf f)
  case (Cons c t)
  let ?f = "f\<lparr>fpos := fpos f + 2\<rparr>" and ?buf = "buf[i := Some c]"
  have c: "bytes_at (le_bytes 2 (unat c)) (fpos f) f" and t: "bytes_at (u16_bytes t) (fpos ?f) ?f"
    using Cons.prems(1) by (simp_all add: u16_bytes_Cons bytes_at_append)
  have "fread_into 2 le_word (buf ! i) f = (Some c, ?f)"
    using fread_into_at [OF c, of 2 le_word "buf ! i"] by simp
  moreover obtain buf' where
    "fread_over 2 le_word (length t) (i + 1) ?buf ?f = ret (buf', ?f\<lparr>fpos := fpos ?f + 2 * length t\<rparr>)"
    "length buf' = length buf" "\<forall>j < length t. buf' ! (i + 1 + j) = Some (t ! j)"
    "\<forall>j < i + 1. buf' ! j = ?buf ! j"
    using Cons.IH [OF t, of "i + 1" ?buf] Cons.prems(2) by auto
  ultimately show ?case
    using Cons.prems(2) by (auto simp: nth_Cons split: nat.splits)
qed simp

lemma c_str_text:
  "(\<forall>j < length t. buf ! j = Some (t ! j)) \<Longrightarrow> length t < length buf \<Longrightarrow> buf ! length t = Some 0 \<Longrightarrow>
     0 \<notin> set t \<Longrightarrow> c_str buf = ret t"
proof (induction t arbitrary: buf)
  case Nil
  then show ?case by (cases buf) auto
next
  case (Cons c t)
  then obtain x xs where buf: "buf = x # xs" by (cases buf) auto
  then have "x = Some c" "c \<noteq> 0"
    using Cons.prems by force+
  moreover have "c_str xs = ret t"
    using Cons.prems buf by (intro Cons.IH) force+
  ultimately show ?case by (simp add: buf)
qed

definition buffers_ok :: "CTextMng \<Rightarrow> bool" where
  "buffers_ok st \<longleftrightarrow> length (m_Text_buff st) = 4 \<and> (\<forall>b \<in> set (m_Text_buff st). length b = 32)"

lemma getTextOfs_text:
  assumes "m_Text_fp st = Reading f" and "text_at (fdata f) t code" and "buffers_ok st" and "k < 4"
  shows "\<exists>g bufs. getTextOfs code k st = ret (Buff k, length t, st\<lparr>m_Text_fp := Reading g, m_Text_buff := bufs\<rparr>)
           \<and> fdata g = fdata f \<and> text_of (st\<lparr>m_Text_fp := Reading g, m_Text_buff := bufs\<rparr>) (Buff k) = ret t
           \<and> buffers_ok (st\<lparr>m_Text_fp := Reading g, m_Text_buff := bufs\<rparr>)"
proof -
  let ?p = "unat (drop_bit 5 code)" and ?buf = "m_Text_buff st ! k"
  let ?f = "f\<lparr>fpos := ?p, feof := False\<rparr>"
  have len: "unat (code AND 0x1F) = length t" "0 \<notin> set t" "length t < 32"
    using assms(2) take_bit_nat_less_exp [of 5 "unat code"]
    by (auto simp: text_at_def mask5 unsigned_take_bit_eq)
  have "?p < 2 ^ 27"
    unfolding unat_drop5 using unsigned_less [of code, where 'a = nat] by (intro less_mult_imp_div_less) simp
  then have seek: "fseek_set (drop_bit 5 code) f = ?f"
    using fseek_set_of_nat [of ?p f] by simp
  have k: "k < length (m_Text_buff st)" "length ?buf = 32"
    using assms(3,4) by (auto simp: buffers_ok_def)
  have "take (2 * length t) (drop ?p (fdata f)) = u16_bytes t"
    using assms(2) unfolding text_at_def by blast
  then have "bytes_at (u16_bytes t) (fpos ?f) ?f"
    by (simp add: bytes_at_def)
  then obtain buf where buf: "fread_over 2 le_word (length t) 0 ?buf ?f = ret (buf, ?f\<lparr>fpos := fpos ?f + 2 * length t\<rparr>)"
    "length buf = 32" "\<forall>j < length t. buf ! j = Some (t ! j)"
    using fread_over_text [of t ?f 0 ?buf] k(2) len(3) by auto
  have "c_str (buf[length t := Some 0]) = ret t"
    using buf len by (intro c_str_text) auto
  moreover have "buffers_ok (st\<lparr>m_Text_buff := (m_Text_buff st)[k := buf[length t := Some 0]]\<rparr>)"
    using assms(3) buf(2) by (auto simp: buffers_ok_def dest!: set_update_subset_insert [THEN subsetD])
  ultimately show ?thesis
    using assms(1) k buf(1,2) len seek
    by (intro exI [of _ "?f\<lparr>fpos := fpos ?f + 2 * length t\<rparr>"]
        exI [of _ "(m_Text_buff st)[k := buf[length t := Some 0]]"])
      (simp add: getTextOfs_def text_fseek_def text_fread_def text_of_def buffers_ok_def Let_def)
qed

section \<open>Adding texts\<close>

lemma cstr_at_str: "str_at m p s \<Longrightarrow> cstr_at m p = ret s"
  unfolding cstr_at_def by (rule c_str_text) (auto simp: str_at_def)

lemma text_at_append: "text_at bs t code \<Longrightarrow> text_at (bs @ cs) t code"
proof -
  assume t: "text_at bs t code"
  let ?p = "unat (drop_bit 5 code)"
  have "length (take (2 * length t) (drop ?p bs)) = 2 * length t"
    using t unfolding text_at_def by (metis length_u16_bytes)
  then have "2 * length t \<le> length (drop ?p bs)"
    by simp
  then show "text_at (bs @ cs) t code"
    using t by (auto simp: text_at_def)
qed

text \<open>The file and the index agree: every text of the index stands in the file where its code says, and
  its number is its position in \<^verbatim>\<open>m_Text\<close>.\<close>

definition texts_ok :: "CTextMng \<Rightarrow> bool" where
  "texts_ok st \<longleftrightarrow> map_ok (m_TextIdx st) \<and>
     (case m_Text_fp st of
        Writing f \<Rightarrow> fpos f = length (fdata f) \<and>
          (\<forall>(t, i, code) \<in> set (m_TextIdx st).
             text_at (fdata f) t code \<and> unat i < length (m_Text st) \<and> m_Text st ! unat i = t)
      | _ \<Rightarrow> False)"

definition text_data :: "CTextMng \<Rightarrow> u8 list" where
  "text_data st = (case m_Text_fp st of Writing f \<Rightarrow> fdata f | Reading f \<Rightarrow> fdata f | _ \<Rightarrow> [])"

text \<open>The text that \<^verbatim>\<open>addText\<close> stores for a buffer that holds \<open>s\<close>.\<close>

definition trimmed :: "u16 list \<Rightarrow> tstring" where
  "trimmed s = dropWhile (\<lambda>c. c = 32) (trim_right s)"

lemma Trim_trimmed:
  assumes "str_at m p s" and "\<exists>c \<in> set s. \<not> blank c"
  shows "\<exists>q m'. Trim m p = ret (q, m') \<and> str_at m' q (trimmed s)"
proof -
  obtain m' where m': "Trim_Right m p = ret m'" "str_at m' p (trim_right s)"
    using Trim_Right_str [OF assms] by blast
  then show ?thesis
    using Trim_Left_str [OF m'(2)] str_at_drop [OF m'(2)] by (simp add: Trim_def trimmed_def)
qed

lemma addText_cases:
  assumes "str_at m p s" and "\<exists>c \<in> set s. \<not> blank c" and "m_Text_fp st = Writing f"
  shows "\<exists>m'. addText m p st =
    (case map_find (trimmed s) (m_TextIdx st) of
       Some (i, code) \<Rightarrow> ret (i, code, m', st)
     | None \<Rightarrow> (let i = of_nat (length (m_Text st)); code = text_code (ftell f) (length (trimmed s))
               in ret (i, code, m', st\<lparr>m_offset := ftell f, m_Text_fp := Writing (fwrite_bytes (u16_bytes (trimmed s)) f),
                    m_Text := m_Text st @ [trimmed s],
                    m_TextIdx := map_insert (trimmed s) (i, code) (m_TextIdx st)\<rparr>)))"
proof -
  obtain q m' where "Trim m p = ret (q, m')" "cstr_at m' q = ret (trimmed s)"
    using Trim_trimmed [OF assms(1,2)] cstr_at_str by blast
  then show ?thesis
    using assms(3) by (auto simp: addText_def writable_def text_fwrite_def Let_def split: option.splits)
qed

lemma fwrite_at_end: "fpos f = length (fdata f) \<Longrightarrow> fdata (fwrite_bytes bs f) = fdata f @ bs"
  by (simp add: fwrite_bytes_def)

lemma fwrite_at_end_pos: "fpos f = length (fdata f) \<Longrightarrow> fpos (fwrite_bytes bs f) = length (fdata (fwrite_bytes bs f))"
  by (simp add: fwrite_bytes_def)

lemma text_at_new:
  assumes "length bs < 2 ^ 27" and "length t < 32" and "0 \<notin> set t"
  shows "text_at (bs @ u16_bytes t) t (text_code (of_nat (length bs)) (length t))"
proof -
  have "unat (of_nat (length bs) :: u32) = length bs"
    using assms(1) by (intro unat_small) simp
  then show ?thesis
    unfolding text_at_def text_code_parts [OF assms(1,2)] using assms(3) by simp
qed

lemma addText_correct:
  assumes "texts_ok st" and "str_at m p s" and "\<exists>c \<in> set s. \<not> blank c" and "length (trimmed s) < 32"
    and "length (text_data st) < 2 ^ 27" and "length (m_Text st) < 2 ^ 32"
  shows "\<exists>i code m' st'. addText m p st = ret (i, code, m', st') \<and> texts_ok st' \<and>
           map_find (trimmed s) (m_TextIdx st') = Some (i, code) \<and>
           text_at (text_data st') (trimmed s) code"
proof -
  let ?t = "trimmed s"
  obtain f where f: "m_Text_fp st = Writing f" "fpos f = length (fdata f)" and ok: "map_ok (m_TextIdx st)"
    and entries: "\<And>t i code. (t, i, code) \<in> set (m_TextIdx st) \<Longrightarrow>
        text_at (fdata f) t code \<and> unat i < length (m_Text st) \<and> m_Text st ! unat i = t"
    using assms(1) unfolding texts_ok_def by (cases "m_Text_fp st") fastforce+
  obtain m' where add: "addText m p st =
    (case map_find ?t (m_TextIdx st) of
       Some (i, code) \<Rightarrow> ret (i, code, m', st)
     | None \<Rightarrow> (let i = of_nat (length (m_Text st)); code = text_code (ftell f) (length ?t)
               in ret (i, code, m', st\<lparr>m_offset := ftell f, m_Text_fp := Writing (fwrite_bytes (u16_bytes ?t) f),
                    m_Text := m_Text st @ [?t], m_TextIdx := map_insert ?t (i, code) (m_TextIdx st)\<rparr>)))"
    using addText_cases [OF assms(2,3) f(1)] by blast
  show ?thesis
  proof (cases "map_find ?t (m_TextIdx st)")
    case None
    have nz: "0 \<notin> set ?t"
      using Trim_trimmed [OF assms(2,3)] str_at_nonzero by blast
    have new: "text_at (fdata f @ u16_bytes ?t) ?t (text_code (ftell f) (length ?t))"
      unfolding ftell_def f(2) using assms(4,5) f(1) nz by (intro text_at_new) (simp_all add: text_data_def)
    have i: "unat (of_nat (length (m_Text st)) :: u32) = length (m_Text st)"
      using assms(6) by (rule unat_small)
    show ?thesis
      using None new ok i
      by (auto simp: add Let_def texts_ok_def text_data_def fwrite_at_end [OF f(2)] fwrite_at_end_pos [OF f(2)]
          map_find_insert nth_append dest!: map_insert_set entries intro: text_at_append)
  next
    case (Some e)
    then obtain i code where e: "map_find ?t (m_TextIdx st) = Some (i, code)" by (cases e) auto
    then have "text_at (text_data st) ?t code"
      using entries [of ?t i code] map_find_mem [OF ok] f(1) by (auto simp: text_data_def)
    then show ?thesis using e assms(1) by (simp add: add)
  qed
qed

section \<open>Names\<close>

text \<open>\<open>name_table ksz f ofs es\<close>: the file holds at \<open>ofs\<close> the number of the entries \<open>es\<close> and behind it
  their records, key and code.\<close>

definition name_table :: "nat \<Rightarrow> cfile \<Rightarrow> u32 \<Rightarrow> (nat \<times> u32) list \<Rightarrow> bool" where
  "name_table ksz f ofs es \<longleftrightarrow>
     bytes_at (le_bytes 4 (length es)) (unat ofs) f \<and>
     key_table ksz f (unat ofs + 4) (ksz + 4) (map fst es) \<and>
     (\<forall>i < length es. bytes_at (le_bytes 4 (unat (snd (es ! i)))) (unat ofs + 4 + i * (ksz + 4) + ksz) f)"

context key_index
begin

lemma name_search_entry:
  assumes nm: "m_name_fp st = Some f" "name_table ksz f ofs es" "i < length es"
    and tx: "m_Text_fp st = Reading g" "text_at (fdata g) t (snd (es ! i))" "buffers_ok st" "k < 4"
  shows "\<exists>st'. name_search search (of_nat (ksz + 4)) (Some ofs) k (of_nat (fst (es ! i))) st =
           ret (Some (Buff k, length t), st') \<and> text_of st' (Buff k) = ret t"
proof -
  let ?o = "unat ofs" and ?n = "length es"
  let ?f1 = "f\<lparr>fpos := ?o + 4, feof := False\<rparr>" and ?v = "snd (es ! i)"
  let ?f2 = "f\<lparr>fpos := ?o + 4 + i * (ksz + 4) + ksz, feof := False\<rparr>" and ?p = "?o + 4 + i * (ksz + 4) + ksz"
  let ?st = "st\<lparr>m_name_fp := Some (f\<lparr>fpos := ?p + 4, feof := False\<rparr>)\<rparr>"
  have tab: "key_table ksz f (?o + 4) (ksz + 4) (map fst es)"
    using nm(2) by (simp add: name_table_def)
  then have n: "?o + 4 + ?n * (ksz + 4) < 2 ^ 31" "?n < 2 ^ 31"
    using key_table_count [OF tab] by (simp_all add: key_table_def)
  then have seek: "fseek_set ofs f = f\<lparr>fpos := ?o, feof := False\<rparr>"
    using fseek_set_of_nat [of ?o f] by simp
  have cnt: "fread_u32 (fseek_set ofs f) = ret (of_nat ?n, ?f1)"
    unfolding seek fread_u32_def using nm(2) n(2)
    by (subst fread_new_at [where bs = "le_bytes 4 ?n"]) (simp_all add: name_table_def le_word_def)
  have "key_table ksz ?f1 (?o + 4) (ksz + 4) (map fst es)"
    using tab key_table_cong [of ?f1 f] by simp
  from search_present [OF this, of i] nm(3)
  have found: "search ?f1 (of_nat (fst (es ! i))) (ftell ?f1) (of_nat (ksz + 4)) (of_nat ?n) = ret (True, ?f2)"
    by (simp add: ftell_def)
  have "bytes_at (le_bytes 4 (unat ?v)) (fpos ?f2) ?f2"
    using nm(2,3) by (simp add: name_table_def)
  then have code: "fread_into 4 le_word old ?f2 = (Some ?v, f\<lparr>fpos := ?p + 4, feof := False\<rparr>)" for old
    using fread_into_at [of "le_bytes 4 (unat ?v)" ?f2 4 le_word old] by simp
  obtain st' where "getTextOfs ?v k ?st = ret (Buff k, length t, st')" "text_of st' (Buff k) = ret t"
    using getTextOfs_text [of ?st g t ?v k] tx by (auto simp: buffers_ok_def)
  then show ?thesis
    using nm(1) tx(1) cnt found code by (simp add: name_search_def)
qed

end

section \<open>Properties of the text store\<close>

text \<open>C19: adding a text of fewer than 32 units to a store of less than 128 MB keeps file and index
  consistent; the text is in the index with the returned number and code, and in the file where the
  code says.\<close>

theorem addText_stores:
  assumes "texts_ok st" and "str_at m p s" and "\<exists>c \<in> set s. \<not> blank c" and "length (trimmed s) < 32"
    and "length (text_data st) < 2 ^ 27" and "length (m_Text st) < 2 ^ 32"
  shows "\<exists>i code m' st'. addText m p st = ret (i, code, m', st') \<and> texts_ok st' \<and>
           map_find (trimmed s) (m_TextIdx st') = Some (i, code) \<and>
           text_at (text_data st') (trimmed s) code"
  by (rule addText_correct [OF assms])

definition new_store :: CTextMng where
  "new_store = CTextMng_new\<lparr>m_Text_fp := Writing \<lparr>fdata = [], fpos = 0, feof = False\<rparr>\<rparr>"

lemma new_store_ok: "texts_ok new_store" "text_data new_store = []" "m_Text new_store = [[]]"
  by (simp_all add: new_store_def CTextMng_new_def texts_ok_def text_data_def)

lemma new_buffers_ok: "buffers_ok CTextMng_new"
  by (simp add: buffers_ok_def CTextMng_new_def)

lemma sample_text: "str_at [32, 65, 66, 10, 0] 0 [32, 65, 66, 10]" "trimmed [32, 65, 66, 10] = [65, 66]"
  by (simp_all add: str_at_Nil str_at_Cons trimmed_def trim_right_def blank_def)

theorem addText_stores_witness:
  "\<exists>i code m' st'. addText [32, 65, 66, 10, 0] 0 new_store = ret (i, code, m', st') \<and> texts_ok st' \<and>
     map_find [65, 66] (m_TextIdx st') = Some (i, code) \<and> text_at (text_data st') [65, 66] code"
  using addText_stores [OF new_store_ok(1) sample_text(1)]
  by (simp add: sample_text(2) new_store_ok(2,3) blank_def)

text \<open>C14: a text that is not blank and has fewer than 32 units without the blanks around it, added to a
  consistent store whose file has less than 128 MB, is read back without these blanks, through its code,
  from every later state of the file.  A longer text is not: the code has five bits for the length
  (\<open>addText_long\<close>).\<close>

theorem addText_getTextOfs:
  assumes "texts_ok st" and "str_at m p s" and "\<exists>c \<in> set s. \<not> blank c" and "length (trimmed s) < 32"
    and "length (text_data st) < 2 ^ 27" and "length (m_Text st) < 2 ^ 32"
    and "buffers_ok reader" and "k < 4"
  shows "\<exists>i code m' st'. addText m p st = ret (i, code, m', st') \<and>
           (\<forall>more. \<exists>rd. getTextOfs code k (reader\<lparr>m_Text_fp := Reading (fopen_rb (text_data st' @ more))\<rparr>) =
                ret (Buff k, length (trimmed s), rd) \<and> text_of rd (Buff k) = ret (trimmed s))"
proof -
  obtain i code m' st' where add: "addText m p st = ret (i, code, m', st')"
    and at: "text_at (text_data st') (trimmed s) code"
    using addText_correct [OF assms(1-6)] by blast
  have "\<exists>rd. getTextOfs code k (reader\<lparr>m_Text_fp := Reading (fopen_rb (text_data st' @ more))\<rparr>) =
      ret (Buff k, length (trimmed s), rd) \<and> text_of rd (Buff k) = ret (trimmed s)" for more
    using getTextOfs_text [of "reader\<lparr>m_Text_fp := Reading (fopen_rb (text_data st' @ more))\<rparr>"
        "fopen_rb (text_data st' @ more)" "trimmed s" code k] text_at_append [OF at, of more] assms(7,8)
    by (auto simp: buffers_ok_def)
  with add show ?thesis by blast
qed

theorem addText_getTextOfs_witness:
  "\<exists>i code m' st'. addText [32, 65, 66, 10, 0] 0 new_store = ret (i, code, m', st') \<and>
     (\<forall>more. \<exists>rd. getTextOfs code 2 (CTextMng_new\<lparr>m_Text_fp := Reading (fopen_rb (text_data st' @ more))\<rparr>) =
        ret (Buff 2, length [65 :: u16, 66], rd) \<and> text_of rd (Buff 2) = ret [65, 66])"
  using addText_getTextOfs [OF new_store_ok(1) sample_text(1), of CTextMng_new 2]
  by (simp add: sample_text(2) new_store_ok(2,3) blank_def new_buffers_ok)

text \<open>A text of 32 units makes the offset of its code one larger and the length zero: nothing is read back.\<close>

lemma addText_long:
  assumes "str_at m p s" and "\<exists>c \<in> set s. \<not> blank c" and "length (trimmed s) = 32"
  shows "\<exists>m' st'. addText m p new_store = ret (1, 32, m', st') \<and> text_data st' = u16_bytes (trimmed s) \<and>
           (\<exists>rd. getTextOfs 32 0 (CTextMng_new\<lparr>m_Text_fp := Reading (fopen_rb (text_data st'))\<rparr>) = ret (Buff 0, 0, rd) \<and>
                text_of rd (Buff 0) = ret [])"
proof -
  have "text_code 0 32 = 32" by (simp add: text_code_def)
  then obtain m' st' where add: "addText m p new_store = ret (1, 32, m', st')" "text_data st' = u16_bytes (trimmed s)"
    using addText_cases [OF assms(1,2), of new_store "\<lparr>fdata = [], fpos = 0, feof = False\<rparr>"] assms(3)
    by (auto simp: new_store_def CTextMng_new_def map_find_def Let_def ftell_def fwrite_bytes_def text_data_def)
  have "text_at (u16_bytes (trimmed s)) [] 32" by (simp add: text_at_def u16_bytes_def)
  then show ?thesis
    using add getTextOfs_text [of "CTextMng_new\<lparr>m_Text_fp := Reading (fopen_rb (text_data st'))\<rparr>" _ "[]" 32 0] new_buffers_ok
    by (auto simp: buffers_ok_def)
qed

text \<open>The name of a district that \<^verbatim>\<open>name.dat\<close> lists is returned as \<^verbatim>\<open>text.dat\<close> holds it.\<close>

theorem getDongName_listed:
  assumes "m_name_fp st = Some f" and "m_dong_ofs st = Some ofs" and "name_table 4 f ofs es" and "i < length es"
    and "m_Text_fp st = Reading g" and "text_at (fdata g) t (snd (es ! i))" and "buffers_ok st"
  shows "\<exists>st'. getDongName (of_nat (fst (es ! i))) st = ret (Some (Buff 2, length t), st') \<and>
           text_of st' (Buff 2) = ret t"
  using idx32.name_search_entry [OF assms(1,3-7), of 2] by (simp add: getDongName_def assms(2))

definition sample_names :: CTextMng where
  "sample_names = CTextMng_new\<lparr>
     m_name_fp := Some (fopen_rb (concat (map (le_bytes 4) [2, 11000, 1, 26000, 66]))),
     m_Text_fp := Reading (fopen_rb [65, 0, 66, 0, 67, 0])\<rparr>"

lemma sample_name_table:
  "name_table 4 (fopen_rb (concat (map (le_bytes 4) [2, 11000, 1, 26000, 66]))) 0 [(11000, 1), (26000, 66)]"
  by (simp add: name_table_def key_table_def bytes_at_def less_Suc_eq le_bytes4)

lemma sample_text_at: "text_at [65, 0, 66, 0, 67, 0] [66, 67] 66"
  by (simp add: text_at_def u16_bytes_def le_bytes2)

theorem getDongName_listed_witness:
  "\<exists>st'. getDongName 26000 sample_names = ret (Some (Buff 2, length [66 :: u16, 67]), st') \<and>
     text_of st' (Buff 2) = ret [66, 67]"
  using getDongName_listed [OF _ _ sample_name_table, of sample_names 1 "fopen_rb [65, 0, 66, 0, 67, 0]" "[66, 67]"]
    sample_text_at new_buffers_ok
  by (simp add: sample_names_def CTextMng_new_def buffers_ok_def)

text \<open>\<^verbatim>\<open>Load\<close> of a directory without \<^verbatim>\<open>text.dat\<close> uses the null stream before it reports failure.\<close>

theorem Load_missing_text:
  assumes "m_Text_fp st = NoFile" and "length path + 8 < MAX_PATH" and "fs (path @ ''text.dat'') = None"
  shows "TextMng_Load fs path st = fail NullDeref"
  using assms by (simp add: TextMng_Load_def close_text_def file_name_def)

theorem Load_missing_text_witness: "TextMng_Load (\<lambda>_. None) ''/sdcard/'' CTextMng_new = fail NullDeref"
  by (rule Load_missing_text) (simp_all add: CTextMng_new_def MAX_PATH_def)

definition saved_text :: "u8 list" where
  "saved_text = [65, 0, 1, 0, 0, 0, 2, 0, 0, 0]"

definition one_text_store :: CTextMng where
  "one_text_store = new_store\<lparr>m_Text := [[], [65]], m_TextIdx := [([65], (1, 1))], m_offset := 0,
     m_Text_fp := Writing \<lparr>fdata = [65, 0], fpos = 2, feof = False\<rparr>\<rparr>"

lemma one_text_added: "\<exists>m. addText [65, 0] 0 new_store = ret (1, 1, m, one_text_store)"
proof -
  have "str_at [65, 0] 0 [65]" "trimmed [65] = [65]"
    by (simp_all add: str_at_Nil str_at_Cons trimmed_def trim_right_def blank_def)
  moreover have "text_code 0 (Suc 0) = 1" by (simp add: text_code_def)
  ultimately show ?thesis
    using addText_cases [of "[65, 0]" 0 "[65]" new_store "\<lparr>fdata = [], fpos = 0, feof = False\<rparr>"]
    by (simp add: new_store_def CTextMng_new_def one_text_store_def map_find_def blank_def Let_def ftell_def
        fwrite_bytes_def u16_bytes_def le_bytes2 flip: numeral_2_eq_2)
qed

lemma one_text_saved: "TextMng_Save one_text_store = ret (saved_text, one_text_store\<lparr>m_Text_fp := Dangling\<rparr>)"
  by (simp add: TextMng_Save_def one_text_store_def writable_def text_fwrite_def text_fclose_def ftell_def
      index_bytes_def fwrite_bytes_def saved_text_def le_bytes4)

text \<open>The number that \<^verbatim>\<open>addText\<close> returns is not the one that \<^verbatim>\<open>getText\<close> expects after the file
  was saved and loaded: the only text of a store has the number 1, under which another text is read.\<close>

theorem getText_other_number:
  "\<exists>code m st bs st1. addText [65, 0] 0 new_store = ret (1, code, m, st) \<and> TextMng_Save st = ret (bs, st1) \<and>
     (\<exists>b rd p rd'. TextMng_Load (\<lambda>_. Some bs) ''/'' CTextMng_new = ret (b, rd) \<and> getText 1 rd = ret (Some p, rd') \<and>
        text_of rd' p = ret [65, 1])"
proof -
  obtain b rd where load: "TextMng_Load (\<lambda>_. Some saved_text) ''/'' CTextMng_new = ret (b, rd)"
    and rd: "m_Text_fp rd = Reading ((fopen_rb saved_text)\<lparr>fpos := 10\<rparr>)" "m_Text_idx_ofs rd = Some 2" "buffers_ok rd"
    by (simp add: TextMng_Load_def CTextMng_new_def close_text_def file_name_def MAX_PATH_def fopen_rb_def
        fread_into_def fseek_end_def saved_text_def le_word_def buffers_ok_def)
  have "text_at saved_text [65, 1] 2"
    by (simp add: saved_text_def text_at_def u16_bytes_def le_bytes2)
  then obtain rd' where "getTextOfs 2 0 (rd\<lparr>m_Text_fp := Reading ((fopen_rb saved_text)\<lparr>fpos := 10\<rparr>)\<rparr>) =
      ret (Buff 0, length [65 :: u16, 1], rd')" "text_of rd' (Buff 0) = ret [65, 1]"
    using getTextOfs_text [of "rd\<lparr>m_Text_fp := Reading ((fopen_rb saved_text)\<lparr>fpos := 10\<rparr>)\<rparr>" _ "[65, 1]" 2 0] rd(3)
    by (auto simp: buffers_ok_def)
  then have "getText 1 rd = ret (Some (Buff 0), rd')"
    using rd
    by (simp add: getText_def text_fseek_def text_fread_def fseek_set_def fread_into_def fopen_rb_def saved_text_def
        le_word_def)
  then show ?thesis
    using one_text_added one_text_saved load \<open>text_of rd' (Buff 0) = ret [65, 1]\<close> by blast
qed

end
