(* ===== verification/Search_Data.thy ===== *)
theory Search_Data
  imports Text_Mng
begin

text \<open>
  The records of the data files (\<^verbatim>\<open>UmSearchModule.h\<close>).  The structures are packed, so the layout of
  a record in the file is the layout of the structure in memory; every \<open>dec_\<close> function reads the
  fields from the bytes of one record.  Bit fields are allocated from the low end of their unit.
  The fields of bit-field type are kept as words of the underlying type.
\<close>

definition field :: "u8 list \<Rightarrow> nat \<Rightarrow> nat \<Rightarrow> 'a::len word" where
  "field bs i n = le_word (take n (drop i bs))"

text \<open>\<open>bits w k n\<close>: \<open>n\<close> bits of \<open>w\<close> from bit \<open>k\<close> on.\<close>

definition bits :: "'a::len word \<Rightarrow> nat \<Rightarrow> nat \<Rightarrow> 'a word" where
  "bits w k n = take_bit n (drop_bit k w)"

record SEARCH_FILE_HEADER =
  addr_begin_ofs :: u32
  addr_end_ofs :: u32
  poi_begin_ofs :: u32
  poi_end_ofs :: u32

definition dec_SEARCH_FILE_HEADER :: "u8 list \<Rightarrow> SEARCH_FILE_HEADER" where
  "dec_SEARCH_FILE_HEADER bs =
     \<lparr>addr_begin_ofs = field bs 0 4, addr_end_ofs = field bs 4 4, poi_begin_ofs = field bs 8 4,
      poi_end_ofs = field bs 12 4\<rparr>"

record ADDR_DATA_HEADER =
  addr_cho_ofs :: u32
  addr_cho_idx_ofs :: u32
  addr_cho_idx_cnt :: u32
  road_cho_ofs :: u32
  road_cho_idx_ofs :: u32
  road_cho_idx_cnt :: u32
  addr_pos_ext_ofs :: u32
  addr_dong_ofs :: u32
  addr_dong_cnt :: u32

definition dec_ADDR_DATA_HEADER :: "u8 list \<Rightarrow> ADDR_DATA_HEADER" where
  "dec_ADDR_DATA_HEADER bs =
     \<lparr>addr_cho_ofs = field bs 0 4, addr_cho_idx_ofs = field bs 4 4, addr_cho_idx_cnt = field bs 8 4,
      road_cho_ofs = field bs 12 4, road_cho_idx_ofs = field bs 16 4, road_cho_idx_cnt = field bs 20 4,
      addr_pos_ext_ofs = field bs 24 4, addr_dong_ofs = field bs 28 4, addr_dong_cnt = field bs 32 4\<rparr>"

record POI_DATA_HEADER =
  poi_body_ofs :: u32
  poi_info_ofs :: u32
  poi_cho_ofs :: u32
  poi_cho_idx_ofs :: u32
  poi_cho_idx_cnt :: u32
  cate_poi_ofs :: u32
  dong_cate_poi_idx_ofs :: u32
  dong_cate_poi_idx_cnt :: u32
  tel_poi_idx_ofs :: u32
  tel_poi_idx_cnt :: u32
  mesh_poi_idx_ofs :: u32
  mesh_poi_idx_cnt :: u32

definition dec_POI_DATA_HEADER :: "u8 list \<Rightarrow> POI_DATA_HEADER" where
  "dec_POI_DATA_HEADER bs =
     \<lparr>poi_body_ofs = field bs 0 4, poi_info_ofs = field bs 4 4, poi_cho_ofs = field bs 8 4,
      poi_cho_idx_ofs = field bs 12 4, poi_cho_idx_cnt = field bs 16 4, cate_poi_ofs = field bs 20 4,
      dong_cate_poi_idx_ofs = field bs 24 4, dong_cate_poi_idx_cnt = field bs 28 4,
      tel_poi_idx_ofs = field bs 32 4, tel_poi_idx_cnt = field bs 36 4,
      mesh_poi_idx_ofs = field bs 40 4, mesh_poi_idx_cnt = field bs 44 4\<rparr>"

record SIDO_DATA =
  sido_idx :: u8
  sido_code :: u8
  mesh_x_min :: u16
  mesh_x_max :: u16
  mesh_y_min :: u16
  mesh_y_max :: u16

definition dec_SIDO_DATA :: "u8 list \<Rightarrow> SIDO_DATA" where
  "dec_SIDO_DATA bs =
     \<lparr>sido_idx = field bs 0 1, sido_code = field bs 1 1, mesh_x_min = field bs 2 2,
      mesh_x_max = field bs 4 2, mesh_y_min = field bs 6 2, mesh_y_max = field bs 8 2\<rparr>"

record SIGUNGU_DATA_F =
  sg_code :: u16
  sg_road_ofs :: u32
  sg_offset :: u32

definition dec_SIGUNGU_DATA_F :: "u8 list \<Rightarrow> SIGUNGU_DATA_F" where
  "dec_SIGUNGU_DATA_F bs = \<lparr>sg_code = field bs 0 2, sg_road_ofs = field bs 2 4, sg_offset = field bs 6 4\<rparr>"

text \<open>A pointer to a \<^verbatim>\<open>SIGUNGU_DATA_F\<close> is its index in \<^verbatim>\<open>m_sigunguDataFs\<close>, which never shrinks.  The
  cells of a name are indeterminate until a name has been copied there.\<close>

type_synonym cells = "u16 option list"

record SIGUNGU_DATA =
  sg_name :: cells
  sg_name_len :: u8
  sg_pInfo :: nat

record DONG_DATA_F =
  dong_code :: u32
  min_x :: u32
  min_y :: u32
  ldong_flag :: u16
  road_flag :: u16
  dong_bunji_cnt :: u16
  dong_offset :: u32

definition dec_DONG_DATA_F :: "u8 list \<Rightarrow> DONG_DATA_F" where
  "dec_DONG_DATA_F bs =
     (let w = field bs 12 2 :: u16
      in \<lparr>dong_code = field bs 0 4, min_x = field bs 4 4, min_y = field bs 8 4, ldong_flag = bits w 0 1,
          road_flag = bits w 1 1, dong_bunji_cnt = bits w 2 14, dong_offset = field bs 14 4\<rparr>)"

record DONG_DATA =
  dd_nSidoIdx :: nat
  dd_pSigunguF :: nat
  dd_name :: cells
  dd_name_len :: "u8 option"
  dd_info :: DONG_DATA_F

record ROAD_DATA_F =
  road_code :: u32
  road_bunji_cnt :: u16
  road_offset :: u32

definition dec_ROAD_DATA_F :: "u8 list \<Rightarrow> ROAD_DATA_F" where
  "dec_ROAD_DATA_F bs = \<lparr>road_code = field bs 0 4, road_bunji_cnt = field bs 4 2, road_offset = field bs 6 4\<rparr>"

record ROAD_DATA =
  rd_nSidoIdx :: nat
  rd_pSigunguF :: nat
  rd_name :: cells
  rd_name_len :: u8
  rd_info :: ROAD_DATA_F

text \<open>The \<^verbatim>\<open>void *\<close> of a \<^verbatim>\<open>BUNJI_DATA\<close> points to a district of one of the two vectors of the helper, or
  to the object (a district or a road) that the caller passed.\<close>

datatype place_ptr = InDong nat | InDongEx nat | Passed

record BUNJI_DATA =
  bj_pDong :: place_ptr
  bunji :: u16
  ho_cnt :: u16
  bj_offset :: u32

record HO_DATA =
  ho :: u8
  ho_quota :: u16
  x_quota :: u16
  y_quota :: u16
  ho_x :: u16
  ho_y :: u16

definition dec_HO_DATA :: "u8 list \<Rightarrow> HO_DATA" where
  "dec_HO_DATA bs =
     (let w = field bs 1 2 :: u16
      in \<lparr>ho = field bs 0 1, ho_quota = bits w 0 6, x_quota = bits w 6 5, y_quota = bits w 11 5,
          ho_x = field bs 3 2, ho_y = field bs 5 2\<rparr>)"

record NEW_HO_DATA =
  new_ho :: u16
  o_bunji :: u16
  new_offset :: u32

definition dec_NEW_HO_DATA :: "u8 list \<Rightarrow> NEW_HO_DATA" where
  "dec_NEW_HO_DATA bs = \<lparr>new_ho = field bs 0 2, o_bunji = field bs 2 2, new_offset = field bs 4 4\<rparr>"

record POI_HEADER_F =
  name_ofs :: u32
  body_ofs :: u32
  pos_cnt :: u32
  cate_flag :: u32
  use_ho_ofs :: u32

definition dec_POI_HEADER_F :: "u8 list \<Rightarrow> POI_HEADER_F" where
  "dec_POI_HEADER_F bs =
     (let w = field bs 4 4 :: u32
      in \<lparr>name_ofs = field bs 0 4, body_ofs = bits w 0 29, pos_cnt = bits w 29 1, cate_flag = bits w 30 1,
          use_ho_ofs = bits w 31 1\<rparr>)"

record POI_HEADER =
  ph_nSidoIdx :: nat
  ph_info :: POI_HEADER_F

record POI_BODY_F =
  hDCode :: u32
  pb_ho :: u16
  pb_bunji :: u16
  pb_san :: u16
  pb_parking :: u16
  pb_x :: u32
  pb_tel_cnt :: u32
  pb_branch :: u32
  pb_y :: u32

definition dec_POI_BODY_F :: "u8 list \<Rightarrow> POI_BODY_F" where
  "dec_POI_BODY_F bs =
     (let w = field bs 6 2 :: u16; v = field bs 8 4 :: u32
      in \<lparr>hDCode = field bs 0 4, pb_ho = field bs 4 2, pb_bunji = bits w 0 14, pb_san = bits w 14 1,
          pb_parking = bits w 15 1, pb_x = bits v 0 28, pb_tel_cnt = bits v 28 3, pb_branch = bits v 31 1,
          pb_y = field bs 12 4\<rparr>)"

record POI_BODY_USE_HO_F =
  uh_san :: u16
  uh_bunji :: u16
  uh_branch :: u16
  uh_ho_ofs :: u32
  uh_tel_cnt :: u32
  uh_parking :: u32

definition dec_POI_BODY_USE_HO_F :: "u8 list \<Rightarrow> POI_BODY_USE_HO_F" where
  "dec_POI_BODY_USE_HO_F bs =
     (let w = field bs 0 2 :: u16; v = field bs 2 4 :: u32
      in \<lparr>uh_san = bits w 0 1, uh_bunji = bits w 1 14, uh_branch = bits w 15 1, uh_ho_ofs = bits v 0 28,
          uh_tel_cnt = bits v 28 3, uh_parking = bits v 31 1\<rparr>)"

text \<open>\<^verbatim>\<open>tel\<close> holds zero-terminated strings of at most 15 characters.\<close>

record POI_BODY =
  branchName :: cells
  tel :: "u8 list list"
  x_ex :: u32
  y_ex :: u32
  pb_info :: POI_BODY_F

definition POI_BODY_zero :: POI_BODY where
  "POI_BODY_zero =
     \<lparr>branchName = replicate 35 (Some 0), tel = replicate 8 [], x_ex = 0, y_ex = 0,
      pb_info = dec_POI_BODY_F (replicate 16 0)\<rparr>"

section \<open>Copying a name\<close>

text \<open>\<^verbatim>\<open>u16cpy\<close> on arrays whose cells may be indeterminate.\<close>

function u16cpy_cells :: "cells \<Rightarrow> nat \<Rightarrow> cells \<Rightarrow> nat \<Rightarrow> cells comp" where
  "u16cpy_cells dm dest sm src =
     bindc (at sm src) (\<lambda>x. bindc (need x) (\<lambda>c.
       if c \<noteq> 0 then bindc (put dm dest (Some c)) (\<lambda>dm'. u16cpy_cells dm' (dest + 1) sm (src + 1))
       else put dm dest (Some 0)))"
  by pat_completeness auto
termination
  by (relation "measure (\<lambda>(dm, dest, sm, src). length sm - src)") (auto simp: at_eq_ret)

text \<open>\<^verbatim>\<open>u16cpy( name, text )\<close> for a pointer that one of the functions of the text store returned.\<close>

definition copy_text :: "cells \<Rightarrow> CTextMng \<Rightarrow> text_ptr option \<Rightarrow> cells comp" where
  "copy_text dm t p =
     bindc (deref p) (\<lambda>q. case q of
         Buff i \<Rightarrow> bindc (at (m_Text_buff t) i) (\<lambda>sm. u16cpy_cells dm 0 sm 0)
       | Stored i \<Rightarrow> bindc (at (m_Text t) i) (\<lambda>s. u16cpy_cells dm 0 (map Some s @ [Some 0]) 0))"

section \<open>The fields of a record\<close>

lemma field_here [layout_simps]: "length xs = n \<Longrightarrow> field (xs @ ys) 0 n = le_word xs"
  by (simp add: field_def)

lemma field_all [layout_simps]: "length xs = n \<Longrightarrow> field xs 0 n = le_word xs"
  by (simp add: field_def)

lemma field_skip [layout_simps]: "length xs \<le> i \<Longrightarrow> field (xs @ ys) i n = field ys (i - length xs) n"
  by (simp add: field_def)

lemma le_word_single: "le_word [x] = (x :: u8)"
  by (simp add: le_word_def)

lemma unat_bits: "unat (bits w k n) = unat w div 2 ^ k mod 2 ^ n"
  unfolding bits_def unsigned_take_bit_eq unsigned_drop_bit_eq by (simp add: take_bit_eq_mod drop_bit_eq_div)

lemma bits_of_nat:
  assumes "n < 2 ^ LENGTH('a)"
  shows "bits (of_nat n :: 'a::len word) k m = of_nat (n div 2 ^ k mod 2 ^ m)"
proof -
  have "unat (of_nat n :: 'a word) = n" using assms by (simp add: unat_of_nat)
  then have "unat (bits (of_nat n :: 'a word) k m) = n div 2 ^ k mod 2 ^ m" by (simp add: unat_bits)
  then show ?thesis by (metis of_nat_unat ucast_id)
qed

end
