(* ===== verification/Search_Helper.thy ===== *)
theory Search_Helper
  imports Search_Data
begin

text \<open>
  \<^verbatim>\<open>CUmSearchHelper\<close> (\<^verbatim>\<open>UmSearchModule.cpp\<close>): the data file of one province.  The operations take
  and return the helper and the text store, which all helpers share.  A read that meets the end of the
  file leaves the variable as it was, so a variable that outlives a loop iteration is passed along
  as an option; the first use of a variable that no complete read has set is the fault
  \<open>Indeterminate\<close>.
\<close>

record CUmSearchHelper =
  fp :: cfile
  m_file_header :: SEARCH_FILE_HEADER
  m_addr_header :: ADDR_DATA_HEADER
  m_poi_header :: POI_DATA_HEADER
  m_sidoData :: SIDO_DATA
  m_sigunguDatas :: "SIGUNGU_DATA list"
  m_sigunguDataFs :: "SIGUNGU_DATA_F list"
  m_dongDatas :: "DONG_DATA list"
  m_dongExDatas :: "DONG_DATA list"
  m_roadDatas :: "ROAD_DATA list"
  m_bunjiDatas :: "BUNJI_DATA list"
  m_hoDatas :: "HO_DATA list"
  m_newHoDatas :: "NEW_HO_DATA list"
  m_LDCodeOffset :: "(u32 \<times> u32) list"

section \<open>Loading\<close>

text \<open>The chain of the cities and counties: every record holds the offset of the next one, which is
  replaced by the record's own offset in memory.  A chain that does not end, or that leads behind the
  end of the file, keeps the loop running.\<close>

partial_function (option) LoadSigunguFDatas_loop ::
    "cfile \<Rightarrow> SIGUNGU_DATA_F option \<Rightarrow> u32 \<Rightarrow> SIGUNGU_DATA_F list \<Rightarrow> (SIGUNGU_DATA_F list \<times> cfile) comp" where
  "LoadSigunguFDatas_loop f sd_f offset acc =
     (case fread_into 10 dec_SIGUNGU_DATA_F sd_f (fseek_set offset f) of
        (None, f') \<Rightarrow> fail Indeterminate
      | (Some sd, f') \<Rightarrow>
          (if sg_offset sd \<noteq> 0
           then LoadSigunguFDatas_loop f' (Some sd) (sg_offset sd) (acc @ [sd\<lparr>sg_offset := offset\<rparr>])
           else ret (acc @ [sd\<lparr>sg_offset := offset\<rparr>], f')))"

definition LoadSigunguFDatas :: "CUmSearchHelper \<Rightarrow> CUmSearchHelper comp" where
  "LoadSigunguFDatas h =
     (if m_sigunguDataFs h \<noteq> [] then ret h
      else bindc (LoadSigunguFDatas_loop (fp h) None 10 []) (\<lambda>(sds, f).
             ret (h\<lparr>fp := f, m_sigunguDataFs := sds\<rparr>)))"

fun LoadLDongOffset_loop ::
    "nat \<Rightarrow> u32 option \<Rightarrow> u32 option \<Rightarrow> (u32 \<times> u32) list \<Rightarrow> cfile \<Rightarrow> ((u32 \<times> u32) list \<times> cfile) comp" where
  "LoadLDongOffset_loop 0 nOffset nDCode acc f = ret (acc, f)"
| "LoadLDongOffset_loop (Suc k) nOffset nDCode acc f =
     (case fread_into 4 le_word nOffset f of (o1, f1) \<Rightarrow>
      case fread_into 4 le_word nDCode f1 of (c1, f2) \<Rightarrow>
        bindc (need o1) (\<lambda>ov. bindc (need c1) (\<lambda>cv.
          LoadLDongOffset_loop k (Some ov) (Some cv) (acc @ [(ov, cv)]) f2)))"

definition LoadLDongOffset :: "CUmSearchHelper \<Rightarrow> CUmSearchHelper comp" where
  "LoadLDongOffset h =
     bindc (LoadLDongOffset_loop (unat (addr_dong_cnt (m_addr_header h))) None None (m_LDCodeOffset h)
              (fseek_set (addr_dong_ofs (m_addr_header h)) (fp h)))
       (\<lambda>(ps, f). ret (h\<lparr>fp := f, m_LDCodeOffset := ps\<rparr>))"

text \<open>The constructor, for a stream that is not null.\<close>

definition CUmSearchHelper_new :: "cfile \<Rightarrow> CUmSearchHelper comp" where
  "CUmSearchHelper_new f =
     bindc (fread_new 16 dec_SEARCH_FILE_HEADER (fseek_end (- 16) f)) (\<lambda>(fh, f1).
     bindc (fread_new 36 dec_ADDR_DATA_HEADER (fseek_set (addr_end_ofs fh - 36) f1)) (\<lambda>(ah, f2).
     bindc (fread_new 48 dec_POI_DATA_HEADER (fseek_set (poi_end_ofs fh - 48) f2)) (\<lambda>(ph, f3).
     bindc (fread_new 10 dec_SIDO_DATA (fseek_set 0 f3)) (\<lambda>(sd, f4).
     bindc (LoadSigunguFDatas
        \<lparr>fp = f4, m_file_header = fh, m_addr_header = ah, m_poi_header = ph, m_sidoData = sd,
         m_sigunguDatas = [], m_sigunguDataFs = [], m_dongDatas = [], m_dongExDatas = [], m_roadDatas = [],
         m_bunjiDatas = [], m_hoDatas = [], m_newHoDatas = [], m_LDCodeOffset = []\<rparr>)
       LoadLDongOffset))))"

definition Helper_Release :: "CUmSearchHelper \<Rightarrow> CUmSearchHelper" where
  "Helper_Release h =
     h\<lparr>m_sigunguDatas := [], m_dongDatas := [], m_dongExDatas := [], m_roadDatas := [], m_bunjiDatas := [],
       m_hoDatas := [], m_newHoDatas := [], m_LDCodeOffset := []\<rparr>"

section \<open>Cities, districts and roads\<close>

text \<open>\<^verbatim>\<open>GetSigunguData( u32 )\<close>: the first record with the offset, as an index.\<close>

fun GetSigunguData_ofs_loop :: "SIGUNGU_DATA_F list \<Rightarrow> nat \<Rightarrow> u32 \<Rightarrow> nat option" where
  "GetSigunguData_ofs_loop [] i sigungu_ofs = None"
| "GetSigunguData_ofs_loop (s # ss) i sigungu_ofs =
     (if sg_offset s = sigungu_ofs then Some i else GetSigunguData_ofs_loop ss (i + 1) sigungu_ofs)"

definition GetSigunguData_ofs :: "u32 \<Rightarrow> CUmSearchHelper \<Rightarrow> nat option" where
  "GetSigunguData_ofs sigungu_ofs h = GetSigunguData_ofs_loop (m_sigunguDataFs h) 0 sigungu_ofs"

definition sg_key :: "bool \<Rightarrow> SIGUNGU_DATA_F \<Rightarrow> u32" where
  "sg_key bRoad s = (if bRoad then sg_road_ofs s else sg_offset s)"

fun FindSigungu_loop :: "SIGUNGU_DATA_F list \<Rightarrow> nat \<Rightarrow> u32 \<Rightarrow> bool \<Rightarrow> nat comp" where
  "FindSigungu_loop [] i ofs bRoad = (if i = 0 then fail OutOfRange else ret (i - 1))"
| "FindSigungu_loop (s # ss) i ofs bRoad =
     (if sg_key bRoad s > ofs
      then (if i = 0 then fail OutOfRange else ret (i - 1))
      else FindSigungu_loop ss (i + 1) ofs bRoad)"

definition FindSigunguOfOffset :: "u32 \<Rightarrow> bool \<Rightarrow> CUmSearchHelper \<Rightarrow> nat comp" where
  "FindSigunguOfOffset ofs bRoad h = FindSigungu_loop (m_sigunguDataFs h) 0 ofs bRoad"

text \<open>The full code of a district: \<^verbatim>\<open>idx * 100000000 + sigungu * 100000\<close> is computed with signed
  integers.\<close>

definition full_code :: "CUmSearchHelper \<Rightarrow> nat \<Rightarrow> u32 \<Rightarrow> u32 comp" where
  "full_code h pSigunguF code =
     bindc (at (m_sigunguDataFs h) pSigunguF) (\<lambda>sg.
       let n = unat (sido_idx (m_sidoData h)) * 100000000 + unat (sg_code sg) * 100000
       in if n < 2 ^ 31 then ret (of_nat n + code) else fail IntOverflow)"

fun GetSigunguData_loop :: "SIGUNGU_DATA_F list \<Rightarrow> nat \<Rightarrow> u8 \<Rightarrow> cells \<Rightarrow> CTextMng \<Rightarrow> SIGUNGU_DATA list \<Rightarrow>
    (SIGUNGU_DATA list \<times> CTextMng) comp" where
  "GetSigunguData_loop [] i idx name t acc = ret (acc, t)"
| "GetSigunguData_loop (s # ss) i idx name t acc =
     bindc (getSigunguName (ucast idx * 1000 + sg_code s) t) (\<lambda>(r, t1).
     bindc (copy_text name t1 (map_option fst r)) (\<lambda>name1.
     bindc (deref r) (\<lambda>(p, nLen).
       GetSigunguData_loop ss (i + 1) idx name1 t1
         (acc @ [\<lparr>sg_name = name1, sg_name_len = of_nat nLen, sg_pInfo = i\<rparr>]))))"

definition GetSigunguData :: "CUmSearchHelper \<Rightarrow> CTextMng \<Rightarrow> (CUmSearchHelper \<times> CTextMng) comp" where
  "GetSigunguData h t =
     (if m_sigunguDatas h \<noteq> [] then ret (h, t)
      else
        bindc (LoadSigunguFDatas h) (\<lambda>h1.
        bindc (GetSigunguData_loop (m_sigunguDataFs h1) 0 (sido_idx (m_sidoData h1)) (replicate 32 None) t [])
          (\<lambda>(sds, t1). ret (h1\<lparr>m_sigunguDatas := sds\<rparr>, t1))))"

text \<open>The chain of the districts of a city.\<close>

partial_function (option) GetDongData_loop :: "CUmSearchHelper \<Rightarrow> nat \<Rightarrow> nat \<Rightarrow> cells \<Rightarrow> DONG_DATA_F option \<Rightarrow> u32 \<Rightarrow>
    cfile \<Rightarrow> CTextMng \<Rightarrow> DONG_DATA list \<Rightarrow> (DONG_DATA list \<times> cfile \<times> CTextMng) comp" where
  "GetDongData_loop h nSidoIdx pSg name dd_f next_offset f t acc =
     (case fread_into 18 dec_DONG_DATA_F dd_f f of
        (None, f1) \<Rightarrow> fail Indeterminate
      | (Some ddf, f1) \<Rightarrow>
          bindc (full_code h pSg (dong_code ddf)) (\<lambda>code.
          bindc (getDongName code t) (\<lambda>(r, t1).
          bindc (copy_text name t1 (map_option fst r)) (\<lambda>name1.
          bindc (deref r) (\<lambda>(p, nLen).
            let acc1 = acc @ [\<lparr>dd_nSidoIdx = nSidoIdx, dd_pSigunguF = pSg, dd_name = name1,
                              dd_name_len = Some (of_nat nLen), dd_info = ddf\<lparr>dong_offset := next_offset\<rparr>\<rparr>]
            in if dong_offset ddf = 0 then ret (acc1, f1, t1)
               else GetDongData_loop h nSidoIdx pSg name1 (Some ddf) (dong_offset ddf)
                      (fseek_set (dong_offset ddf) f1) t1 acc1)))))"

definition GetDongData :: "nat \<Rightarrow> u32 \<Rightarrow> CUmSearchHelper \<Rightarrow> CTextMng \<Rightarrow> (CUmSearchHelper \<times> CTextMng) comp" where
  "GetDongData nSidoIdx sigungu_ofs h t =
     (let f = fseek_set (sigungu_ofs + 10) (fp h)
      in bindc (FindSigunguOfOffset sigungu_ofs False h) (\<lambda>pSg.
         bindc (GetDongData_loop h nSidoIdx pSg (replicate 32 None) None (ftell f) f t []) (\<lambda>(dds, f1, t1).
           ret (h\<lparr>fp := f1, m_dongDatas := dds\<rparr>, t1))))"

partial_function (option) GetRoadData_loop :: "CUmSearchHelper \<Rightarrow> nat \<Rightarrow> nat \<Rightarrow> cells \<Rightarrow> ROAD_DATA_F option \<Rightarrow> u32 \<Rightarrow>
    cfile \<Rightarrow> CTextMng \<Rightarrow> ROAD_DATA list \<Rightarrow> (ROAD_DATA list \<times> cfile \<times> CTextMng) comp" where
  "GetRoadData_loop h nSidoIdx pSg name info next_offset f t acc =
     (case fread_into 10 dec_ROAD_DATA_F info f of
        (None, f1) \<Rightarrow> fail Indeterminate
      | (Some rdf, f1) \<Rightarrow>
          (let info1 = rdf\<lparr>road_offset := next_offset\<rparr> in
           bindc (full_code h pSg (road_code rdf)) (\<lambda>code.
           bindc (getRoadName code t) (\<lambda>(r, t1).
           bindc (case r of None \<Rightarrow> ret (name, acc)
                  | Some (p, nLen) \<Rightarrow>
                      bindc (copy_text name t1 (Some p)) (\<lambda>name1.
                        ret (name1, acc @ [\<lparr>rd_nSidoIdx = nSidoIdx, rd_pSigunguF = pSg, rd_name = name1,
                                            rd_name_len = of_nat nLen, rd_info = info1\<rparr>]))) (\<lambda>(name1, acc1).
             if road_offset rdf = 0 then ret (acc1, f1, t1)
             else GetRoadData_loop h nSidoIdx pSg name1 (Some info1) (road_offset rdf)
                    (fseek_set (road_offset rdf) f1) t1 acc1)))))"

definition GetRoadData :: "nat \<Rightarrow> u32 \<Rightarrow> CUmSearchHelper \<Rightarrow> CTextMng \<Rightarrow> (CUmSearchHelper \<times> CTextMng) comp" where
  "GetRoadData nSidoIdx sigungu_ofs h t =
     bindc (deref (GetSigunguData_ofs sigungu_ofs h)) (\<lambda>pSg.
     bindc (at (m_sigunguDataFs h) pSg) (\<lambda>sg.
       if sg_road_ofs sg = 0 then ret (h\<lparr>m_roadDatas := []\<rparr>, t)
       else (let f = fseek_set (sg_road_ofs sg) (fp h)
             in bindc (GetRoadData_loop h nSidoIdx pSg (replicate 32 None) None (ftell f) f t []) (\<lambda>(rds, f1, t1).
                  ret (h\<lparr>fp := f1, m_roadDatas := rds\<rparr>, t1)))))"

text \<open>\<^verbatim>\<open>FindDongDataOffset\<close> and \<^verbatim>\<open>FindRoadDataOffset\<close> search a vector for a record with a given offset; here
  the vector is the list of the offsets.  Iterators are positions; \<^verbatim>\<open>end() - 1\<close> of an empty vector is a
  fault.  Neither loop is bound to end: with \<open>nSize = 0\<close> and a larger offset at \<open>mid\<close> nothing moves but
  \<^verbatim>\<open>right\<close>.\<close>

definition at_pos :: "'a list \<Rightarrow> int \<Rightarrow> 'a comp" where
  "at_pos xs i = (if i < 0 then fail OutOfRange else at xs (nat i))"

partial_function (option) FindDongDataOffset_loop :: "u32 list \<Rightarrow> u32 \<Rightarrow> int \<Rightarrow> int \<Rightarrow> int \<Rightarrow> nat \<Rightarrow> int comp" where
  "FindDongDataOffset_loop xs offset left right mid nSize =
     (if mid \<noteq> int (length xs) - 1 then
        bindc (at_pos xs mid) (\<lambda>v.
          if v = offset then ret mid
          else if v < offset then
            FindDongDataOffset_loop xs offset (mid + 1) right (mid + 1 + int (nSize div 2)) (nSize div 2)
          else FindDongDataOffset_loop xs offset left (mid - 1) (left + int (nSize div 2)) (nSize div 2))
      else if left = right then
        bindc (at_pos xs left) (\<lambda>v. if v = offset then ret left else ret (int (length xs)))
      else ret (int (length xs)))"

definition FindDongDataOffset :: "DONG_DATA list \<Rightarrow> u32 \<Rightarrow> int comp" where
  "FindDongDataOffset dds offset =
     (if dds = [] then fail OutOfRange
      else FindDongDataOffset_loop (map (\<lambda>d. dong_offset (dd_info d)) dds) offset 0 (int (length dds) - 1)
             (int (length dds div 2)) (length dds div 2))"

partial_function (option) FindRoadDataOffset_loop :: "u32 list \<Rightarrow> u32 \<Rightarrow> int \<Rightarrow> int \<Rightarrow> int \<Rightarrow> nat \<Rightarrow> int comp" where
  "FindRoadDataOffset_loop xs offset left right mid nSize =
     (if left < right then
        bindc (at_pos xs mid) (\<lambda>v.
          if v = offset then ret mid
          else if v < offset then
            FindRoadDataOffset_loop xs offset (mid + 1) right (mid + 1 + int (nSize div 2)) (nSize div 2)
          else FindRoadDataOffset_loop xs offset left (mid - 1) (left + int (nSize div 2)) (nSize div 2))
      else if left = right then
        bindc (at_pos xs left) (\<lambda>v. if v = offset then ret left else ret (int (length xs)))
      else ret (int (length xs)))"

definition FindRoadDataOffset :: "ROAD_DATA list \<Rightarrow> u32 \<Rightarrow> int comp" where
  "FindRoadDataOffset rds offset =
     (if rds = [] then fail OutOfRange
      else FindRoadDataOffset_loop (map (\<lambda>r. road_offset (rd_info r)) rds) offset 0 (int (length rds) - 1)
             (int (length rds div 2)) (length rds div 2))"

text \<open>A district that neither vector holds is read and appended to \<^verbatim>\<open>m_dongExDatas\<close>, without a name
  length.\<close>

fun index_of_offset :: "DONG_DATA list \<Rightarrow> nat \<Rightarrow> u32 \<Rightarrow> nat option" where
  "index_of_offset [] i dong_ofs = None"
| "index_of_offset (d # ds) i dong_ofs =
     (if dong_offset (dd_info d) = dong_ofs then Some i else index_of_offset ds (i + 1) dong_ofs)"

definition GetDongDataOfOffset :: "nat \<Rightarrow> nat \<Rightarrow> u32 \<Rightarrow> CUmSearchHelper \<Rightarrow> CTextMng \<Rightarrow>
    (place_ptr \<times> CUmSearchHelper \<times> CTextMng) comp" where
  "GetDongDataOfOffset nSidoIdx pSigunguF dong_ofs h t =
     (case index_of_offset (m_dongDatas h) 0 dong_ofs of
        Some i \<Rightarrow> ret (InDong i, h, t)
      | None \<Rightarrow>
          (case index_of_offset (m_dongExDatas h) 0 dong_ofs of
             Some i \<Rightarrow> ret (InDongEx i, h, t)
           | None \<Rightarrow>
               bindc (fread_new 18 dec_DONG_DATA_F (fseek_set dong_ofs (fp h))) (\<lambda>(ddf, f1).
               bindc (full_code h pSigunguF (dong_code ddf)) (\<lambda>code.
               bindc (getDongName code t) (\<lambda>(r, t1).
               bindc (copy_text (replicate 32 None) t1 (map_option fst r)) (\<lambda>name.
                 ret (InDongEx (length (m_dongExDatas h)),
                      h\<lparr>fp := f1, m_dongExDatas := m_dongExDatas h @
                         [\<lparr>dd_nSidoIdx = nSidoIdx, dd_pSigunguF = pSigunguF, dd_name = name, dd_name_len = None,
                           dd_info = ddf\<lparr>dong_offset := dong_ofs\<rparr>\<rparr>]\<rparr>, t1)))))))"

definition dong_at :: "CUmSearchHelper \<Rightarrow> place_ptr \<Rightarrow> DONG_DATA \<Rightarrow> DONG_DATA comp" where
  "dong_at h p passed = (case p of InDong i \<Rightarrow> at (m_dongDatas h) i | InDongEx i \<Rightarrow> at (m_dongExDatas h) i
     | Passed \<Rightarrow> ret passed)"

section \<open>House numbers\<close>

text \<open>The lots of a district: the number of the lot, its number of houses, then the houses.  Lots on a
  mountain (\<^verbatim>\<open>san\<close>) have the top bit of the number set.\<close>

fun lots_loop :: "nat \<Rightarrow> place_ptr \<Rightarrow> bool \<Rightarrow> u16 option \<Rightarrow> u16 option \<Rightarrow> u32 \<Rightarrow> cfile \<Rightarrow> BUNJI_DATA list \<Rightarrow>
    (BUNJI_DATA list \<times> cfile) comp" where
  "lots_loop 0 pDong bSan bj hc offset f acc = ret (acc, f)"
| "lots_loop (Suc k) pDong bSan bj hc offset f acc =
     (case fread_into 2 le_word bj f of (bj1, f1) \<Rightarrow>
      case fread_into 2 le_word hc f1 of (hc1, f2) \<Rightarrow>
        bindc (need hc1) (\<lambda>cnt. bindc (need bj1) (\<lambda>b.
          let san_bunji = (b AND 0x8000 \<noteq> 0);
              acc1 = (if bSan = san_bunji
                      then acc @ [\<lparr>bj_pDong = pDong, bunji = (if bSan then b AND 0x7FFF else b), ho_cnt = cnt,
                                   bj_offset = offset\<rparr>] else acc);
              offset1 = offset + (7 * ucast cnt + 2 + 2)
          in lots_loop k pDong bSan (Some b) (Some cnt) offset1 (fseek_set offset1 f2) acc1)))"

text \<open>\<^verbatim>\<open>GetBunjiData\<close> calls itself only with \<^verbatim>\<open>bFromHDong\<close>, where it reads lots: \<open>GetBunji_lots\<close> is that
  case.  The other districts list the offsets of the districts they consist of.\<close>

definition GetBunji_lots :: "place_ptr \<Rightarrow> DONG_DATA \<Rightarrow> bool \<Rightarrow> CUmSearchHelper \<Rightarrow> CUmSearchHelper comp" where
  "GetBunji_lots pDong d bSan h =
     (let f = fseek_set (dong_offset (dd_info d) + 18) (fp h)
      in bindc (lots_loop (unat (dong_bunji_cnt (dd_info d))) pDong bSan None None (ftell f) f (m_bunjiDatas h))
           (\<lambda>(bs, f1). ret (h\<lparr>fp := f1, m_bunjiDatas := bs\<rparr>)))"

fun GetBunji_parts :: "nat \<Rightarrow> DONG_DATA \<Rightarrow> bool \<Rightarrow> u32 option \<Rightarrow> CUmSearchHelper \<Rightarrow> CTextMng \<Rightarrow>
    (CUmSearchHelper \<times> CTextMng) comp" where
  "GetBunji_parts 0 d bSan offset h t = ret (h, t)"
| "GetBunji_parts (Suc k) d bSan offset h t =
     (case fread_into 4 le_word offset (fp h) of (o1, f1) \<Rightarrow>
        bindc (need o1) (\<lambda>ov.
          if ov \<noteq> 0 then
            bindc (GetDongDataOfOffset (dd_nSidoIdx d) (dd_pSigunguF d) ov (h\<lparr>fp := f1\<rparr>) t) (\<lambda>(p, h1, t1).
            bindc (dong_at h1 p d) (\<lambda>part.
            bindc (GetBunji_lots p part bSan h1) (\<lambda>h2.
              GetBunji_parts k d bSan (Some ov) (h2\<lparr>fp := fseek_set (ftell f1) (fp h2)\<rparr>) t1)))
          else GetBunji_parts k d bSan (Some ov) (h\<lparr>fp := f1\<rparr>) t))"

definition GetBunjiData :: "place_ptr \<Rightarrow> DONG_DATA \<Rightarrow> bool \<Rightarrow> bool \<Rightarrow> CUmSearchHelper \<Rightarrow> CTextMng \<Rightarrow>
    (CUmSearchHelper \<times> CTextMng) comp" where
  "GetBunjiData pDong d bSan bFromHDong h t =
     (let h1 = (if bFromHDong then h else h\<lparr>m_bunjiDatas := []\<rparr>)
      in if ldong_flag (dd_info d) = 1 \<or> bFromHDong
         then bindc (GetBunji_lots pDong d bSan h1) (\<lambda>h2. ret (h2, t))
         else GetBunji_parts (unat (dong_bunji_cnt (dd_info d))) d bSan None
                (h1\<lparr>fp := fseek_set (dong_offset (dd_info d) + 18) (fp h1)\<rparr>) t)"

fun GetRoadBunji_loop :: "nat \<Rightarrow> u16 option \<Rightarrow> u16 option \<Rightarrow> u32 \<Rightarrow> cfile \<Rightarrow> BUNJI_DATA list \<Rightarrow>
    (BUNJI_DATA list \<times> cfile) comp" where
  "GetRoadBunji_loop 0 bj hc offset f acc = ret (acc, f)"
| "GetRoadBunji_loop (Suc k) bj hc offset f acc =
     (case fread_into 2 le_word bj f of (bj1, f1) \<Rightarrow>
      case fread_into 2 le_word hc f1 of (hc1, f2) \<Rightarrow>
        bindc (need hc1) (\<lambda>cnt. bindc (need bj1) (\<lambda>b.
          let offset1 = offset + (8 * ucast cnt + 2 + 2)
          in GetRoadBunji_loop k (Some b) (Some cnt) offset1 (fseek_set offset1 f2)
               (acc @ [\<lparr>bj_pDong = Passed, bunji = b, ho_cnt = cnt, bj_offset = offset\<rparr>]))))"

definition GetRoadBunjiData :: "ROAD_DATA \<Rightarrow> CUmSearchHelper \<Rightarrow> CUmSearchHelper comp" where
  "GetRoadBunjiData r h =
     (let f = fseek_set (road_offset (rd_info r) + 10) (fp h)
      in bindc (GetRoadBunji_loop (unat (road_bunji_cnt (rd_info r))) None None (ftell f) f [])
           (\<lambda>(bs, f1). ret (h\<lparr>fp := f1, m_bunjiDatas := bs\<rparr>)))"

text \<open>Reading \<open>cnt\<close> records one by one into the same variable, appending it each time.\<close>

fun read_records :: "nat \<Rightarrow> (u8 list \<Rightarrow> 'a) \<Rightarrow> nat \<Rightarrow> 'a option \<Rightarrow> cfile \<Rightarrow> 'a list \<Rightarrow> ('a list \<times> cfile) comp" where
  "read_records n dec 0 x f acc = ret (acc, f)"
| "read_records n dec (Suc k) x f acc =
     (case fread_into n dec x f of (x1, f1) \<Rightarrow>
        bindc (need x1) (\<lambda>v. read_records n dec k (Some v) f1 (acc @ [v])))"

definition GetHoData :: "u32 \<Rightarrow> CUmSearchHelper \<Rightarrow> CUmSearchHelper comp" where
  "GetHoData bunji_ofs h =
     (case fread_into 2 (le_word :: u8 list \<Rightarrow> u16) None (fseek_set bunji_ofs (fp h)) of (b, f1) \<Rightarrow>
      bindc (fread_u16 f1) (\<lambda>(cnt, f2).
      bindc (read_records 7 dec_HO_DATA (unat cnt) None f2 []) (\<lambda>(hs, f3).
        ret (h\<lparr>fp := f3, m_hoDatas := hs\<rparr>))))"

definition GetNewHoData :: "u32 \<Rightarrow> CUmSearchHelper \<Rightarrow> CUmSearchHelper comp" where
  "GetNewHoData bunji_ofs h =
     (case fread_into 2 (le_word :: u8 list \<Rightarrow> u16) None (fseek_set bunji_ofs (fp h)) of (b, f1) \<Rightarrow>
      bindc (fread_u16 f1) (\<lambda>(cnt, f2).
      bindc (read_records 8 dec_NEW_HO_DATA (unat cnt) None f2 []) (\<lambda>(hs, f3).
        ret (h\<lparr>fp := f3, m_newHoDatas := hs\<rparr>))))"

text \<open>\<^verbatim>\<open>GetHo\<close> over the loaded districts: the district in front of the first one behind the offset that
  follows a legal district; the last one when there is none.\<close>

fun GetHo_loop :: "DONG_DATA option \<Rightarrow> DONG_DATA list \<Rightarrow> nat \<Rightarrow> u32 \<Rightarrow> nat comp" where
  "GetHo_loop prev [] i ho_ofs = ret (i - 1)"
| "GetHo_loop prev (d # ds) i ho_ofs =
     (if dong_offset (dd_info d) > ho_ofs then
        (case prev of None \<Rightarrow> fail OutOfRange
         | Some e \<Rightarrow> if ldong_flag (dd_info e) \<noteq> 0 then ret (i - 1) else GetHo_loop (Some d) ds (i + 1) ho_ofs)
      else GetHo_loop (Some d) ds (i + 1) ho_ofs)"

definition GetHo :: "u32 \<Rightarrow> HO_DATA option \<Rightarrow> CUmSearchHelper \<Rightarrow>
    (place_ptr option \<times> HO_DATA option \<times> CUmSearchHelper) comp" where
  "GetHo ho_ofs pHo h =
     (case fread_into 7 dec_HO_DATA pHo (fseek_set ho_ofs (fp h)) of (v, f) \<Rightarrow>
        if m_dongDatas h \<noteq> []
        then bindc (GetHo_loop None (m_dongDatas h) 0 ho_ofs) (\<lambda>i. ret (Some (InDong i), v, h\<lparr>fp := f\<rparr>))
        else ret (None, v, h\<lparr>fp := f\<rparr>))"

text \<open>\<^verbatim>\<open>FindDongOfOffset\<close>: the table of the districts is halved until the step is 0.\<close>

function FindDongOfOffset_loop :: "(u32 \<times> u32) list \<Rightarrow> u32 \<Rightarrow> nat \<Rightarrow> nat \<Rightarrow> nat \<Rightarrow> nat \<Rightarrow> nat comp" where
  "FindDongOfOffset_loop xs ofs left right mid nSize =
     (if left < right then
        bindc (at xs mid) (\<lambda>e.
          let left1 = (if ofs > fst e then mid else left);
              right1 = (if ofs > fst e then right else mid);
              nSize1 = nSize div 2
          in if nSize1 = 0 then ret left1
             else FindDongOfOffset_loop xs ofs left1 right1 (left1 + nSize1) nSize1)
      else ret left)"
  by pat_completeness auto
termination
  by (relation "measure (\<lambda>(xs, ofs, left, right, mid, nSize). nSize)") auto

definition FindDongOfOffset_pos :: "(u32 \<times> u32) list \<Rightarrow> u32 \<Rightarrow> nat comp" where
  "FindDongOfOffset_pos xs ofs =
     (if xs = [] then fail OutOfRange
      else FindDongOfOffset_loop xs ofs 0 (length xs - 1) (0 + length xs div 2) (length xs div 2))"

text \<open>The result is the code and, when a record is asked for, the record of the district.\<close>

definition FindDongOfOffset :: "u32 \<Rightarrow> bool \<Rightarrow> CUmSearchHelper \<Rightarrow> (u32 \<times> DONG_DATA_F option \<times> CUmSearchHelper) comp" where
  "FindDongOfOffset ofs want h =
     bindc (FindDongOfOffset_pos (m_LDCodeOffset h) ofs) (\<lambda>left.
     bindc (at (m_LDCodeOffset h) left) (\<lambda>e.
       if want then
         (case fread_into 18 dec_DONG_DATA_F None (fseek_set (fst e) (fp h)) of (v, f) \<Rightarrow>
            ret (snd e, v, h\<lparr>fp := f\<rparr>))
       else ret (snd e, None, h)))"

definition GetHo_dong :: "u32 \<Rightarrow> HO_DATA option \<Rightarrow> CUmSearchHelper \<Rightarrow>
    (HO_DATA option \<times> DONG_DATA_F option \<times> CUmSearchHelper) comp" where
  "GetHo_dong ho_ofs pHo h =
     (case fread_into 7 dec_HO_DATA pHo (fseek_set ho_ofs (fp h)) of (v, f) \<Rightarrow>
      bindc (FindDongOfOffset ho_ofs True (h\<lparr>fp := f\<rparr>)) (\<lambda>(c, ddf, h1). ret (v, ddf, h1)))"

text \<open>Positions: five quota bits extend each coordinate; the largest value of the first one refers to the table of
  extended positions.\<close>

definition GetPosEx :: "u32 \<Rightarrow> u32 option \<Rightarrow> u32 option \<Rightarrow> CUmSearchHelper \<Rightarrow> (u32 option \<times> u32 option \<times> CUmSearchHelper)" where
  "GetPosEx nIndex pX pY h =
     (let f = fseek_set (addr_pos_ext_ofs (m_addr_header h) + 4 * (nIndex * 2)) (fp h)
      in case fread_into 4 le_word pX f of (x, f1) \<Rightarrow>
         case fread_into 4 le_word pY f1 of (y, f2) \<Rightarrow> (x, y, h\<lparr>fp := f2\<rparr>))"

definition GetHoPos :: "HO_DATA \<Rightarrow> u32 option \<Rightarrow> u32 option \<Rightarrow> CUmSearchHelper \<Rightarrow> (u32 option \<times> u32 option \<times> CUmSearchHelper)" where
  "GetHoPos pHo pX pY h =
     (if x_quota pHo = 0x1F \<and> ho_x pHo = 0xFFFF
      then GetPosEx (ucast (y_quota pHo) * 65536 + ucast (ho_y pHo)) pX pY h
      else (Some (ucast (x_quota pHo) * 65536 + ucast (ho_x pHo)),
            Some (ucast (y_quota pHo) * 65536 + ucast (ho_y pHo)), h))"

section \<open>The chain of the cities\<close>

lemmas [simp del] = FindDongOfOffset_loop.simps

text \<open>\<open>sigungu_chain f ofs bss\<close>: from \<open>ofs\<close> on the file holds a chain of records with the bytes \<open>bss\<close>; the last
  one has the offset 0.\<close>

fun sigungu_chain :: "cfile \<Rightarrow> u32 \<Rightarrow> u8 list list \<Rightarrow> bool" where
  "sigungu_chain f ofs [] = False"
| "sigungu_chain f ofs (bs # bss) =
     (unat ofs < 2 ^ 31 \<and> length bs = 10 \<and> bytes_at bs (unat ofs) f \<and>
      (let next = sg_offset (dec_SIGUNGU_DATA_F bs)
       in if bss = [] then next = 0 else next \<noteq> 0 \<and> sigungu_chain f next bss))"

text \<open>The records in memory carry their own offset.\<close>

fun chain_records :: "u32 \<Rightarrow> u8 list list \<Rightarrow> SIGUNGU_DATA_F list" where
  "chain_records ofs [] = []"
| "chain_records ofs (bs # bss) =
     (dec_SIGUNGU_DATA_F bs)\<lparr>sg_offset := ofs\<rparr> # chain_records (sg_offset (dec_SIGUNGU_DATA_F bs)) bss"

lemma sigungu_chain_cong: "fdata g = fdata f \<Longrightarrow> sigungu_chain g ofs bss = sigungu_chain f ofs bss"
  by (induction bss arbitrary: ofs) (auto simp: bytes_at_cong [of g f] Let_def)

lemma seek_read:
  assumes "unat ofs < 2 ^ 31" and "bytes_at bs (unat ofs) f" and "length bs = n"
  shows "fread_into n dec old (fseek_set ofs f) = (Some (dec bs), f\<lparr>fpos := unat ofs + n, feof := False\<rparr>)"
  using fseek_set_of_nat [OF assms(1), of f] fread_into_at [of bs "f\<lparr>fpos := unat ofs, feof := False\<rparr>" n dec old] assms(2,3)
  by simp

lemma LoadSigunguFDatas_loop_chain:
  assumes "sigungu_chain f ofs bss"
  shows "\<exists>g. LoadSigunguFDatas_loop f old ofs acc = ret (acc @ chain_records ofs bss, g) \<and> fdata g = fdata f"
  using assms
proof (induction bss arbitrary: f old ofs acc)
  case (Cons bs bss)
  let ?sd = "dec_SIGUNGU_DATA_F bs" and ?f = "f\<lparr>fpos := unat ofs + 10, feof := False\<rparr>"
  have read: "fread_into 10 dec_SIGUNGU_DATA_F old (fseek_set ofs f) = (Some ?sd, ?f)"
    using Cons.prems by (intro seek_read) simp_all
  show ?case
  proof (cases "bss = []")
    case True
    then show ?thesis
      using Cons.prems by (subst LoadSigunguFDatas_loop.simps) (simp add: read Let_def)
  next
    case False
    then have "sg_offset ?sd \<noteq> 0" "sigungu_chain ?f (sg_offset ?sd) bss"
      using Cons.prems sigungu_chain_cong [of ?f f] by (simp_all add: Let_def)
    then show ?thesis
      using Cons.IH [of ?f "sg_offset ?sd" "Some ?sd" "acc @ [?sd\<lparr>sg_offset := ofs\<rparr>]"]
      by (subst LoadSigunguFDatas_loop.simps) (simp add: read)
  qed
qed simp

section \<open>Searching by offset\<close>

lemma FindSigungu_loop_spec:
  assumes "sorted_wrt (<) (map (sg_key bRoad) ss)" and "i = 0 \<longrightarrow> ss \<noteq> [] \<and> sg_key bRoad (hd ss) \<le> ofs"
  shows "FindSigungu_loop ss i ofs bRoad = ret (i + length (takeWhile (\<lambda>s. sg_key bRoad s \<le> ofs) ss) - 1)"
  using assms by (induction ss arbitrary: i) (auto simp: not_le)

lemma takeWhile_sorted_pos:
  assumes "sorted_wrt (<) (map g ss)" and "ss \<noteq> []" and "g (hd ss) \<le> (x :: 'b :: linorder)"
  defines "j \<equiv> length (takeWhile (\<lambda>s. g s \<le> x) ss) - 1"
  shows "j < length ss" "g (ss ! j) \<le> x" "j + 1 < length ss \<Longrightarrow> x < g (ss ! (j + 1))"
proof -
  let ?t = "takeWhile (\<lambda>s. g s \<le> x) ss"
  have n: "length ?t \<noteq> 0" "length ?t \<le> length ss"
    using assms(2,3) length_takeWhile_le [of "\<lambda>s. g s \<le> x" ss] by (cases ss; simp)+
  then have j: "j < length ?t" "Suc j = length ?t"
    unfolding j_def by linarith+
  then show "j < length ss" using n(2) by linarith
  have "?t ! j \<in> set ?t"
    using j(1) by (rule nth_mem)
  then show "g (ss ! j) \<le> x"
    using j(1) by (metis set_takeWhileD takeWhile_nth)
  assume "j + 1 < length ss"
  then show "x < g (ss ! (j + 1))"
    using j(2) nth_length_takeWhile [of "\<lambda>s. g s \<le> x" ss] by (simp add: not_le)
qed

lemma sorted_takeWhile_iff:
  assumes "sorted_wrt (<) (map fst xs)" and "i < length xs"
  shows "fst (xs ! i) < (x :: 'b :: linorder) \<longleftrightarrow> i < length (takeWhile (\<lambda>e. fst e < x) xs)"
  using assms
proof (induction xs arbitrary: i)
  case (Cons e xs)
  show ?case
  proof (cases i)
    case (Suc k)
    then have "fst e < fst (xs ! k)" using Cons.prems by auto
    then show ?thesis
    proof (cases "fst e < x")
      case True
      then show ?thesis using Suc Cons.IH [of k] Cons.prems by simp
    next
      case False
      with \<open>fst e < fst (xs ! k)\<close> have "\<not> fst (xs ! k) < x" by simp
      with Suc False show ?thesis by simp
    qed
  qed simp
qed simp

text \<open>Halving a sorted table whose size is a power of two: with step \<open>2\<^sup>k\<close> the district lies less than
  \<open>2\<^sup>k\<^sup>+\<^sup>1\<close> entries behind \<open>left\<close>.\<close>

lemma FindDongOfOffset_loop_spec:
  assumes below: "\<And>i. i < length xs \<Longrightarrow> fst (xs ! i) < ofs \<longleftrightarrow> i \<le> j"
    and "left \<le> j" "j < left + 2 * 2 ^ k" "left + 2 * 2 ^ k \<le> Suc right" "left + 2 * 2 ^ k \<le> length xs"
  shows "FindDongOfOffset_loop xs ofs left right (left + 2 ^ k) (2 ^ k) = ret j"
  using assms(2-)
proof (induction k arbitrary: left right)
  case 0
  then show ?case
    using below [of "Suc left"] by (subst FindDongOfOffset_loop.simps) (auto simp: Let_def)
next
  case (Suc k)
  let ?m = "left + 2 ^ Suc k"
  have pos: "0 < (2::nat) ^ k" by simp
  have m: "?m < length xs" "left < right"
    using Suc.prems(3,4) pos by (simp_all, linarith+)
  show ?case
  proof (cases "?m \<le> j")
    case True
    then have "FindDongOfOffset_loop xs ofs ?m right (?m + 2 ^ k) (2 ^ k) = ret j"
      using Suc.prems by (intro Suc.IH) simp_all
    then show ?thesis
      using m below [OF m(1)] True by (subst FindDongOfOffset_loop.simps) (simp add: Let_def)
  next
    case False
    then have "FindDongOfOffset_loop xs ofs left ?m (left + 2 ^ k) (2 ^ k) = ret j"
      using Suc.prems pos by (intro Suc.IH) simp_all
    then show ?thesis
      using m below [OF m(1)] False by (subst FindDongOfOffset_loop.simps) (simp add: Let_def)
  qed
qed

section \<open>Properties of the helper\<close>

text \<open>C20: loading the cities of a province whose records form a chain ends, and yields every record of
  the chain, with its own offset in place of the offset of the next one.\<close>

theorem LoadSigunguFDatas_chain:
  assumes "m_sigunguDataFs h = []" and "sigungu_chain (fp h) 10 bss"
  shows "\<exists>g. LoadSigunguFDatas h = ret (h\<lparr>fp := g, m_sigunguDataFs := chain_records 10 bss\<rparr>) \<and> fdata g = fdata (fp h)"
  using LoadSigunguFDatas_loop_chain [OF assms(2), of None "[]"] assms(1) by (auto simp: LoadSigunguFDatas_def)

text \<open>A province with two cities, districts and headers left out.\<close>

definition two_cities :: "u8 list" where
  "two_cities = [0, 0, 0, 0, 0, 0, 0, 0, 0, 0] @ [1, 0, 0, 0, 0, 0, 20, 0, 0, 0] @ [2, 0, 0, 0, 0, 0, 0, 0, 0, 0]"

definition empty_helper :: "cfile \<Rightarrow> CUmSearchHelper" where
  "empty_helper f =
     \<lparr>fp = f, m_file_header = dec_SEARCH_FILE_HEADER [], m_addr_header = dec_ADDR_DATA_HEADER [],
      m_poi_header = dec_POI_DATA_HEADER [], m_sidoData = dec_SIDO_DATA [], m_sigunguDatas = [], m_sigunguDataFs = [],
      m_dongDatas = [], m_dongExDatas = [], m_roadDatas = [], m_bunjiDatas = [], m_hoDatas = [], m_newHoDatas = [],
      m_LDCodeOffset = []\<rparr>"

lemma empty_helper_simps [simp]:
  "fp (empty_helper f) = f" "m_sigunguDataFs (empty_helper f) = []"
  by (simp_all add: empty_helper_def)

lemma two_cities_chain:
  "sigungu_chain (fopen_rb two_cities) 10 [[1, 0, 0, 0, 0, 0, 20, 0, 0, 0], [2, 0, 0, 0, 0, 0, 0, 0, 0, 0]]"
  by (simp add: two_cities_def bytes_at_def dec_SIGUNGU_DATA_F_def field_def le_word_def)

theorem LoadSigunguFDatas_chain_witness:
  "\<exists>g. LoadSigunguFDatas (empty_helper (fopen_rb two_cities)) =
     ret ((empty_helper (fopen_rb two_cities))\<lparr>fp := g, m_sigunguDataFs :=
       chain_records 10 [[1, 0, 0, 0, 0, 0, 20, 0, 0, 0], [2, 0, 0, 0, 0, 0, 0, 0, 0, 0]]\<rparr>) \<and> fdata g = two_cities"
  using LoadSigunguFDatas_chain [OF empty_helper_simps(2), of "fopen_rb two_cities"] two_cities_chain
  by (simp only: empty_helper_simps(1) fopen_rb_simps)

text \<open>The city found for an offset is the last one that starts at or before it.\<close>

theorem FindSigunguOfOffset_last_before:
  assumes "sorted_wrt (<) (map (sg_key bRoad) (m_sigunguDataFs h))" and "m_sigunguDataFs h \<noteq> []"
    and "sg_key bRoad (hd (m_sigunguDataFs h)) \<le> ofs"
  shows "\<exists>i < length (m_sigunguDataFs h). FindSigunguOfOffset ofs bRoad h = ret i \<and>
           sg_key bRoad (m_sigunguDataFs h ! i) \<le> ofs \<and>
           (i + 1 < length (m_sigunguDataFs h) \<longrightarrow> ofs < sg_key bRoad (m_sigunguDataFs h ! (i + 1)))"
  using FindSigungu_loop_spec [OF assms(1), of 0 ofs] takeWhile_sorted_pos [OF assms] assms(2,3)
  by (auto simp: FindSigunguOfOffset_def)

theorem FindSigunguOfOffset_last_before_witness:
  "FindSigunguOfOffset 15 False ((empty_helper (fopen_rb []))\<lparr>m_sigunguDataFs :=
      [\<lparr>sg_code = 1, sg_road_ofs = 0, sg_offset = 10\<rparr>, \<lparr>sg_code = 2, sg_road_ofs = 0, sg_offset = 20\<rparr>]\<rparr>) = ret 0"
  using FindSigunguOfOffset_last_before [of False "(empty_helper (fopen_rb []))\<lparr>m_sigunguDataFs :=
      [\<lparr>sg_code = 1, sg_road_ofs = 0, sg_offset = 10\<rparr>, \<lparr>sg_code = 2, sg_road_ofs = 0, sg_offset = 20\<rparr>]\<rparr>" 15]
  by (auto simp: sg_key_def less_Suc_eq)

text \<open>C21: in a sorted table whose size is a power of two from two on, and for an offset behind the first entry, the district found for an offset is the last
  one that starts before it.\<close>

theorem FindDongOfOffset_last_before:
  assumes "length xs = 2 ^ Suc k" and "sorted_wrt (<) (map fst xs)" and "fst (hd xs) < ofs"
  shows "\<exists>j < length xs. FindDongOfOffset_pos xs ofs = ret j \<and> fst (xs ! j) < ofs \<and>
           (\<forall>i. j < i \<and> i < length xs \<longrightarrow> ofs \<le> fst (xs ! i))"
proof -
  define j where "j = length (takeWhile (\<lambda>e. fst e < ofs) xs) - 1"
  have "xs \<noteq> []" using assms(1) by auto
  then have ne: "takeWhile (\<lambda>e. fst e < ofs) xs \<noteq> []"
    using assms(3) by (cases xs) auto
  have len: "length (takeWhile (\<lambda>e. fst e < ofs) xs) \<le> length xs"
    by (rule length_takeWhile_le)
  have below: "fst (xs ! i) < ofs \<longleftrightarrow> i \<le> j" if "i < length xs" for i
    using sorted_takeWhile_iff [OF assms(2) that, of ofs] ne by (cases "takeWhile (\<lambda>e. fst e < ofs) xs") (auto simp: j_def)
  have j: "j < length xs" using ne len by (cases "takeWhile (\<lambda>e. fst e < ofs) xs") (auto simp: j_def)
  then have "FindDongOfOffset_pos xs ofs = ret j"
    using FindDongOfOffset_loop_spec [OF below, of 0 k "length xs - 1"] \<open>xs \<noteq> []\<close> assms(1)
    by (simp add: FindDongOfOffset_pos_def)
  then show ?thesis using below j by (metis le_refl linorder_not_less)
qed

theorem FindDongOfOffset_last_before_witness:
  "\<exists>j. FindDongOfOffset_pos [(10, 1), (20, 2), (30, 3), (40, 4)] 35 = ret j \<and>
     (\<forall>i. j < i \<and> i < 4 \<longrightarrow> 35 \<le> fst ([(10 :: u32, 1 :: u32), (20, 2), (30, 3), (40, 4)] ! i))"
  using FindDongOfOffset_last_before [of "[(10, 1), (20, 2), (30, 3), (40, 4)]" 1 35] by (auto simp: less_Suc_eq)

text \<open>With three districts the last one is never found: an offset behind its start gives the second
  district.\<close>

theorem FindDongOfOffset_three: "FindDongOfOffset_pos [(10, 1), (20, 2), (30, 3)] 35 = ret 1"
  by (simp add: FindDongOfOffset_pos_def FindDongOfOffset_loop.simps)

end
