(* ===== verification/Search_Query.thy ===== *)
theory Search_Query
  imports Search_Helper
begin

text \<open>
  The queries of \<^verbatim>\<open>CUmSearchHelper\<close>: districts, roads and points of interest by name, points of interest
  by telephone number and by category, and the details of a point of interest
  (\<^verbatim>\<open>UmSearchModule.cpp\<close>).
\<close>

type_synonym poi_result = "(tstring, POI_HEADER) std_map"

section \<open>Comparing a query with a name\<close>

text \<open>The query \<open>q\<close> is the array that \<^verbatim>\<open>pText\<close> points into (from its start); the name is an array of
  cells.  The first two characters are compared where the query has no lone consonant; the others by
  their initial consonant where the query has one.\<close>

definition cell :: "cells \<Rightarrow> nat \<Rightarrow> u16 comp" where
  "cell name i = bindc (at name i) need"

fun match_loop :: "nat \<Rightarrow> nat \<Rightarrow> u16 list \<Rightarrow> cells \<Rightarrow> u32 \<Rightarrow> bool comp" where
  "match_loop 0 i q name hb = ret True"
| "match_loop (Suc k) i q name hb =
     (if i > MAX_CHOSUNG_LEN - 1 then
        bindc (at q i) (\<lambda>c.
          if isChosung c then
            bindc (tranChosung c) (\<lambda>c1. bindc (cell name i) (\<lambda>n. bindc (tranChosung n) (\<lambda>n1.
              if c1 \<noteq> n1 then ret False else match_loop k (i + 1) q name hb)))
          else bindc (cell name i) (\<lambda>n. if c \<noteq> n then ret False else match_loop k (i + 1) q name hb))
      else if hb AND 1 \<noteq> 0 then
        bindc (at q i) (\<lambda>c. bindc (cell name i) (\<lambda>n.
          if c \<noteq> n then ret False else match_loop k (i + 1) q name (drop_bit 1 hb)))
      else match_loop k (i + 1) q name (drop_bit 1 hb))"

text \<open>\<^verbatim>\<open>bAddData\<close> keeps its value when the names are not compared.\<close>

definition name_matches :: "u16 list \<Rightarrow> nat \<Rightarrow> cells \<Rightarrow> u32 \<Rightarrow> bool \<Rightarrow> bool comp" where
  "name_matches q nLen name ckCmpHan bAddData =
     (if ckCmpHan \<noteq> 0 \<or> nLen > MAX_CHOSUNG_LEN then match_loop nLen 0 q name ckCmpHan else ret bAddData)"

section \<open>The index of the initial consonants\<close>

definition findChosungOffsetPOI :: "cfile \<Rightarrow> u32 \<Rightarrow> u32 \<Rightarrow> u32 \<Rightarrow> ((u32 \<times> int) option \<times> cfile) comp" where
  "findChosungOffsetPOI f cho_idx_ofs cho_idx_cnt choCode =
     bindc (searchu32KeyValue f choCode cho_idx_ofs 12 cho_idx_cnt) (\<lambda>(found, f1).
       if found then
         bindc (fread_u32 f1) (\<lambda>(offset, f2).
         bindc (fread_u32 f2) (\<lambda>(nTemp, f3). ret (Some (offset, sint nTemp), f3)))
       else ret (None, f1))"

text \<open>Here the records have two words; the third read takes the offset of the next record.\<close>

definition findChosungOffsetDong :: "cfile \<Rightarrow> u32 \<Rightarrow> u32 \<Rightarrow> u32 \<Rightarrow> ((u32 \<times> int) option \<times> cfile) comp" where
  "findChosungOffsetDong f cho_idx_ofs cho_idx_cnt choCode =
     bindc (searchu32KeyValue f choCode cho_idx_ofs 8 cho_idx_cnt) (\<lambda>(found, f1).
       if found then
         bindc (fread_u32 f1) (\<lambda>(offset, f2).
         bindc (fread_u32 f2) (\<lambda>(nTemp, f3).
         case fread_into 4 le_word (Some nTemp) f3 of (v, f4) \<Rightarrow>
           bindc (need v) (\<lambda>nTemp2. ret (Some (offset, sint ((nTemp2 - offset) div 4)), f4))))
       else ret (None, f1))"

text \<open>\<^verbatim>\<open>new u32[ cnt ]\<close> followed by a read of the whole array.\<close>

definition read_offsets :: "int \<Rightarrow> cfile \<Rightarrow> (u32 option list \<times> cfile) comp" where
  "read_offsets cnt f = (if cnt < 0 then fail BadAlloc else ret (fread_array 4 le_word (nat cnt) f))"

section \<open>Districts and roads by name\<close>

text \<open>The \<^verbatim>\<open>nLen\<close> of the loop hides the parameter: it is the length of the name.\<close>

fun SearchDongName_loop :: "u32 option list \<Rightarrow> nat \<Rightarrow> u16 list \<Rightarrow> u32 \<Rightarrow> bool \<Rightarrow> cells \<Rightarrow> DONG_DATA_F option \<Rightarrow>
    CUmSearchHelper \<Rightarrow> CTextMng \<Rightarrow> DONG_DATA list \<Rightarrow> (DONG_DATA list \<times> CUmSearchHelper \<times> CTextMng) comp" where
  "SearchDongName_loop [] nSidoIdx q ckCmpHan bAddData name info h t acc = ret (acc, h, t)"
| "SearchDongName_loop (ofs # offsets) nSidoIdx q ckCmpHan bAddData name info h t acc =
     bindc (need ofs) (\<lambda>off.
     case fread_into 18 dec_DONG_DATA_F info (fseek_set off (fp h)) of (v, f1) \<Rightarrow>
     bindc (need v) (\<lambda>ddf.
     bindc (FindSigunguOfOffset off False h) (\<lambda>pSg.
     bindc (full_code h pSg (dong_code ddf)) (\<lambda>code.
     bindc (getDongName code t) (\<lambda>(r, t1).
     bindc (copy_text name t1 (map_option fst r)) (\<lambda>name1.
     bindc (deref r) (\<lambda>(p, nLen).
     bindc (name_matches q nLen name1 ckCmpHan bAddData) (\<lambda>add.
       let info1 = ddf\<lparr>dong_offset := off\<rparr>;
           dd = \<lparr>dd_nSidoIdx = nSidoIdx, dd_pSigunguF = pSg, dd_name = name1, dd_name_len = Some (of_nat nLen),
                 dd_info = info1\<rparr>
       in SearchDongName_loop offsets nSidoIdx q ckCmpHan add name1 (Some info1) (h\<lparr>fp := f1\<rparr>) t1
            (if add then acc @ [dd] else acc)))))))))"

definition SearchDongName :: "nat \<Rightarrow> u16 list \<Rightarrow> u32 \<Rightarrow> u32 \<Rightarrow> CUmSearchHelper \<Rightarrow> CTextMng \<Rightarrow> DONG_DATA list \<Rightarrow>
    (int \<times> DONG_DATA list \<times> CUmSearchHelper \<times> CTextMng) comp" where
  "SearchDongName nSidoIdx dongName choCode ckCmpHan h t res =
     bindc (findChosungOffsetDong (fp h) (addr_cho_idx_ofs (m_addr_header h)) (addr_cho_idx_cnt (m_addr_header h)) choCode)
       (\<lambda>(found, f1). case found of
            None \<Rightarrow> ret (0, res, h\<lparr>fp := f1\<rparr>, t)
          | Some (choOfs, choCnt) \<Rightarrow>
              bindc (read_offsets choCnt (fseek_set choOfs f1)) (\<lambda>(offsets, f2).
              bindc (SearchDongName_loop offsets nSidoIdx dongName ckCmpHan True (replicate 32 None) None
                       (h\<lparr>fp := f2\<rparr>) t res) (\<lambda>(res1, h1, t1). ret (choCnt, res1, h1, t1))))"

fun SearchRoadName_loop :: "u32 option list \<Rightarrow> nat \<Rightarrow> u16 list \<Rightarrow> u32 \<Rightarrow> bool \<Rightarrow> cells \<Rightarrow> ROAD_DATA_F option \<Rightarrow>
    CUmSearchHelper \<Rightarrow> CTextMng \<Rightarrow> ROAD_DATA list \<Rightarrow> (ROAD_DATA list \<times> CUmSearchHelper \<times> CTextMng) comp" where
  "SearchRoadName_loop [] nSidoIdx q ckCmpHan bAddData name info h t acc = ret (acc, h, t)"
| "SearchRoadName_loop (ofs # offsets) nSidoIdx q ckCmpHan bAddData name info h t acc =
     bindc (need ofs) (\<lambda>off.
     case fread_into 10 dec_ROAD_DATA_F info (fseek_set off (fp h)) of (v, f1) \<Rightarrow>
     bindc (need v) (\<lambda>rdf.
     bindc (FindSigunguOfOffset off True h) (\<lambda>pSg.
     bindc (full_code h pSg (road_code rdf)) (\<lambda>code.
     bindc (getRoadName code t) (\<lambda>(r, t1).
     let info1 = rdf\<lparr>road_offset := off\<rparr> in
     case r of
       None \<Rightarrow> SearchRoadName_loop offsets nSidoIdx q ckCmpHan bAddData name (Some info1) (h\<lparr>fp := f1\<rparr>) t1 acc
     | Some (p, nLen) \<Rightarrow>
         bindc (copy_text name t1 (Some p)) (\<lambda>name1.
         bindc (name_matches q nLen name1 ckCmpHan bAddData) (\<lambda>add.
           let rd = \<lparr>rd_nSidoIdx = nSidoIdx, rd_pSigunguF = pSg, rd_name = name1, rd_name_len = of_nat nLen,
                     rd_info = info1\<rparr>
           in SearchRoadName_loop offsets nSidoIdx q ckCmpHan add name1 (Some info1) (h\<lparr>fp := f1\<rparr>) t1
                (if add then acc @ [rd] else acc))))))))"

definition SearchRoadName :: "nat \<Rightarrow> u16 list \<Rightarrow> u32 \<Rightarrow> u32 \<Rightarrow> CUmSearchHelper \<Rightarrow> CTextMng \<Rightarrow> ROAD_DATA list \<Rightarrow>
    (int \<times> ROAD_DATA list \<times> CUmSearchHelper \<times> CTextMng) comp" where
  "SearchRoadName nSidoIdx roadName choCode ckCmpHan h t res =
     bindc (findChosungOffsetDong (fp h) (road_cho_idx_ofs (m_addr_header h)) (road_cho_idx_cnt (m_addr_header h)) choCode)
       (\<lambda>(found, f1). case found of
            None \<Rightarrow> ret (0, res, h\<lparr>fp := f1\<rparr>, t)
          | Some (choOfs, choCnt) \<Rightarrow>
              bindc (read_offsets choCnt (fseek_set choOfs f1)) (\<lambda>(offsets, f2).
              bindc (SearchRoadName_loop offsets nSidoIdx roadName ckCmpHan True (replicate 32 None) None
                       (h\<lparr>fp := f2\<rparr>) t res) (\<lambda>(res1, h1, t1). ret (choCnt, res1, h1, t1))))"

section \<open>Points of interest by category\<close>

text \<open>The three levels of categories: a record holds the code, and the number and the offset of the
  records of the next level.\<close>

definition cate_level :: "cfile \<Rightarrow> u16 \<Rightarrow> u32 \<Rightarrow> u32 \<Rightarrow> ((u32 \<times> u32) option \<times> cfile) comp" where
  "cate_level f code offset count =
     bindc (searchu16KeyValue f code offset 10 count) (\<lambda>(found, f1).
       if found then
         (case fread_into 4 le_word (Some count) f1 of (c, f2) \<Rightarrow>
          case fread_into 4 le_word (Some offset) f2 of (o', f3) \<Rightarrow>
            bindc (need c) (\<lambda>cv. bindc (need o') (\<lambda>ov. ret (Some (cv, ov), f3))))
       else ret (None, f1))"

definition searchCateInfo :: "cfile \<Rightarrow> u32 \<Rightarrow> u16 \<Rightarrow> u16 \<Rightarrow> u16 \<Rightarrow> ((int \<times> u32) \<times> cfile) comp" where
  "searchCateInfo f e_offset code1 code2 code3 =
     bindc (fread_u32 (fseek_set (e_offset - 4) f)) (\<lambda>(offset, f1).
     bindc (fread_u32 (fseek_set offset f1)) (\<lambda>(count, f2).
     bindc (searchu16KeyValue f2 code1 (ftell f2) 10 count) (\<lambda>(found, f3).
       if found then
         (case fread_into 4 le_word (Some count) f3 of (c, f4) \<Rightarrow>
          case fread_into 4 le_word (Some offset) f4 of (o', f5) \<Rightarrow>
            bindc (need c) (\<lambda>count1. bindc (need o') (\<lambda>offset1.
            bindc (cate_level f5 code2 offset1 count1) (\<lambda>(r2, f6).
              case r2 of None \<Rightarrow> ret ((0, 0), f6)
              | Some (count2, offset2) \<Rightarrow>
                  bindc (cate_level f6 code3 offset2 count2) (\<lambda>(r3, f7).
                    case r3 of None \<Rightarrow> ret ((0, 0), f7)
                    | Some (count3, offset3) \<Rightarrow> ret ((sint count3, offset3), f7))))))
       else ret ((0, 0), f3))))"

fun SearchPoiCate_loop :: "u32 option list \<Rightarrow> nat \<Rightarrow> POI_HEADER_F option \<Rightarrow> cfile \<Rightarrow> CTextMng \<Rightarrow> poi_result \<Rightarrow>
    (poi_result \<times> cfile \<times> CTextMng) comp" where
  "SearchPoiCate_loop [] nSidoIdx info f t res = ret (res, f, t)"
| "SearchPoiCate_loop (ofs # offsets) nSidoIdx info f t res =
     bindc (need ofs) (\<lambda>off.
     case fread_into 8 dec_POI_HEADER_F info (fseek_set off f) of (v, f1) \<Rightarrow>
     bindc (need v) (\<lambda>ph.
       if name_ofs ph AND 0x1F \<noteq> 0 then
         bindc (getTextOfs (name_ofs ph) 0 t) (\<lambda>(p, len, t1).
         bindc (text_of t1 p) (\<lambda>s.
           SearchPoiCate_loop offsets nSidoIdx (Some ph) f1 t1
             (multimap_insert s \<lparr>ph_nSidoIdx = nSidoIdx, ph_info = ph\<rparr> res)))
       else SearchPoiCate_loop offsets nSidoIdx (Some ph) f1 t res))"

definition SearchPoiCate :: "nat \<Rightarrow> u32 \<Rightarrow> u16 \<Rightarrow> u16 \<Rightarrow> u16 \<Rightarrow> CUmSearchHelper \<Rightarrow> CTextMng \<Rightarrow> poi_result \<Rightarrow>
    (poi_result \<times> CUmSearchHelper \<times> CTextMng) comp" where
  "SearchPoiCate nSidoIdx end_ofs c1 c2 c3 h t res =
     bindc (searchCateInfo (fp h) end_ofs c1 c2 c3) (\<lambda>((nCnt, ofs), f1).
       if nCnt > 0 then
         bindc (read_offsets nCnt (fseek_set ofs f1)) (\<lambda>(offsets, f2).
         bindc (SearchPoiCate_loop offsets nSidoIdx None f2 t res) (\<lambda>(res1, f3, t1).
           ret (res1, h\<lparr>fp := f3\<rparr>, t1)))
       else ret (res, h\<lparr>fp := f1\<rparr>, t))"

definition SearchPoiCateSido :: "nat \<Rightarrow> u16 \<Rightarrow> u16 \<Rightarrow> u16 \<Rightarrow> CUmSearchHelper \<Rightarrow> CTextMng \<Rightarrow> poi_result \<Rightarrow>
    (poi_result \<times> CUmSearchHelper \<times> CTextMng) comp" where
  "SearchPoiCateSido nSidoIdx code1 code2 code3 h t res =
     SearchPoiCate nSidoIdx (cate_poi_ofs (m_poi_header h)) code1 code2 code3 h t res"

text \<open>Category search through an index of \<^verbatim>\<open>( code, begin, end )\<close> records at the position of the stream.\<close>

definition cate_through_index :: "nat \<Rightarrow> u32 \<Rightarrow> u32 \<Rightarrow> u32 \<Rightarrow> u16 \<Rightarrow> u16 \<Rightarrow> u16 \<Rightarrow> CUmSearchHelper \<Rightarrow> CTextMng \<Rightarrow> poi_result \<Rightarrow>
    (poi_result \<times> CUmSearchHelper \<times> CTextMng) comp" where
  "cate_through_index nSidoIdx code idx_ofs idx_cnt code1 code2 code3 h t res =
     (let f = fseek_set idx_ofs (fp h)
      in bindc (searchu32KeyValue f code (ftell f) 12 idx_cnt) (\<lambda>(found, f1).
           if found then
             (case fread_into 4 (le_word :: u8 list \<Rightarrow> u32) None f1 of (b, f2) \<Rightarrow>
              bindc (fread_u32 f2) (\<lambda>(end_ofs, f3).
                SearchPoiCate nSidoIdx end_ofs code1 code2 code3 (h\<lparr>fp := f3\<rparr>) t res))
           else ret (res, h\<lparr>fp := f1\<rparr>, t)))"

definition SearchPoiCateHDong :: "nat \<Rightarrow> u32 \<Rightarrow> u16 \<Rightarrow> u16 \<Rightarrow> u16 \<Rightarrow> CUmSearchHelper \<Rightarrow> CTextMng \<Rightarrow> poi_result \<Rightarrow>
    (poi_result \<times> CUmSearchHelper \<times> CTextMng) comp" where
  "SearchPoiCateHDong nSidoIdx nHCode code1 code2 code3 h t res =
     cate_through_index nSidoIdx nHCode (dong_cate_poi_idx_ofs (m_poi_header h)) (dong_cate_poi_idx_cnt (m_poi_header h))
       code1 code2 code3 h t res"

text \<open>The search by mesh seeks to the number of the records instead of their offset.\<close>

definition SearchPoiCateMesh :: "nat \<Rightarrow> u32 \<Rightarrow> u16 \<Rightarrow> u16 \<Rightarrow> u16 \<Rightarrow> CUmSearchHelper \<Rightarrow> CTextMng \<Rightarrow> poi_result \<Rightarrow>
    (poi_result \<times> CUmSearchHelper \<times> CTextMng) comp" where
  "SearchPoiCateMesh nSidoIdx nMeshCode code1 code2 code3 h t res =
     (let mesh_x = (ucast (nMeshCode AND 0xFFFF) :: u16);
          mesh_y = (ucast (drop_bit 16 nMeshCode AND 0xFFFF) :: u16);
          sd = m_sidoData h
      in if mesh_x < mesh_x_min sd \<or> mesh_x_max sd < mesh_x then ret (res, h, t)
         else if mesh_y < mesh_y_min sd \<or> mesh_y_max sd < mesh_y then ret (res, h, t)
         else cate_through_index nSidoIdx nMeshCode (mesh_poi_idx_cnt (m_poi_header h)) (mesh_poi_idx_cnt (m_poi_header h))
                code1 code2 code3 h t res)"

section \<open>Points of interest by telephone number\<close>

text \<open>The last step of both variants: the exchange, then the number, then the record.  The variables
  \<^verbatim>\<open>count\<close>, \<^verbatim>\<open>offset\<close> and \<^verbatim>\<open>ph.info\<close> are passed along; the first component is \<open>None\<close> when the number is
  not listed.\<close>

definition tel_lookup :: "cfile \<Rightarrow> u32 \<Rightarrow> u16 \<Rightarrow> u16 \<Rightarrow> u32 option \<Rightarrow> u32 option \<Rightarrow> POI_HEADER_F option \<Rightarrow>
    (POI_HEADER_F option \<times> u32 \<times> u32 \<times> cfile) comp" where
  "tel_lookup f end_ofs telKUK telNUM cnt ofs info =
     (case fread_into 4 le_word cnt (fseek_set (end_ofs - 4 * 2) f) of (c0, f1) \<Rightarrow>
      case fread_into 4 le_word ofs f1 of (o0, f2) \<Rightarrow>
      bindc (need c0) (\<lambda>count. bindc (need o0) (\<lambda>offset.
      bindc (searchu16KeyValue f2 telKUK offset 10 count) (\<lambda>(found, f3).
       if \<not> found then ret (None, count, offset, f3) else
       case fread_into 4 le_word (Some count) f3 of (c, f4) \<Rightarrow>
       case fread_into 4 le_word (Some offset) f4 of (o', f5) \<Rightarrow>
       bindc (need c) (\<lambda>count1. bindc (need o') (\<lambda>offset1.
       bindc (searchu16KeyValue f5 telNUM offset1 6 count1) (\<lambda>(found1, f6).
         if \<not> found1 then ret (None, count1, offset1, f6) else
         case fread_into 4 le_word (Some offset1) f6 of (o'', f7) \<Rightarrow>
         bindc (need o'') (\<lambda>offset2.
         case fread_into 8 dec_POI_HEADER_F info (fseek_set offset2 f7) of (v, f8) \<Rightarrow>
         bindc (need v) (\<lambda>ph. ret (Some ph, count1, offset2, f8))))))))))"

definition insert_poi :: "nat \<Rightarrow> POI_HEADER_F \<Rightarrow> CTextMng \<Rightarrow> poi_result \<Rightarrow> (poi_result \<times> CTextMng) comp" where
  "insert_poi nSidoIdx ph t res =
     bindc (getTextOfs (name_ofs ph) 0 t) (\<lambda>(p, len, t1).
     bindc (text_of t1 p) (\<lambda>s. ret (multimap_insert s \<lparr>ph_nSidoIdx = nSidoIdx, ph_info = ph\<rparr> res, t1)))"

definition SearchTelNumber_ddd :: "nat \<Rightarrow> u8 \<Rightarrow> u16 \<Rightarrow> u16 \<Rightarrow> CUmSearchHelper \<Rightarrow> CTextMng \<Rightarrow> poi_result \<Rightarrow>
    (int \<times> poi_result \<times> CUmSearchHelper \<times> CTextMng) comp" where
  "SearchTelNumber_ddd nSidoIdx telDDD telKUK telNUM h t res =
     bindc (searchu8KeyValue (fp h) telDDD (tel_poi_idx_ofs (m_poi_header h)) 9 (tel_poi_idx_cnt (m_poi_header h)))
       (\<lambda>(found, f1).
          if \<not> found then ret (0, res, h\<lparr>fp := f1\<rparr>, t) else
          case fread_into 4 (le_word :: u8 list \<Rightarrow> u32) None f1 of (b, f2) \<Rightarrow>
          bindc (fread_u32 f2) (\<lambda>(end_ofs, f3).
          bindc (tel_lookup f3 end_ofs telKUK telNUM None None None) (\<lambda>(r, _, _, f4). case r of
              None \<Rightarrow> ret (0, res, h\<lparr>fp := f4\<rparr>, t)
            | Some ph \<Rightarrow> bindc (insert_poi nSidoIdx ph t res) (\<lambda>(res1, t1). ret (1, res1, h\<lparr>fp := f4\<rparr>, t1)))))"

text \<open>Without an area code every area of the file is tried.  The areas are read into arrays of 32
  elements.\<close>

fun tel_areas :: "nat \<Rightarrow> nat \<Rightarrow> u32 option list \<Rightarrow> cfile \<Rightarrow> (u32 option list \<times> cfile) comp" where
  "tel_areas 0 i end_ofs f = ret (end_ofs, f)"
| "tel_areas (Suc k) i end_ofs f =
     (if i < 32 then
        (case fread_into 1 (le_word :: u8 list \<Rightarrow> u8) None f of (d, f1) \<Rightarrow>
         case fread_into 4 (le_word :: u8 list \<Rightarrow> u32) None f1 of (b, f2) \<Rightarrow>
         case fread_into 4 le_word None f2 of (e, f3) \<Rightarrow> tel_areas k (i + 1) (end_ofs @ [e]) f3)
      else fail OutOfRange)"

fun SearchTelNumber_loop :: "u32 option list \<Rightarrow> nat \<Rightarrow> u16 \<Rightarrow> u16 \<Rightarrow> u32 option \<Rightarrow> u32 option \<Rightarrow> POI_HEADER_F option \<Rightarrow>
    cfile \<Rightarrow> CTextMng \<Rightarrow> poi_result \<Rightarrow> (poi_result \<times> cfile \<times> CTextMng) comp" where
  "SearchTelNumber_loop [] nSidoIdx telKUK telNUM cnt ofs info f t res = ret (res, f, t)"
| "SearchTelNumber_loop (e # es) nSidoIdx telKUK telNUM cnt ofs info f t res =
     bindc (need e) (\<lambda>end_ofs.
     bindc (tel_lookup f end_ofs telKUK telNUM cnt ofs info) (\<lambda>(r, c1, o1, f1). case r of
         None \<Rightarrow> SearchTelNumber_loop es nSidoIdx telKUK telNUM (Some c1) (Some o1) info f1 t res
       | Some ph \<Rightarrow>
           bindc (insert_poi nSidoIdx ph t res) (\<lambda>(res1, t1).
             SearchTelNumber_loop es nSidoIdx telKUK telNUM (Some c1) (Some o1) (Some ph) f1 t1 res1)))"

definition SearchTelNumber :: "nat \<Rightarrow> u16 \<Rightarrow> u16 \<Rightarrow> CUmSearchHelper \<Rightarrow> CTextMng \<Rightarrow> poi_result \<Rightarrow>
    (int \<times> poi_result \<times> CUmSearchHelper \<times> CTextMng) comp" where
  "SearchTelNumber nSidoIdx telKUK telNUM h t res =
     bindc (tel_areas (nat (sint (tel_poi_idx_cnt (m_poi_header h)))) 0 []
              (fseek_set (tel_poi_idx_ofs (m_poi_header h)) (fp h))) (\<lambda>(es, f1).
     bindc (SearchTelNumber_loop es nSidoIdx telKUK telNUM None None None f1 t res) (\<lambda>(res1, f2, t1).
       ret (1, res1, h\<lparr>fp := f2\<rparr>, t1)))"

section \<open>Points of interest by name\<close>

fun SearchPoiName_loop :: "nat \<Rightarrow> nat \<Rightarrow> u16 list \<Rightarrow> nat \<Rightarrow> u32 \<Rightarrow> bool \<Rightarrow> cells \<Rightarrow> POI_HEADER_F option \<Rightarrow> cfile \<Rightarrow> CTextMng \<Rightarrow>
    poi_result \<Rightarrow> (poi_result \<times> cfile \<times> CTextMng) comp" where
  "SearchPoiName_loop 0 nSidoIdx q nLen ckCmpHan bAddData name info f t res = ret (res, f, t)"
| "SearchPoiName_loop (Suc k) nSidoIdx q nLen ckCmpHan bAddData name info f t res =
     (case fread_into 8 dec_POI_HEADER_F info f of (v, f1) \<Rightarrow>
      bindc (need v) (\<lambda>ph.
      bindc (getTextOfs (name_ofs ph) 0 t) (\<lambda>(p, len, t1).
      bindc (copy_text name t1 (Some p)) (\<lambda>name1.
      bindc (name_matches q nLen name1 ckCmpHan bAddData) (\<lambda>add.
      bindc (if add then bindc (c_str name1) (\<lambda>s. ret (multimap_insert s \<lparr>ph_nSidoIdx = nSidoIdx, ph_info = ph\<rparr> res))
             else ret res) (\<lambda>res1.
        SearchPoiName_loop k nSidoIdx q nLen ckCmpHan add name1 (Some ph) f1 t1 res1))))))"

definition SearchPoiName :: "nat \<Rightarrow> u16 list \<Rightarrow> nat \<Rightarrow> u32 \<Rightarrow> u32 \<Rightarrow> CUmSearchHelper \<Rightarrow> CTextMng \<Rightarrow> poi_result \<Rightarrow>
    (int \<times> poi_result \<times> CUmSearchHelper \<times> CTextMng) comp" where
  "SearchPoiName nSidoIdx pText nLen choCode ckCmpHan h t res =
     bindc (findChosungOffsetPOI (fp h) (poi_cho_idx_ofs (m_poi_header h)) (poi_cho_idx_cnt (m_poi_header h)) choCode)
       (\<lambda>(found, f1). case found of
            None \<Rightarrow> ret (0, res, h\<lparr>fp := f1\<rparr>, t)
          | Some (choOfs, choCnt) \<Rightarrow>
              bindc (SearchPoiName_loop (nat choCnt) nSidoIdx pText nLen ckCmpHan True (replicate 36 None) None
                       (fseek_set choOfs f1) t res) (\<lambda>(res1, f2, t1).
                ret (choCnt, res1, h\<lparr>fp := f2\<rparr>, t1)))"

section \<open>Details of a point of interest\<close>

text \<open>\<^verbatim>\<open>sprintf( tel, "0%s) %s-%s", ... )\<close> into an array of 16 characters.\<close>

definition tel_format :: "u8 \<Rightarrow> u32 \<Rightarrow> u8 list" where
  "tel_format nu8 nu32 =
     48 # tranTelNumber2_str (ucast nu8) True @ [41, 32]
       @ tranTelNumber2_str (ucast (drop_bit 16 nu32) AND 0xFFFF) True @ [45]
       @ tranTelNumber2_str (ucast (nu32 AND 0xFFFF)) False"

fun tel_loop :: "nat \<Rightarrow> nat \<Rightarrow> u8 option \<Rightarrow> u32 option \<Rightarrow> cfile \<Rightarrow> u8 list list \<Rightarrow> (u8 list list \<times> cfile) comp" where
  "tel_loop 0 i nu8 nu32 f tels = ret (tels, f)"
| "tel_loop (Suc k) i nu8 nu32 f tels =
     (case fread_into 1 le_word nu8 f of (a, f1) \<Rightarrow>
      case fread_into 4 le_word nu32 f1 of (b, f2) \<Rightarrow>
      bindc (need a) (\<lambda>a1. bindc (need b) (\<lambda>b1.
        let s = tel_format a1 b1
        in if length s < 16 then bindc (put tels i s) (\<lambda>tels1. tel_loop k (i + 1) (Some a1) (Some b1) f2 tels1)
           else fail OutOfRange)))"

text \<open>The fixed part of the details: read from the file, or built from the short form that refers to a
  house.  The second component is \<^verbatim>\<open>ho_ofs\<close>.\<close>

definition poi_info :: "POI_HEADER_F \<Rightarrow> CUmSearchHelper \<Rightarrow> (POI_BODY_F \<times> u32 option \<times> CUmSearchHelper) comp" where
  "poi_info ph h =
     (let f = fseek_set (body_ofs ph) (fp h)
      in if use_ho_ofs ph \<noteq> 0 then
           bindc (fread_new 6 dec_POI_BODY_USE_HO_F f) (\<lambda>(body, f1).
           bindc (FindDongOfOffset (uh_ho_ofs body) False (h\<lparr>fp := f1\<rparr>)) (\<lambda>(code, _, h1).
             ret ((pb_info POI_BODY_zero)\<lparr>pb_branch := ucast (uh_branch body), pb_bunji := uh_bunji body, hDCode := code,
                    pb_parking := ucast (uh_parking body), pb_san := uh_san body, pb_tel_cnt := uh_tel_cnt body\<rparr>,
                  Some (uh_ho_ofs body), h1)))
         else
           (case fread_into 16 dec_POI_BODY_F (Some (pb_info POI_BODY_zero)) f of (v, f1) \<Rightarrow>
            bindc (need v) (\<lambda>info. ret (info, None, h\<lparr>fp := f1\<rparr>))))"

text \<open>The position of a point of interest that refers to a house.\<close>

definition poi_house :: "u32 \<Rightarrow> POI_BODY_F \<Rightarrow> CUmSearchHelper \<Rightarrow> (POI_BODY_F \<times> CUmSearchHelper) comp" where
  "poi_house ho_ofs info h =
     bindc (GetHo_dong ho_ofs None h) (\<lambda>(v, ddf, h1).
     bindc (need v) (\<lambda>hd.
     case GetHoPos hd None (Some (pb_y info)) h1 of (x, y, h2) \<Rightarrow>
     bindc (need x) (\<lambda>xv. bindc (need y) (\<lambda>yv. bindc (need ddf) (\<lambda>dong.
       ret (info\<lparr>pb_ho := ho_quota hd * 256 + ucast (ho hd), pb_x := bits (xv + min_x dong) 0 28, pb_y := yv + min_y dong\<rparr>,
            h2))))))"

definition Helper_GetSearchPoiResult :: "POI_HEADER_F \<Rightarrow> CUmSearchHelper \<Rightarrow> CTextMng \<Rightarrow>
    (POI_BODY \<times> CUmSearchHelper \<times> CTextMng) comp" where
  "Helper_GetSearchPoiResult ph h t =
     bindc (poi_info ph h) (\<lambda>(info, ho_ofs, h1).
     bindc (if pb_branch info \<noteq> 0 then
              bindc (fread_u32 (fp h1)) (\<lambda>(nu32, f1).
              bindc (getTextOfs nu32 0 t) (\<lambda>(p, len, t1).
              bindc (copy_text (branchName POI_BODY_zero) t1 (Some p)) (\<lambda>name. ret (name, Some nu32, f1, t1))))
            else ret (branchName POI_BODY_zero, None, fp h1, t)) (\<lambda>(name, nu32, f2, t2).
     bindc (tel_loop (unat (pb_tel_cnt info)) 0 None nu32 f2 (tel POI_BODY_zero)) (\<lambda>(tels, f3).
     let pos = (if pos_cnt ph \<noteq> 0 then
                  (case fread_into 4 le_word (Some 0) f3 of (x, f4) \<Rightarrow>
                   case fread_into 4 le_word (Some 0) f4 of (y, f5) \<Rightarrow> (x, y, f5))
                else (Some 0, Some 0, f3))
     in case pos of (x, y, f6) \<Rightarrow>
     bindc (need x) (\<lambda>xe. bindc (need y) (\<lambda>ye.
     bindc (case ho_ofs of None \<Rightarrow> ret (info, h1\<lparr>fp := f6\<rparr>) | Some o' \<Rightarrow> poi_house o' info (h1\<lparr>fp := f6\<rparr>)) (\<lambda>(info1, h2).
       ret (\<lparr>branchName = name, tel = tels, x_ex = xe, y_ex = ye, pb_info = info1\<rparr>, h2, t2)))))))"

section \<open>What the comparison decides\<close>

text \<open>The initial consonant of a character, or the character.\<close>

definition consonant :: "u16 \<Rightarrow> u16" where
  "consonant c = (if isHangul c then chHangulCho ! hangul_index c else c)"

lemma tranChosung_total: "tranChosung c = ret (consonant c)"
proof -
  have "unat c < 65536"
    using unsigned_less [of c, where 'a = nat] by simp
  then have "hangul_index c < 55"
    by (simp add: hangul_index_def chHangulBegin_def HAN_JUNG_MUL_JONG_def less_mult_imp_div_less)
  then show ?thesis
    by (simp add: tranChosung_def consonant_def length_chHangulCho)
qed

text \<open>\<open>bit ck j\<close>: the character \<open>j\<close> of the query has to be equal.\<close>

definition char_ok :: "u16 list \<Rightarrow> u16 list \<Rightarrow> u32 \<Rightarrow> nat \<Rightarrow> bool" where
  "char_ok q n ck j \<longleftrightarrow>
     (if j < 2 then bit ck j \<longrightarrow> q ! j = n ! j
      else if isChosung (q ! j) then consonant (q ! j) = consonant (n ! j) else q ! j = n ! j)"

lemma and_one_bit: "(w :: u32) AND 1 \<noteq> 0 \<longleftrightarrow> bit w 0"
  by (simp add: bit_0 and_one_eq odd_iff_mod_2_eq_one)

lemma match_step:
  assumes "i < length q" and "cell name i = ret (n ! i)"
  shows "match_loop (Suc k) i q name (drop_bit (min i 2) ck) =
           (if char_ok q n ck i then match_loop k (i + 1) q name (drop_bit (min (i + 1) 2) ck) else ret False)"
proof (cases "i < 2")
  case True
  then have "drop_bit 1 (drop_bit (min i 2) ck) = drop_bit (min (i + 1) 2) ck"
    "drop_bit (min i 2) ck AND 1 \<noteq> 0 \<longleftrightarrow> bit ck i"
    by (simp_all add: and_one_bit bit_drop_bit_eq min_def)
  then show ?thesis
    using True assms by (simp add: MAX_CHOSUNG_LEN_def char_ok_def)
next
  case False
  then have "drop_bit (min i 2) ck = drop_bit (min (i + 1) 2) ck"
    by (simp add: min_def)
  then show ?thesis
    using False assms by (simp add: MAX_CHOSUNG_LEN_def char_ok_def tranChosung_total)
qed

lemma match_loop_spec:
  assumes "i + k \<le> length q" and "\<And>j. j < i + k \<Longrightarrow> cell name j = ret (n ! j)"
  shows "match_loop k i q name (drop_bit (min i 2) ck) = ret (\<forall>j. i \<le> j \<and> j < i + k \<longrightarrow> char_ok q n ck j)"
  using assms
proof (induction k arbitrary: i)
  case 0
  show ?case by auto
next
  case (Suc k)
  have "(\<forall>j. i \<le> j \<and> j < i + Suc k \<longrightarrow> char_ok q n ck j) \<longleftrightarrow>
      char_ok q n ck i \<and> (\<forall>j. i + 1 \<le> j \<and> j < i + 1 + k \<longrightarrow> char_ok q n ck j)"
    by (auto simp: Suc_le_eq) (metis le_neq_implies_less)
  moreover have "match_loop k (i + 1) q name (drop_bit (min (i + 1) 2) ck) =
      ret (\<forall>j. i + 1 \<le> j \<and> j < i + 1 + k \<longrightarrow> char_ok q n ck j)"
    using Suc.prems by (intro Suc.IH) simp_all
  ultimately show ?case
    using match_step [of i q name n k ck] Suc.prems by (simp del: match_loop.simps)
qed

text \<open>The comparison stops at the first character that differs; what lies behind is not read.\<close>

lemma match_loop_mismatch:
  assumes "i \<le> j" "j < i + k" "j < length q" and "\<And>l. l \<le> j \<Longrightarrow> cell name l = ret (n ! l)" and "\<not> char_ok q n ck j"
  shows "match_loop k i q name (drop_bit (min i 2) ck) = ret False"
  using assms
proof (induction k arbitrary: i)
  case (Suc k)
  show ?case
  proof (cases "i = j")
    case True
    then show ?thesis
      using match_step [of i q name n k ck] Suc.prems by (simp del: match_loop.simps)
  next
    case False
    then have "match_loop k (i + 1) q name (drop_bit (min (i + 1) 2) ck) = ret False"
      using Suc.prems by (intro Suc.IH) simp_all
    then show ?thesis
      using match_step [of i q name n k ck] Suc.prems False by (simp del: match_loop.simps)
  qed
qed simp

text \<open>The bits of \<^verbatim>\<open>checkCompletHangul\<close>.\<close>

lemma shl1: "bit (push_bit 1 (x :: u32)) l \<longleftrightarrow> 1 \<le> l \<and> l < 32 \<and> bit x (l - 1)"
  by (simp only: bit_push_bit_iff) auto

lemma checkCompletHangul_loop_bits:
  assumes "k \<le> length m" and "even r"
  shows "\<exists>w. checkCompletHangul_loop m 0 k r = ret w \<and>
           (\<forall>j < 32. bit w j \<longleftrightarrow> j \<noteq> 0 \<and> (if j \<le> k then \<not> isChosung (m ! (j - 1)) else bit r (j - k)))"
  using assms
proof (induction k arbitrary: r)
  case 0
  then show ?case by (auto simp: bit_0 intro!: gr0I)
next
  case (Suc k)
  define r' where "r' = push_bit 1 (if isChosung (m ! k) then r OR 0 else r OR 1)"
  have bit0: "\<not> bit r 0" using Suc.prems(2) by (simp add: bit_0)
  have step: "checkCompletHangul_loop m 0 (Suc k) r = checkCompletHangul_loop m 0 k r'"
    using Suc.prems(1) by (simp add: r'_def)
  have "\<not> bit r' 0" unfolding r'_def shl1 by simp
  then obtain w where w: "checkCompletHangul_loop m 0 k r' = ret w"
    "\<And>j. j < 32 \<Longrightarrow> bit w j \<longleftrightarrow> j \<noteq> 0 \<and> (if j \<le> k then \<not> isChosung (m ! (j - 1)) else bit r' (j - k))"
    using Suc.IH [of r'] Suc.prems(1) by (auto simp: bit_0)
  have new: "bit r' (j - k) \<longleftrightarrow> (if j = Suc k then \<not> isChosung (m ! k) else bit r (j - Suc k))" if "k < j" "j < 32" for j
    unfolding r'_def shl1 using that bit0 by (cases "j = Suc k") (auto simp: bit_or_iff bit_1_iff)
  have "bit w j \<longleftrightarrow> j \<noteq> 0 \<and> (if j \<le> Suc k then \<not> isChosung (m ! (j - 1)) else bit r (j - Suc k))" if "j < 32" for j
    using w(2) [OF that] new [OF _ that] by (cases "j \<le> k"; cases "j = Suc k") auto
  then show ?case using w(1) step by simp
qed

lemma checkCompletHangul_bits:
  assumes "k \<le> length m"
  shows "\<exists>w. checkCompletHangul m 0 k = ret w \<and> (\<forall>j < 31. bit w j \<longleftrightarrow> j < k \<and> \<not> isChosung (m ! j))"
proof -
  obtain w where "checkCompletHangul_loop m 0 k 0 = ret w"
    "\<forall>j < 32. bit w j \<longleftrightarrow> j \<noteq> 0 \<and> (if j \<le> k then \<not> isChosung (m ! (j - 1)) else bit (0::u32) (j - k))"
    using checkCompletHangul_loop_bits [OF assms, of 0] by auto
  then show ?thesis
    by (auto simp: checkCompletHangul_def bit_drop_bit_eq)
qed

section \<open>Properties of the queries\<close>

lemma cell_known: "j < length n \<Longrightarrow> cell (map Some n @ rest) j = ret (n ! j)"
  by (simp add: cell_def nth_append)

text \<open>C6: a query of \<open>nLen\<close> characters selects exactly the names that agree with it: a lone consonant
  from the third character on stands for every syllable that starts with it, one among the first two
  characters is left to the index, and any other character has to be equal.\<close>

theorem name_matches_query:
  assumes "nLen \<le> length q" and "nLen \<le> length n"
  shows "\<exists>ck. checkCompletHangul q 0 nLen = ret ck \<and>
           name_matches q nLen (map Some n @ rest) ck True =
             ret (\<forall>j < nLen. if isChosung (q ! j) then 2 \<le> j \<longrightarrow> consonant (q ! j) = consonant (n ! j)
                             else q ! j = n ! j)"
proof -
  obtain ck where ck: "checkCompletHangul q 0 nLen = ret ck"
    "\<And>j. j < 31 \<Longrightarrow> bit ck j \<longleftrightarrow> j < nLen \<and> \<not> isChosung (q ! j)"
    using checkCompletHangul_bits [OF assms(1)] by blast
  have ok: "char_ok q n ck j \<longleftrightarrow>
      (if isChosung (q ! j) then 2 \<le> j \<longrightarrow> consonant (q ! j) = consonant (n ! j) else q ! j = n ! j)"
    if "j < nLen" for j
    using ck(2) [of j] that by (auto simp: char_ok_def)
  have all: "match_loop nLen 0 q (map Some n @ rest) ck = ret (\<forall>j < nLen. char_ok q n ck j)"
    using match_loop_spec [of 0 nLen q "map Some n @ rest" n ck] assms cell_known [of _ n rest] by simp
  have "\<forall>j < nLen. char_ok q n ck j" if "ck = 0" "nLen \<le> 2"
    using that by (simp add: char_ok_def)
  then show ?thesis
    using ck(1) all ok by (auto simp: name_matches_def MAX_CHOSUNG_LEN_def)
qed

theorem name_matches_query_witness:
  "\<exists>ck. checkCompletHangul [0xAC00, 0x3134, 0] 0 2 = ret ck \<and>
     name_matches [0xAC00, 0x3134, 0] 2 [Some 0xAC00, Some 0xB098, Some 0] ck True = ret True"
  using name_matches_query [of 2 "[0xAC00, 0x3134, 0]" "[0xAC00, 0xB098]" "[Some 0]"]
  by (simp add: isChosung_def chHangulChosungBegin_def chHangulChosungEnd_def all_less_2)

text \<open>\<^verbatim>\<open>SearchDongName\<close> and \<^verbatim>\<open>SearchRoadName\<close> compare over the length of the name: a query that is a
  proper prefix of a name never selects it, since its terminator is compared with the name.\<close>

theorem name_matches_no_prefix:
  assumes "2 \<le> length s" and "length s < length n" and "0 \<notin> set n"
  shows "name_matches (s @ [0]) (length n) (map Some n @ rest) ck bAddData = ret False"
proof -
  have "n ! length s \<noteq> 0"
    using assms(2,3) by (metis nth_mem)
  then have bad: "\<not> char_ok (s @ [0]) n ck (length s)"
    using assms(1) by (simp add: char_ok_def isChosung_def chHangulChosungBegin_def)
  have "match_loop (length n) 0 (s @ [0]) (map Some n @ rest) (drop_bit (min 0 2) ck) = ret False"
    using assms(2) cell_known [of _ n rest] bad by (intro match_loop_mismatch [where j = "length s" and n = n]) simp_all
  then show ?thesis
    using assms(1,2) by (simp add: name_matches_def MAX_CHOSUNG_LEN_def)
qed

theorem name_matches_no_prefix_witness:
  "name_matches [0xAC00, 0xB098, 0] 3 [Some 0xAC00, Some 0xB098, Some 0xB3D9, Some 0] 3 True = ret False"
  using name_matches_no_prefix [of "[0xAC00, 0xB098]" "[0xAC00, 0xB098, 0xB3D9]" "[Some 0]" 3 True]
  by (simp add: numeral_3_eq_3)

lemma length_tel_str: "length (tranTelNumber2_str w b) \<le> 4"
proof -
  have "unat w < 2 ^ 16"
    using unsigned_less [of w, where 'a = nat] by simp
  from tel_str_nibbles [OF this, of b] show ?thesis
    using length_dropWhile_le [of "\<lambda>d. d = 0" "map (\<lambda>k. of_nat (unat w div 2 ^ k mod 16) :: u16) [12, 8, 4, 0]"]
    by (simp add: Let_def)
qed

lemma length_tel_str_u8: "length (tranTelNumber2_str (ucast (w :: u8)) True) \<le> 2"
proof -
  have a: "unat w < 256" by simp
  have w: "unat w < 2 ^ 16" "unat w div 4096 = 0" "unat w div 256 = 0"
    by (rule less_trans [OF a], simp, rule div_less, rule less_trans [OF a], simp, rule div_less, rule a)
  have "tranTelNumber2_str (ucast w) True = tranTelNumber2_str (of_nat (unat w)) True"
    by simp
  also have "\<dots> = map (\<lambda>d. ucast (d + 48)) (dropWhile (\<lambda>d. d = 0)
      [of_nat (unat w div 16 mod 16) :: u16, of_nat (unat w mod 16)])"
    unfolding tel_str_nibbles [OF w(1)] by (simp add: Let_def w(2,3))
  finally show ?thesis
    using length_dropWhile_le [of "\<lambda>d. d = 0" "[of_nat (unat w div 16 mod 16) :: u16, of_nat (unat w mod 16)]"] by simp
qed

text \<open>The text of a telephone number with its terminator fits the 16 characters reserved for it,
  whatever the file holds.\<close>

theorem tel_format_fits: "length (tel_format nu8 nu32) + 1 \<le> 16"
  using length_tel_str_u8 [of nu8] length_tel_str [of "ucast (drop_bit 16 nu32) AND 0xFFFF" True]
    length_tel_str [of "ucast (nu32 AND 0xFFFF)" False]
  by (simp add: tel_format_def)

text \<open>The telephone index: entry \<open>i\<close> of a table of keys of \<open>ksz\<close> bytes, followed by \<open>payload\<close>.\<close>

definition table_entry :: "nat \<Rightarrow> cfile \<Rightarrow> nat \<Rightarrow> nat \<Rightarrow> nat list \<Rightarrow> nat \<Rightarrow> nat list \<Rightarrow> bool" where
  "table_entry ksz f ofs rsz ks i payload \<longleftrightarrow>
     key_table ksz f ofs rsz ks \<and> i < length ks \<and> (\<forall>v \<in> set payload. v < 2 ^ 31) \<and>
     bytes_at (concat (map (le_bytes 4) payload)) (ofs + i * rsz + ksz) f"

lemma table_entry_cong: "fdata g = fdata f \<Longrightarrow> table_entry ksz g ofs rsz ks i vs = table_entry ksz f ofs rsz ks i vs"
  using key_table_cong [of g f] bytes_at_cong [of g f] by (simp add: table_entry_def)

lemma read_word:
  assumes "bytes_at (le_bytes 4 v @ rest) (fpos f) f" and "v < 2 ^ 31"
  shows "fread_into 4 le_word old f = (Some (of_nat v :: u32), f\<lparr>fpos := fpos f + 4\<rparr>)"
    and "bytes_at rest (fpos f + 4) (f\<lparr>fpos := fpos f + 4\<rparr>)"
proof -
  have "bytes_at (le_bytes 4 v) (fpos f) f" and rest: "bytes_at rest (fpos f + 4) f"
    using assms(1) by (simp_all add: bytes_at_append)
  then show "fread_into 4 le_word old f = (Some (of_nat v :: u32), f\<lparr>fpos := fpos f + 4\<rparr>)"
    using fread_into_at [of "le_bytes 4 v" f 4 le_word old] assms(2) by (simp add: le_word_def)
  show "bytes_at rest (fpos f + 4) (f\<lparr>fpos := fpos f + 4\<rparr>)"
    using rest by simp
qed

context key_index
begin

text \<open>Searching a table for a listed key and reading the two words behind it.\<close>

lemma entry_two:
  assumes "table_entry ksz f ofs rsz ks i [a, b]"
  shows "\<exists>f1 f2 f3. search f (of_nat (ks ! i)) (of_nat ofs) (of_nat rsz) (of_nat (length ks)) = ret (True, f1) \<and>
           (\<forall>old. fread_into 4 le_word old f1 = (Some (of_nat a :: u32), f2)) \<and>
           (\<forall>old. fread_into 4 le_word old f2 = (Some (of_nat b :: u32), f3)) \<and> fdata f3 = fdata f"
proof -
  let ?f1 = "f\<lparr>fpos := ofs + i * rsz + ksz, feof := False\<rparr>"
  have "bytes_at (le_bytes 4 a @ le_bytes 4 b @ []) (fpos ?f1) ?f1" and ab: "a < 2 ^ 31" "b < 2 ^ 31"
    using assms by (simp_all add: table_entry_def)
  note a = read_word [OF this(1) ab(1)]
  have "bytes_at (le_bytes 4 b @ []) (fpos (?f1\<lparr>fpos := fpos ?f1 + 4\<rparr>)) (?f1\<lparr>fpos := fpos ?f1 + 4\<rparr>)"
    using a(2) by simp
  note b = read_word(1) [OF this ab(2)]
  show ?thesis
    using search_present [of f ofs rsz ks i] assms a(1) b
    by (intro exI [of _ ?f1] exI [of _ "?f1\<lparr>fpos := fpos ?f1 + 4\<rparr>"]
        exI [of _ "?f1\<lparr>fpos := fpos ?f1 + 4, fpos := fpos ?f1 + 4 + 4\<rparr>"]) (simp add: table_entry_def)
qed

lemma entry_one:
  assumes "table_entry ksz f ofs rsz ks i [a]"
  shows "\<exists>f1 f2. search f (of_nat (ks ! i)) (of_nat ofs) (of_nat rsz) (of_nat (length ks)) = ret (True, f1) \<and>
           (\<forall>old. fread_into 4 le_word old f1 = (Some (of_nat a :: u32), f2)) \<and> fdata f2 = fdata f"
proof -
  let ?f1 = "f\<lparr>fpos := ofs + i * rsz + ksz, feof := False\<rparr>"
  have "bytes_at (le_bytes 4 a @ []) (fpos ?f1) ?f1" and "a < 2 ^ 31"
    using assms by (simp_all add: table_entry_def)
  note a = read_word(1) [OF this]
  show ?thesis
    using search_present [of f ofs rsz ks i] assms a
    by (intro exI [of _ ?f1] exI [of _ "?f1\<lparr>fpos := fpos ?f1 + 4\<rparr>"]) (simp add: table_entry_def)
qed

end

text \<open>\<open>tel_listed f end_ofs ks i ns j bs\<close>: the index that ends at \<open>end_ofs\<close> lists the exchange \<open>ks ! i\<close>, and its
  table the number \<open>ns ! j\<close>, which refers to the record with the bytes \<open>bs\<close>.\<close>

definition tel_listed :: "cfile \<Rightarrow> nat \<Rightarrow> nat \<Rightarrow> nat list \<Rightarrow> nat \<Rightarrow> nat \<Rightarrow> nat list \<Rightarrow> nat \<Rightarrow> nat \<Rightarrow> u8 list \<Rightarrow> bool" where
  "tel_listed f end_ofs kuk_ofs ks i num_ofs ns j poi_ofs bs \<longleftrightarrow>
     8 \<le> end_ofs \<and> end_ofs < 2 ^ 31 \<and> kuk_ofs < 2 ^ 31 \<and>
     bytes_at (le_bytes 4 (length ks) @ le_bytes 4 kuk_ofs) (end_ofs - 8) f \<and>
     table_entry 2 f kuk_ofs 10 ks i [length ns, num_ofs] \<and> table_entry 2 f num_ofs 6 ns j [poi_ofs] \<and>
     length bs = 8 \<and> bytes_at bs poi_ofs f"

lemma tel_listed_cong:
  "fdata g = fdata f \<Longrightarrow> tel_listed g e k ks i n ns j p bs = tel_listed f e k ks i n ns j p bs"
  using table_entry_cong [of g f] bytes_at_cong [of g f] by (simp add: tel_listed_def)

lemma tel_lookup_listed:
  assumes "tel_listed f end_ofs kuk_ofs ks i num_ofs ns j poi_ofs bs"
  shows "\<exists>c o' g. tel_lookup f (of_nat end_ofs) (of_nat (ks ! i)) (of_nat (ns ! j)) cnt ofs info =
           ret (Some (dec_POI_HEADER_F bs), c, o', g) \<and> fdata g = fdata f"
proof -
  let ?f0 = "f\<lparr>fpos := end_ofs - 8, feof := False\<rparr>"
  note l = assms [unfolded tel_listed_def]
  have ks: "length ks < 2 ^ 31" and poi: "poi_ofs < 2 ^ 31" and kuk: "kuk_ofs < 2 ^ 31"
    using l key_table_count [of 2 f kuk_ofs 10 ks] by (simp_all add: table_entry_def)
  have "(of_nat end_ofs - 4 * 2 :: u32) = of_nat (end_ofs - 8)"
    using l by (simp add: of_nat_diff)
  moreover have "end_ofs - 8 < 2 ^ 31"
    using l less_imp_diff_less by blast
  ultimately have seek: "fseek_set (of_nat end_ofs - 4 * 2) f = ?f0"
    using fseek_set_of_nat [of "end_ofs - 8" f] by simp
  have "bytes_at (le_bytes 4 (length ks) @ le_bytes 4 kuk_ofs @ []) (fpos ?f0) ?f0"
    using l by simp
  note r1 = read_word [OF this ks]
  have "bytes_at (le_bytes 4 kuk_ofs @ []) (fpos (?f0\<lparr>fpos := fpos ?f0 + 4\<rparr>)) (?f0\<lparr>fpos := fpos ?f0 + 4\<rparr>)"
    using r1(2) by simp
  note r2 = read_word(1) [OF this kuk]
  let ?f2 = "?f0\<lparr>fpos := fpos ?f0 + 4, fpos := fpos ?f0 + 4 + 4\<rparr>"
  obtain f3 f4 f5 where k: "searchu16KeyValue ?f2 (of_nat (ks ! i)) (of_nat kuk_ofs) 10 (of_nat (length ks)) = ret (True, f3)"
    "\<And>old. fread_into 4 le_word old f3 = (Some (of_nat (length ns) :: u32), f4)"
    "\<And>old. fread_into 4 le_word old f4 = (Some (of_nat num_ofs :: u32), f5)" "fdata f5 = fdata f"
    using idx16.entry_two [of ?f2 kuk_ofs 10 ks i "length ns" num_ofs] l table_entry_cong [of ?f2 f] by auto
  obtain f6 f7 where n: "searchu16KeyValue f5 (of_nat (ns ! j)) (of_nat num_ofs) 6 (of_nat (length ns)) = ret (True, f6)"
    "\<And>old. fread_into 4 le_word old f6 = (Some (of_nat poi_ofs :: u32), f7)" "fdata f7 = fdata f"
    using idx16.entry_one [of f5 num_ofs 6 ns j poi_ofs] l table_entry_cong [OF k(4)] k(4) by auto
  have "unat (of_nat poi_ofs :: u32) = poi_ofs"
    using poi by (intro unat_small) simp
  then have p: "fread_into 8 dec_POI_HEADER_F info (fseek_set (of_nat poi_ofs) f7) =
      (Some (dec_POI_HEADER_F bs), f7\<lparr>fpos := poi_ofs + 8, feof := False\<rparr>)"
    using seek_read [of "of_nat poi_ofs" bs f7 8] l bytes_at_cong [OF n(3)] poi by simp
  show ?thesis
    using seek r1(1) r2 k n p l by (simp add: tel_lookup_def)
qed

text \<open>C5: a telephone number whose area, exchange and number the file of a province lists is found: the
  point of interest is added under its name.\<close>

theorem SearchTelNumber_ddd_listed:
  assumes "table_entry 1 (fp h) (unat (tel_poi_idx_ofs (m_poi_header h))) 9 ds d [begin_ofs, end_ofs]"
    and "tel_poi_idx_cnt (m_poi_header h) = of_nat (length ds)"
    and "tel_listed (fp h) end_ofs kuk_ofs ks i num_ofs ns j poi_ofs bs"
    and "m_Text_fp t = Reading g" and "text_at (fdata g) name (name_ofs (dec_POI_HEADER_F bs))" and "buffers_ok t"
  shows "\<exists>h' t'. SearchTelNumber_ddd nSidoIdx (of_nat (ds ! d)) (of_nat (ks ! i)) (of_nat (ns ! j)) h t res =
           ret (1, multimap_insert name \<lparr>ph_nSidoIdx = nSidoIdx, ph_info = dec_POI_HEADER_F bs\<rparr> res, h', t')"
proof -
  obtain f1 f2 f3 where ddd:
    "searchu8KeyValue (fp h) (of_nat (ds ! d)) (tel_poi_idx_ofs (m_poi_header h)) 9 (of_nat (length ds)) = ret (True, f1)"
    "\<And>old. fread_into 4 le_word old f1 = (Some (of_nat begin_ofs :: u32), f2)"
    "\<And>old. fread_into 4 le_word old f2 = (Some (of_nat end_ofs :: u32), f3)" "fdata f3 = fdata (fp h)"
    using idx8.entry_two [OF assms(1)] by auto
  have e: "fread_u32 f2 = ret (of_nat end_ofs, f3)"
    using ddd(3) by (simp add: fread_u32_def fread_new_def)
  have "tel_listed f3 end_ofs kuk_ofs ks i num_ofs ns j poi_ofs bs"
    using assms(3) tel_listed_cong [OF ddd(4)] by simp
  then obtain c o' f4 where tel: "tel_lookup f3 (of_nat end_ofs) (of_nat (ks ! i)) (of_nat (ns ! j)) None None None =
      ret (Some (dec_POI_HEADER_F bs), c, o', f4)"
    using tel_lookup_listed by blast
  obtain t' where "getTextOfs (name_ofs (dec_POI_HEADER_F bs)) 0 t = ret (Buff 0, length name, t')"
    "text_of t' (Buff 0) = ret name"
    using getTextOfs_text [OF assms(4-6), of 0] by auto
  then show ?thesis
    using ddd(1,2) e tel by (simp add: SearchTelNumber_ddd_def assms(2) insert_poi_def)
qed

definition tel_file :: "u8 list" where
  "tel_file = [1, 0, 0, 0, 0, 0, 0, 0] @ [0x67, 0x45, 0, 0, 0, 0] @ [0x23, 1, 1, 0, 0, 0, 8, 0, 0, 0]
     @ [1, 0, 0, 0, 14, 0, 0, 0] @ [0x31, 0, 0, 0, 0, 32, 0, 0, 0]"

definition tel_helper :: CUmSearchHelper where
  "tel_helper = (empty_helper (fopen_rb tel_file))\<lparr>m_poi_header :=
     (dec_POI_DATA_HEADER [])\<lparr>tel_poi_idx_ofs := 32, tel_poi_idx_cnt := 1\<rparr>\<rparr>"

definition tel_texts :: CTextMng where
  "tel_texts = CTextMng_new\<lparr>m_Text_fp := Reading (fopen_rb [65, 0])\<rparr>"

lemma tel_file_entries:
  "table_entry 1 (fopen_rb tel_file) 32 9 [0x31] 0 [0, 32]"
  "tel_listed (fopen_rb tel_file) 32 14 [0x123] 0 8 [0x4567] 0 0 [1, 0, 0, 0, 0, 0, 0, 0]"
  by (simp_all add: table_entry_def tel_listed_def key_table_def bytes_at_def tel_file_def le_bytes4 le_bytes2)

theorem SearchTelNumber_ddd_listed_witness:
  "\<exists>h' t'. SearchTelNumber_ddd 0 0x31 0x123 0x4567 tel_helper tel_texts [] =
     ret (1, multimap_insert [65] \<lparr>ph_nSidoIdx = 0, ph_info = dec_POI_HEADER_F [1, 0, 0, 0, 0, 0, 0, 0]\<rparr> [], h', t')"
proof -
  have "text_at [65, 0] [65] (name_ofs (dec_POI_HEADER_F [1, 0, 0, 0, 0, 0, 0, 0]))"
    by (simp add: text_at_def dec_POI_HEADER_F_def field_def le_word_def u16_bytes_def le_bytes2 Let_def)
  then show ?thesis
    using SearchTelNumber_ddd_listed [of tel_helper "[0x31]" 0 0 32 14 "[0x123]" 0 8 "[0x4567]" 0 0
        "[1, 0, 0, 0, 0, 0, 0, 0]" tel_texts "fopen_rb [65, 0]" "[65]" 0 "[]"] tel_file_entries new_buffers_ok
    by (simp add: tel_helper_def tel_texts_def buffers_ok_def)
qed

end
