(* ===== verification/Search_Module.thy ===== *)
theory Search_Module
  imports Search_Query
begin

text \<open>
  \<^verbatim>\<open>CUmSearchModule\<close> (\<^verbatim>\<open>UmSearchModule.cpp\<close>): the helpers of the provinces, the text store they share, the
  results of the last queries and the table that assigns administrative districts to legal ones.
  A province is addressed by its position in \<^verbatim>\<open>m_helpers\<close>.
\<close>

record CUmSearchModule =
  m_helpers :: "CUmSearchHelper list"
  m_Text_mng :: CTextMng
  m_dongNameResult :: "DONG_DATA list"
  m_roadNameResult :: "ROAD_DATA list"
  m_poiHeaders :: poi_result
  m_poiBody :: "POI_BODY option"
  m_fpLHCode :: "cfile option"
  m_nLHCodeIdxOfs :: "u32 option"
  m_nLHCodeIdxCnt :: "u32 option"
  m_stLHCodeResult :: "u32 list"

definition CUmSearchModule_new :: CUmSearchModule where
  "CUmSearchModule_new =
     \<lparr>m_helpers = [], m_Text_mng = CTextMng_new, m_dongNameResult = [], m_roadNameResult = [], m_poiHeaders = [],
      m_poiBody = None, m_fpLHCode = None, m_nLHCodeIdxOfs = Some 0, m_nLHCodeIdxCnt = Some 0, m_stLHCodeResult = []\<rparr>"

section \<open>Loading\<close>

text \<open>The names of the files are built in arrays of \<^verbatim>\<open>MAX_PATH\<close> characters.\<close>

fun Load_helpers :: "file_system \<Rightarrow> string \<Rightarrow> SIDO_INFO_ST list \<Rightarrow> CUmSearchHelper list \<Rightarrow> CUmSearchHelper list comp" where
  "Load_helpers fs path [] hs = ret hs"
| "Load_helpers fs path (s # ss) hs =
     bindc (file_name path (tail s @ ''.dat'')) (\<lambda>name.
       case fs name of
         None \<Rightarrow> Load_helpers fs path ss hs
       | Some bs \<Rightarrow> bindc (CUmSearchHelper_new (fopen_rb bs)) (\<lambda>h. Load_helpers fs path ss (hs @ [h])))"

definition Module_Load :: "file_system \<Rightarrow> string \<Rightarrow> CUmSearchModule \<Rightarrow> (bool \<times> CUmSearchModule) comp" where
  "Module_Load fs pPath md =
     bindc (file_name pPath []) (\<lambda>path0.
     bindc (if pPath = [] then fail OutOfRange
            else if last pPath \<noteq> CHR ''/'' then file_name path0 ''/'' else ret path0) (\<lambda>m_strPath.
     bindc (Load_helpers fs m_strPath g_sido_info (m_helpers md)) (\<lambda>hs.
     bindc (file_name m_strPath ''LHTbl.dat'') (\<lambda>name.
     let lh = (case fs name of
            None \<Rightarrow> (None, m_nLHCodeIdxOfs md, m_nLHCodeIdxCnt md)
          | Some bs \<Rightarrow>
              (case fread_into 4 le_word (m_nLHCodeIdxOfs md) (fseek_end (- 8) (fopen_rb bs)) of (o1, f1) \<Rightarrow>
               case fread_into 4 le_word (m_nLHCodeIdxCnt md) f1 of (c1, f2) \<Rightarrow> (Some f2, o1, c1)))
     in case lh of (lf, lo, lc) \<Rightarrow>
        let md1 = md\<lparr>m_helpers := hs, m_fpLHCode := lf, m_nLHCodeIdxOfs := lo, m_nLHCodeIdxCnt := lc\<rparr>
        in if hs = [] then ret (False, md1)
           else bindc (TextMng_Load fs m_strPath (m_Text_mng md1)) (\<lambda>(b, t). ret (b, md1\<lparr>m_Text_mng := t\<rparr>))))))"

definition Module_Release :: "CUmSearchModule \<Rightarrow> CUmSearchModule" where
  "Module_Release md =
     md\<lparr>m_helpers := map Helper_Release (m_helpers md), m_poiHeaders := [], m_dongNameResult := [],
        m_roadNameResult := [], m_stLHCodeResult := []\<rparr>"

section \<open>Calls into a helper\<close>

text \<open>\<open>on_helper\<close> runs an operation of the helper \<open>i\<close>, with the shared text store.\<close>

definition on_helper :: "nat \<Rightarrow> (CUmSearchHelper \<Rightarrow> CTextMng \<Rightarrow> ('a \<times> CUmSearchHelper \<times> CTextMng) comp) \<Rightarrow>
    CUmSearchModule \<Rightarrow> ('a \<times> CUmSearchModule) comp" where
  "on_helper i op md =
     bindc (at (m_helpers md) i) (\<lambda>h.
     bindc (op h (m_Text_mng md)) (\<lambda>(r, h1, t1).
       ret (r, md\<lparr>m_helpers := (m_helpers md)[i := h1], m_Text_mng := t1\<rparr>)))"

text \<open>The loop over all helpers, which threads an accumulated result.\<close>

fun all_helpers :: "nat \<Rightarrow> nat \<Rightarrow> (nat \<Rightarrow> CUmSearchHelper \<Rightarrow> CTextMng \<Rightarrow> 'r \<Rightarrow> ('r \<times> CUmSearchHelper \<times> CTextMng) comp) \<Rightarrow>
    'r \<Rightarrow> CUmSearchModule \<Rightarrow> ('r \<times> CUmSearchModule) comp" where
  "all_helpers 0 i op res md = ret (res, md)"
| "all_helpers (Suc k) i op res md =
     bindc (on_helper i (\<lambda>h t. op i h t res) md) (\<lambda>(res1, md1). all_helpers k (i + 1) op res1 md1)"

definition GetSidoCount :: "CUmSearchModule \<Rightarrow> nat" where
  "GetSidoCount md = length (m_helpers md)"

definition on_text :: "(CTextMng \<Rightarrow> ('a \<times> CTextMng) comp) \<Rightarrow> CUmSearchModule \<Rightarrow> ('a \<times> CUmSearchModule) comp" where
  "on_text op md = bindc (op (m_Text_mng md)) (\<lambda>(r, t). ret (r, md\<lparr>m_Text_mng := t\<rparr>))"

definition GetSidoName :: "nat \<Rightarrow> CUmSearchModule \<Rightarrow> ((text_ptr \<times> nat) option \<times> CUmSearchModule) comp" where
  "GetSidoName nIndex md =
     bindc (at (m_helpers md) nIndex) (\<lambda>h. on_text (getSidoName (sido_idx (m_sidoData h))) md)"

definition GetSigunguName :: "nat \<Rightarrow> u16 \<Rightarrow> CUmSearchModule \<Rightarrow> ((text_ptr \<times> nat) option \<times> CUmSearchModule) comp" where
  "GetSigunguName nSidoIdx sigunguCode md =
     bindc (at (m_helpers md) nSidoIdx) (\<lambda>h.
       on_text (getSigunguName (ucast (sido_idx (m_sidoData h)) * 1000 + sigunguCode)) md)"

definition GetSigunguName_code :: "u32 \<Rightarrow> CUmSearchModule \<Rightarrow> ((text_ptr \<times> nat) option \<times> CUmSearchModule) comp" where
  "GetSigunguName_code DCode md = on_text (getSigunguName (ucast (DCode div 100000))) md"

definition GetDongName_code :: "u32 \<Rightarrow> CUmSearchModule \<Rightarrow> ((text_ptr \<times> nat) option \<times> CUmSearchModule) comp" where
  "GetDongName_code DCode md = on_text (getDongName DCode) md"

definition GetDongName :: "nat \<Rightarrow> u16 \<Rightarrow> u32 \<Rightarrow> CUmSearchModule \<Rightarrow> ((text_ptr \<times> nat) option \<times> CUmSearchModule) comp" where
  "GetDongName nSidoIdx sigunguCode DCode md =
     bindc (at (m_helpers md) nSidoIdx) (\<lambda>h.
       let n = unat (sido_idx (m_sidoData h)) * 100000000 + unat sigunguCode * 100000
       in if n < 2 ^ 31 then on_text (getDongName (of_nat n + DCode)) md else fail IntOverflow)"

definition Module_GetSigunguData :: "nat \<Rightarrow> CUmSearchModule \<Rightarrow> (unit \<times> CUmSearchModule) comp" where
  "Module_GetSigunguData nSidoIdx =
     on_helper nSidoIdx (\<lambda>h t. bindc (GetSigunguData h t) (\<lambda>(h1, t1). ret ((), h1, t1)))"

definition Module_GetDongData :: "nat \<Rightarrow> u32 \<Rightarrow> CUmSearchModule \<Rightarrow> (unit \<times> CUmSearchModule) comp" where
  "Module_GetDongData nSidoIdx sigungu_ofs =
     on_helper nSidoIdx (\<lambda>h t. bindc (GetDongData nSidoIdx sigungu_ofs h t) (\<lambda>(h1, t1). ret ((), h1, t1)))"

definition Module_GetRoadData :: "nat \<Rightarrow> u32 \<Rightarrow> CUmSearchModule \<Rightarrow> (unit \<times> CUmSearchModule) comp" where
  "Module_GetRoadData nSidoIdx sigungu_ofs =
     on_helper nSidoIdx (\<lambda>h t. bindc (GetRoadData nSidoIdx sigungu_ofs h t) (\<lambda>(h1, t1). ret ((), h1, t1)))"

text \<open>\<^verbatim>\<open>GetBunjiData\<close> takes a district or, with \<^verbatim>\<open>bRoad\<close>, a road.\<close>

definition Module_GetBunjiData :: "nat \<Rightarrow> place_ptr \<Rightarrow> DONG_DATA + ROAD_DATA \<Rightarrow> bool \<Rightarrow> CUmSearchModule \<Rightarrow> (unit \<times> CUmSearchModule) comp" where
  "Module_GetBunjiData nSidoIdx p place bSan =
     on_helper nSidoIdx (\<lambda>h t. case place of
         Inr r \<Rightarrow> bindc (GetRoadBunjiData r h) (\<lambda>h1. ret ((), h1, t))
       | Inl d \<Rightarrow> bindc (GetBunjiData p d (\<not> bSan) False h t) (\<lambda>(h1, t1). ret ((), h1, t1)))"

definition Module_GetHoData :: "nat \<Rightarrow> u32 \<Rightarrow> CUmSearchModule \<Rightarrow> (unit \<times> CUmSearchModule) comp" where
  "Module_GetHoData nSidoIdx bunji_ofs =
     on_helper nSidoIdx (\<lambda>h t. bindc (GetHoData bunji_ofs h) (\<lambda>h1. ret ((), h1, t)))"

definition Module_GetNewHoData :: "nat \<Rightarrow> u32 \<Rightarrow> CUmSearchModule \<Rightarrow> (unit \<times> CUmSearchModule) comp" where
  "Module_GetNewHoData nSidoIdx bunji_ofs =
     on_helper nSidoIdx (\<lambda>h t. bindc (GetNewHoData bunji_ofs h) (\<lambda>h1. ret ((), h1, t)))"

definition GetHoValue :: "HO_DATA \<Rightarrow> u16" where
  "GetHoValue pHo = ho_quota pHo * 256 + ucast (ho pHo)"

definition Module_GetHoPos :: "nat \<Rightarrow> HO_DATA \<Rightarrow> u32 option \<Rightarrow> u32 option \<Rightarrow> CUmSearchModule \<Rightarrow>
    ((u32 option \<times> u32 option) \<times> CUmSearchModule) comp" where
  "Module_GetHoPos nSidoIdx pHo pX pY =
     on_helper nSidoIdx (\<lambda>h t. case GetHoPos pHo pX pY h of (x, y, h1) \<Rightarrow> ret ((x, y), h1, t))"

text \<open>The position of a house of the new address system: relative to the district that the loaded
  districts give for its offset or, when none are loaded, that the file gives.\<close>

definition GetNewHoPos :: "nat \<Rightarrow> NEW_HO_DATA \<Rightarrow> u32 option \<Rightarrow> u32 option \<Rightarrow> HO_DATA option \<Rightarrow> CUmSearchModule \<Rightarrow>
    ((u32 \<times> u32 \<times> u32 \<times> HO_DATA) \<times> CUmSearchModule) comp" where
  "GetNewHoPos nSidoIdx pNewHo pX pY pHo =
     on_helper nSidoIdx (\<lambda>h t.
       bindc (GetHo (new_offset pNewHo) pHo h) (\<lambda>(pDong, v, h1).
         case pDong of
           Some p \<Rightarrow>
             bindc (case p of InDong i \<Rightarrow> at (m_dongDatas h1) i | _ \<Rightarrow> fail OutOfRange) (\<lambda>d.
             bindc (need v) (\<lambda>hd.
             case GetHoPos hd pX pY h1 of (x, y, h2) \<Rightarrow>
             bindc (need x) (\<lambda>xv. bindc (need y) (\<lambda>yv.
               ret ((dong_code (dd_info d), xv + min_x (dd_info d), yv + min_y (dd_info d), hd), h2, t)))))
         | None \<Rightarrow>
             bindc (GetHo_dong (new_offset pNewHo) v h1) (\<lambda>(v1, ddf, h2).
             bindc (need v1) (\<lambda>hd.
             case GetHoPos hd pX pY h2 of (x, y, h3) \<Rightarrow>
             bindc (need x) (\<lambda>xv. bindc (need y) (\<lambda>yv. bindc (need ddf) (\<lambda>d.
               ret ((dong_code d, xv + min_x d, yv + min_y d, hd), h3, t))))))))"

section \<open>Queries\<close>

definition Module_SearchDongName :: "u16 list \<Rightarrow> nat \<Rightarrow> CUmSearchModule \<Rightarrow> CUmSearchModule comp" where
  "Module_SearchDongName dongName nLen md =
     bindc (tranChosung_text dongName 0 nLen) (\<lambda>nChoCode.
     bindc (checkCompletHangul dongName 0 nLen) (\<lambda>nCkCmpHan.
     bindc (all_helpers (length (m_helpers md)) 0
         (\<lambda>i h t res. bindc (SearchDongName i dongName nChoCode nCkCmpHan h t res) (\<lambda>(n, res1, h1, t1). ret (res1, h1, t1)))
         [] md) (\<lambda>(res, md1). ret (md1\<lparr>m_dongNameResult := res\<rparr>))))"

definition Module_SearchRoadName :: "u16 list \<Rightarrow> nat \<Rightarrow> CUmSearchModule \<Rightarrow> CUmSearchModule comp" where
  "Module_SearchRoadName roadName nLen md =
     bindc (tranChosung_text roadName 0 nLen) (\<lambda>nChoCode.
     bindc (checkCompletHangul roadName 0 nLen) (\<lambda>nCkCmpHan.
     bindc (all_helpers (length (m_helpers md)) 0
         (\<lambda>i h t res. bindc (SearchRoadName i roadName nChoCode nCkCmpHan h t res) (\<lambda>(n, res1, h1, t1). ret (res1, h1, t1)))
         [] md) (\<lambda>(res, md1). ret (md1\<lparr>m_roadNameResult := res\<rparr>))))"

text \<open>A text that is no telephone number leaves the result empty.\<close>

definition Module_SearchTelNumber :: "u16 list \<Rightarrow> CUmSearchModule \<Rightarrow> CUmSearchModule comp" where
  "Module_SearchTelNumber pText md =
     bindc (tranTelNumber2_parse pText 0) (\<lambda>r. case r of
         None \<Rightarrow> ret (md\<lparr>m_poiHeaders := []\<rparr>)
       | Some (nTelDDD, nTelCode) \<Rightarrow>
           (let nTelNUM = (ucast (nTelCode AND 0xFFFF) :: u16);
                nTelKUK = (ucast (drop_bit 16 nTelCode AND 0xFFFF) :: u16)
            in bindc (all_helpers (length (m_helpers md)) 0
                 (\<lambda>i h t res.
                    bindc (if nTelDDD = 0 then SearchTelNumber i nTelKUK nTelNUM h t res
                           else SearchTelNumber_ddd i nTelDDD nTelKUK nTelNUM h t res)
                      (\<lambda>(n, res1, h1, t1). ret (res1, h1, t1)))
                 [] md) (\<lambda>(res, md1). ret (md1\<lparr>m_poiHeaders := res\<rparr>))))"

definition Module_SearchPoiName :: "u16 list \<Rightarrow> nat \<Rightarrow> CUmSearchModule \<Rightarrow> CUmSearchModule comp" where
  "Module_SearchPoiName pText nLen md =
     bindc (tranChosung_text pText 0 nLen) (\<lambda>nChoCode.
     bindc (checkCompletHangul pText 0 nLen) (\<lambda>nCkCmpHan.
     bindc (all_helpers (length (m_helpers md)) 0
         (\<lambda>i h t res. bindc (SearchPoiName i pText nLen nChoCode nCkCmpHan h t res) (\<lambda>(n, res1, h1, t1). ret (res1, h1, t1)))
         [] md) (\<lambda>(res, md1). ret (md1\<lparr>m_poiHeaders := res\<rparr>))))"

definition Module_SearchPoiName_sido :: "nat \<Rightarrow> u16 list \<Rightarrow> nat \<Rightarrow> CUmSearchModule \<Rightarrow> CUmSearchModule comp" where
  "Module_SearchPoiName_sido nSidoIdx pText nLen md =
     bindc (tranChosung_text pText 0 nLen) (\<lambda>nChoCode.
     bindc (checkCompletHangul pText 0 nLen) (\<lambda>nCkCmpHan.
     bindc (on_helper nSidoIdx (\<lambda>h t.
         bindc (SearchPoiName nSidoIdx pText nLen nChoCode nCkCmpHan h t []) (\<lambda>(n, res1, h1, t1). ret (res1, h1, t1))) md)
       (\<lambda>(res, md1). ret (md1\<lparr>m_poiHeaders := res\<rparr>))))"

definition Module_SearchPoiCateSido :: "nat \<Rightarrow> u16 \<Rightarrow> u16 \<Rightarrow> u16 \<Rightarrow> bool \<Rightarrow> CUmSearchModule \<Rightarrow> CUmSearchModule comp" where
  "Module_SearchPoiCateSido nSidoIdx code1 code2 code3 clearData md =
     bindc (on_helper nSidoIdx (\<lambda>h t.
         SearchPoiCateSido nSidoIdx code1 code2 code3 h t (if clearData then [] else m_poiHeaders md)) md)
       (\<lambda>(res, md1). ret (md1\<lparr>m_poiHeaders := res\<rparr>))"

text \<open>The administrative districts of a legal district.\<close>

fun LHCode_loop :: "nat \<Rightarrow> u32 option \<Rightarrow> cfile \<Rightarrow> u32 list \<Rightarrow> (u32 list \<times> cfile) comp" where
  "LHCode_loop 0 HDCode f res = ret (res, f)"
| "LHCode_loop (Suc k) HDCode f res =
     (case fread_into 4 le_word HDCode f of (v, f1) \<Rightarrow>
        bindc (need v) (\<lambda>c. LHCode_loop k (Some c) f1 (std_set_insert c res)))"

definition FindLHDCodeList :: "u32 \<Rightarrow> CUmSearchModule \<Rightarrow> CUmSearchModule comp" where
  "FindLHDCodeList LDCode md =
     (case m_fpLHCode md of
        None \<Rightarrow> ret (md\<lparr>m_stLHCodeResult := []\<rparr>)
      | Some f \<Rightarrow>
          bindc (need (m_nLHCodeIdxOfs md)) (\<lambda>idx_ofs. bindc (need (m_nLHCodeIdxCnt md)) (\<lambda>idx_cnt.
          bindc (searchu32KeyValue f LDCode idx_ofs 12 idx_cnt) (\<lambda>(found, f1).
            if found then
              bindc (fread_u32 f1) (\<lambda>(HDCodeOfs, f2).
              bindc (fread_u32 f2) (\<lambda>(HDCodeCnt, f3).
              bindc (LHCode_loop (unat HDCodeCnt) None (fseek_set HDCodeOfs f3) []) (\<lambda>(res, f4).
                ret (md\<lparr>m_fpLHCode := Some f4, m_stLHCodeResult := res\<rparr>))))
            else ret (md\<lparr>m_fpLHCode := Some f1, m_stLHCodeResult := []\<rparr>)))))"

fun SearchPoiCateDong_loop :: "u32 list \<Rightarrow> nat \<Rightarrow> u16 \<Rightarrow> u16 \<Rightarrow> u16 \<Rightarrow> CUmSearchModule \<Rightarrow> CUmSearchModule comp" where
  "SearchPoiCateDong_loop [] nSidoIdx code1 code2 code3 md = ret md"
| "SearchPoiCateDong_loop (c # cs) nSidoIdx code1 code2 code3 md =
     bindc (on_helper nSidoIdx (\<lambda>h t. SearchPoiCateHDong nSidoIdx c code1 code2 code3 h t (m_poiHeaders md)) md)
       (\<lambda>(res, md1). SearchPoiCateDong_loop cs nSidoIdx code1 code2 code3 (md1\<lparr>m_poiHeaders := res\<rparr>))"

definition Module_SearchPoiCateDong :: "DONG_DATA \<Rightarrow> u16 \<Rightarrow> u16 \<Rightarrow> u16 \<Rightarrow> bool \<Rightarrow> CUmSearchModule \<Rightarrow> CUmSearchModule comp" where
  "Module_SearchPoiCateDong d code1 code2 code3 clearData md =
     (let md1 = (if clearData then md\<lparr>m_poiHeaders := []\<rparr> else md); i = dd_nSidoIdx d
      in bindc (at (m_helpers md1) i) (\<lambda>h.
         bindc (full_code h (dd_pSigunguF d) (dong_code (dd_info d))) (\<lambda>DCode.
           if ldong_flag (dd_info d) \<noteq> 0 then
             bindc (FindLHDCodeList DCode md1) (\<lambda>md2.
               SearchPoiCateDong_loop (m_stLHCodeResult md2) i code1 code2 code3 md2)
           else SearchPoiCateDong_loop [DCode] i code1 code2 code3 md1)))"

definition Module_SearchPoiCateMesh :: "u32 \<Rightarrow> u16 \<Rightarrow> u16 \<Rightarrow> u16 \<Rightarrow> bool \<Rightarrow> CUmSearchModule \<Rightarrow> CUmSearchModule comp" where
  "Module_SearchPoiCateMesh nMeshCode code1 code2 code3 clearData md =
     bindc (all_helpers (length (m_helpers md)) 0
         (\<lambda>i h t res. SearchPoiCateMesh i nMeshCode code1 code2 code3 h t res)
         (if clearData then [] else m_poiHeaders md) md) (\<lambda>(res, md1). ret (md1\<lparr>m_poiHeaders := res\<rparr>))"

definition Module_GetSearchPoiResult :: "POI_HEADER \<Rightarrow> CUmSearchModule \<Rightarrow> CUmSearchModule comp" where
  "Module_GetSearchPoiResult ph md =
     bindc (on_helper (ph_nSidoIdx ph) (Helper_GetSearchPoiResult (ph_info ph)) md)
       (\<lambda>(body, md1). ret (md1\<lparr>m_poiBody := Some body\<rparr>))"

section \<open>Properties of the module\<close>

lemma LHCode_loop_codes:
  assumes "bytes_at (concat (map (le_bytes 4) vs)) (fpos f) f" and "\<forall>v \<in> set vs. v < 2 ^ 31" and "sorted_wrt (<) res"
  shows "\<exists>res' g. LHCode_loop (length vs) old f res = ret (res', g) \<and>
           set res' = set res \<union> of_nat ` set vs \<and> sorted_wrt (<) res'"
  using assms
proof (induction vs arbitrary: f old res)
  case (Cons v vs)
  have "bytes_at (le_bytes 4 v @ concat (map (le_bytes 4) vs)) (fpos f) f" and v: "v < 2 ^ 31"
    using Cons.prems by simp_all
  note r = read_word [OF this]
  have "bytes_at (concat (map (le_bytes 4) vs)) (fpos (f\<lparr>fpos := fpos f + 4\<rparr>)) (f\<lparr>fpos := fpos f + 4\<rparr>)"
    using r(2) by simp
  then show ?case
    using Cons.IH [of "f\<lparr>fpos := fpos f + 4\<rparr>" "std_set_insert (of_nat v) res" "Some (of_nat v)"] Cons.prems(2,3) r(1)
    by (auto simp: sorted_std_set_insert)
qed simp

text \<open>C7: the query for a legal district that the table lists returns exactly its administrative
  districts, in increasing order and without duplicates.\<close>

theorem FindLHDCodeList_listed:
  assumes "m_fpLHCode md = Some f" and "m_nLHCodeIdxOfs md = Some ofs" and "m_nLHCodeIdxCnt md = Some (of_nat (length ks))"
    and "table_entry 4 f (unat ofs) 12 ks i [list_ofs, length vs]"
    and "bytes_at (concat (map (le_bytes 4) vs)) list_ofs f" and "\<forall>v \<in> set vs. v < 2 ^ 31"
  shows "\<exists>md'. FindLHDCodeList (of_nat (ks ! i)) md = ret md' \<and> set (m_stLHCodeResult md') = of_nat ` set vs \<and>
           sorted_wrt (<) (m_stLHCodeResult md')"
proof -
  obtain f1 f2 f3 where s: "searchu32KeyValue f (of_nat (ks ! i)) ofs 12 (of_nat (length ks)) = ret (True, f1)"
    "\<And>old. fread_into 4 le_word old f1 = (Some (of_nat list_ofs :: u32), f2)"
    "\<And>old. fread_into 4 le_word old f2 = (Some (of_nat (length vs) :: u32), f3)" "fdata f3 = fdata f"
    using idx32.entry_two [OF assms(4)] by auto
  have small: "list_ofs < 2 ^ 31" "unat (of_nat (length vs) :: u32) = length vs"
    using assms(4) unat_small [of "length vs"] by (simp_all add: table_entry_def)
  have seek: "fseek_set (of_nat list_ofs) f3 = f3\<lparr>fpos := list_ofs, feof := False\<rparr>"
    using fseek_set_of_nat [OF small(1)] by blast
  have "bytes_at (concat (map (le_bytes 4) vs)) (fpos (f3\<lparr>fpos := list_ofs, feof := False\<rparr>)) (f3\<lparr>fpos := list_ofs, feof := False\<rparr>)"
    using assms(5) bytes_at_cong [OF s(4)] by simp
  from LHCode_loop_codes [OF this assms(6), of "[]" None]
  obtain res g where "LHCode_loop (length vs) None (fseek_set (of_nat list_ofs) f3) [] = ret (res, g)"
    "set res = of_nat ` set vs" "sorted_wrt (<) res"
    unfolding seek by auto
  then show ?thesis
    using assms(1-3) s small(2) by (simp add: FindLHDCodeList_def fread_u32_def fread_new_def)
qed

definition lh_module :: CUmSearchModule where
  "lh_module = CUmSearchModule_new\<lparr>
     m_fpLHCode := Some (fopen_rb (concat (map (le_bytes 4) [9, 7, 9, 1100, 0, 3]))),
     m_nLHCodeIdxOfs := Some 12, m_nLHCodeIdxCnt := Some 1\<rparr>"

theorem FindLHDCodeList_listed_witness:
  "\<exists>md'. FindLHDCodeList 1100 lh_module = ret md' \<and> set (m_stLHCodeResult md') = {7, 9} \<and>
     sorted_wrt (<) (m_stLHCodeResult md')"
proof -
  let ?f = "fopen_rb (concat (map (le_bytes 4) [9, 7, 9, 1100, 0, 3]))"
  have "table_entry 4 ?f 12 12 [1100] 0 [0, length [9, 7, 9 :: nat]]"
    "bytes_at (concat (map (le_bytes 4) [9, 7, 9])) 0 ?f"
    by (simp_all add: table_entry_def key_table_def bytes_at_def le_bytes4)
  then show ?thesis
    using FindLHDCodeList_listed [of lh_module ?f 12 "[1100]" 0 0 "[9, 7, 9]"]
    by (auto simp: lh_module_def insert_commute)
qed

section \<open>The record of a house\<close>

text \<open>A house with a number of 14 bits and a position of 21 bits per coordinate, in seven bytes.\<close>

definition enc_HO :: "nat \<Rightarrow> nat \<Rightarrow> nat \<Rightarrow> u8 list" where
  "enc_HO v x y =
     le_bytes 1 (v mod 256) @ le_bytes 2 (v div 256 + 64 * (x div 65536) + 2048 * (y div 65536)) @
     le_bytes 2 (x mod 65536) @ le_bytes 2 (y mod 65536)"

lemma quota_digits:
  fixes q a b :: nat
  assumes "q < 64" "a < 32" "b < 32"
  shows "(q + 64 * a + 2048 * b) mod 64 = q" "(q + 64 * a + 2048 * b) div 64 mod 32 = a"
    "(q + 64 * a + 2048 * b) div 2048 mod 32 = b" "q + 64 * a + 2048 * b < 65536"
proof -
  let ?n = "q + 64 * a + 2048 * b"
  have n: "?n = q + 64 * (a + 32 * b)" by simp
  have d: "?n div 64 = a + 32 * b" unfolding n using assms(1) by simp
  show "?n mod 64 = q" unfolding n using assms(1) by (simp only: mod_mult_self2 mod_less)
  show "?n div 64 mod 32 = a" unfolding d using assms(2) by simp
  have "?n div 2048 = ?n div 64 div 32" by (simp only: div_mult2_eq [symmetric]) simp
  also have "\<dots> = b" unfolding d using assms(2) by simp
  finally show "?n div 2048 mod 32 = b" using assms(3) by simp
qed (use assms in linarith)

lemma dec_enc_HO:
  assumes "v < 2 ^ 14" "x < 2 ^ 21" "y < 2 ^ 21"
  shows "dec_HO_DATA (enc_HO v x y) =
    \<lparr>ho = of_nat (v mod 256), ho_quota = of_nat (v div 256), x_quota = of_nat (x div 65536), y_quota = of_nat (y div 65536),
     ho_x = of_nat (x mod 65536), ho_y = of_nat (y mod 65536)\<rparr>"
proof -
  define w where "w = v div 256 + 64 * (x div 65536) + 2048 * (y div 65536)"
  have "v div 256 < 64" "x div 65536 < 32" "y div 65536 < 32" using assms by (auto intro!: less_mult_imp_div_less)
  from quota_digits [OF this, folded w_def]
  have "w < 65536" "bits (of_nat w :: u16) 0 6 = of_nat (v div 256)" "bits (of_nat w :: u16) 6 5 = of_nat (x div 65536)"
    "bits (of_nat w :: u16) 11 5 = of_nat (y div 65536)"
    by (simp_all add: bits_of_nat)
  then show ?thesis
    by (simp add: dec_HO_DATA_def enc_HO_def w_def [symmetric] layout_simps le_word_def del: le_bytes.simps)
qed

lemma of_nat_split: "(of_nat (n div k) * of_nat k + of_nat (n mod k) :: 'a::len word) = of_nat n"
  by (simp only: of_nat_mult [symmetric] of_nat_add [symmetric] div_mult_mod_eq)

lemma quota_value:
  assumes "y < 2 ^ 21"
  shows "ucast (of_nat (y div 65536) :: u16) * 65536 + ucast (of_nat (y mod 65536) :: u16) = (of_nat y :: u32)"
proof -
  have u: "ucast (of_nat k :: u16) = (of_nat k :: u32)" if "k < 65536" for k
    using that by (simp add: unsigned_of_nat take_bit_eq_mod)
  have "y div 65536 < 65536" using assms by (auto intro!: less_mult_imp_div_less)
  then show ?thesis using of_nat_split [of y 65536] by (simp add: u)
qed

lemma quota_escape:
  assumes "x < 2 ^ 21"
  shows "(of_nat (x div 65536) :: u16) = 0x1F \<and> (of_nat (x mod 65536) :: u16) = 0xFFFF \<longleftrightarrow> x = 2 ^ 21 - 1"
proof -
  have u: "(of_nat k :: u16) = of_nat j \<longleftrightarrow> k = j" if "k < 65536" "j < 65536" for k j
    using that by (simp add: of_nat_eq_iff [symmetric] word_unat_eq_iff unat_of_nat)
  have "x div 65536 < 65536" using assms by (auto intro!: less_mult_imp_div_less)
  then have "(of_nat (x div 65536) :: u16) = of_nat 31 \<and> (of_nat (x mod 65536) :: u16) = of_nat 65535 \<longleftrightarrow>
      x div 65536 = 31 \<and> x mod 65536 = 65535"
    by (subst (1 2) u) simp_all
  moreover have "x div 65536 = 31 \<and> x mod 65536 = 65535 \<longleftrightarrow> x = 2 ^ 21 - 1"
  proof
    assume "x div 65536 = 31 \<and> x mod 65536 = 65535"
    then have "x = 31 * 65536 + 65535" using div_mult_mod_eq [of x 65536] by (simp only:)
    then show "x = 2 ^ 21 - 1" by simp
  qed simp
  ultimately show ?thesis by simp
qed

definition pos_ext_bytes :: "(u32 \<times> u32) list \<Rightarrow> u8 list" where
  "pos_ext_bytes ps = concat (map (\<lambda>(a, b). le_bytes 4 (unat a) @ le_bytes 4 (unat b)) ps)"

lemma pos_ext_at:
  assumes "bytes_at (pos_ext_bytes ps) p f" and "i < length ps"
  shows "bytes_at (le_bytes 4 (unat (fst (ps ! i))) @ le_bytes 4 (unat (snd (ps ! i)))) (p + 8 * i) f"
  using assms
proof (induction ps arbitrary: p i)
  case (Cons q ps)
  then have "bytes_at (le_bytes 4 (unat (fst q)) @ le_bytes 4 (unat (snd q))) p f" "bytes_at (pos_ext_bytes ps) (p + 8) f"
    by (simp_all add: pos_ext_bytes_def split_beta bytes_at_append add.assoc)
  then show ?case using Cons.IH [of "p + 8" "i - 1"] Cons.prems(2) by (cases i) (simp_all add: add.assoc)
qed simp

lemma GetPosEx_entry:
  assumes "bytes_at (pos_ext_bytes ps) (unat (addr_pos_ext_ofs (m_addr_header h))) (fp h)"
    and "unat (addr_pos_ext_ofs (m_addr_header h)) + 8 * length ps < 2 ^ 31" and "i < length ps"
  shows "\<exists>f. GetPosEx (of_nat i) pX pY h = (Some (fst (ps ! i)), Some (snd (ps ! i)), h\<lparr>fp := f\<rparr>)"
proof -
  let ?o = "addr_pos_ext_ofs (m_addr_header h)" and ?x = "unat (fst (ps ! i))" and ?y = "unat (snd (ps ! i))"
  let ?p = "unat ?o + 8 * i"
  let ?f = "(fp h)\<lparr>fpos := ?p, feof := False\<rparr>"
  let ?g = "?f\<lparr>fpos := ?p + 4\<rparr>"
  have "?o + 4 * (of_nat i * 2) = of_nat ?p" by simp
  then have seek: "fseek_set (?o + 4 * (of_nat i * 2)) (fp h) = ?f"
    using fseek_set_of_nat [of ?p "fp h"] assms(2,3) by simp
  have at: "bytes_at (le_bytes 4 ?x) (fpos ?f) ?f" "bytes_at (le_bytes 4 ?y) (fpos ?g) ?g"
    using pos_ext_at [OF assms(1,3)] by (simp_all add: bytes_at_append)
  have "fread_into 4 le_word pX ?f = (Some (fst (ps ! i)), ?g)" "fread_into 4 le_word pY ?g = (Some (snd (ps ! i)), ?g\<lparr>fpos := ?p + 4 + 4\<rparr>)"
    using fread_into_at [OF at(1), of 4 le_word pX] fread_into_at [OF at(2), of 4 le_word pY] by simp_all
  then show ?thesis
    by (intro exI [of _ "?g\<lparr>fpos := ?p + 4 + 4\<rparr>"]) (simp only: GetPosEx_def Let_def seek prod.case)
qed

text \<open>C38: the record of a house holds its number and its position: the number comes back, and so does a position
  of 21 bits per coordinate.  When the first coordinate has its largest value, the second is the index of the
  position in the table of extended positions, which lies in the first 2 GB of the file.\<close>

theorem GetHoPos_stored:
  assumes "v < 2 ^ 14" "x < 2 ^ 21" "y < 2 ^ 21"
    and "bytes_at (pos_ext_bytes ps) (unat (addr_pos_ext_ofs (m_addr_header h))) (fp h)"
    and "unat (addr_pos_ext_ofs (m_addr_header h)) + 8 * length ps < 2 ^ 31"
    and "x = 2 ^ 21 - 1 \<longrightarrow> y < length ps"
  shows "GetHoValue (dec_HO_DATA (enc_HO v x y)) = of_nat v \<and>
    (\<exists>f. GetHoPos (dec_HO_DATA (enc_HO v x y)) pX pY h =
       (if x = 2 ^ 21 - 1 then (Some (fst (ps ! y)), Some (snd (ps ! y)), h\<lparr>fp := f\<rparr>)
        else (Some (of_nat x), Some (of_nat y), h)))"
proof -
  have "(of_nat (v div 256) :: u16) * 256 + ucast (of_nat (v mod 256) :: u8) = of_nat v"
    using of_nat_split [of v 256, where 'a = 16] by (simp add: unsigned_of_nat take_bit_eq_mod)
  then have "GetHoValue (dec_HO_DATA (enc_HO v x y)) = of_nat v"
    by (simp add: dec_enc_HO [OF assms(1-3)] GetHoValue_def)
  moreover have "GetHoPos (dec_HO_DATA (enc_HO v x y)) pX pY h =
      (if x = 2 ^ 21 - 1 then GetPosEx (of_nat y) pX pY h else (Some (of_nat x), Some (of_nat y), h))"
    unfolding dec_enc_HO [OF assms(1-3)] GetHoPos_def
    by (simp only: HO_DATA.simps quota_escape [OF assms(2)] quota_value [OF assms(2)] quota_value [OF assms(3)])
  ultimately show ?thesis using GetPosEx_entry [OF assms(4,5), of y pX pY] assms(6) by auto
qed

definition pos_helper :: CUmSearchHelper where
  "pos_helper = (empty_helper (fopen_rb (pos_ext_bytes [(7, 8), (40000000, 30000000)])))\<lparr>m_addr_header :=
     (m_addr_header (empty_helper (fopen_rb [])))\<lparr>addr_pos_ext_ofs := 0\<rparr>\<rparr>"

theorem GetHoPos_stored_witness:
  "GetHoValue (dec_HO_DATA (enc_HO 1000 70000 131072)) = 1000 \<and>
   GetHoPos (dec_HO_DATA (enc_HO 1000 70000 131072)) None None pos_helper = (Some 70000, Some 131072, pos_helper) \<and>
   (\<exists>f. GetHoPos (dec_HO_DATA (enc_HO 1000 2097151 1)) None None pos_helper =
     (Some 40000000, Some 30000000, pos_helper\<lparr>fp := f\<rparr>))"
proof -
  have "bytes_at (pos_ext_bytes [(7, 8), (40000000, 30000000)]) (unat (addr_pos_ext_ofs (m_addr_header pos_helper))) (fp pos_helper)"
    "addr_pos_ext_ofs (m_addr_header pos_helper) = 0"
    by (simp_all add: pos_helper_def bytes_at_def)
  then show ?thesis
    using GetHoPos_stored [of 1000 70000 131072 "[(7, 8), (40000000, 30000000)]" pos_helper None None]
      GetHoPos_stored [of 1000 2097151 1 "[(7, 8), (40000000, 30000000)]" pos_helper None None] by simp
qed

end
