(* ===== verification/Float_Round.thy ===== *)
theory Float_Round
  imports Complex_Main
begin

text \<open>
  The arithmetic of \<^verbatim>\<open>float\<close> and \<^verbatim>\<open>double\<close> as the sources use it: every operation yields the exact
  result rounded to the precision of the type (24 or 53 bits), to the nearest value and to an even
  significand when two are equally near.  Operands and results are rational numbers; in the places
  where this theory is used they are zero or between \<open>2\<^sup>-\<^sup>6\<^sup>4\<close> and \<open>2\<^sup>6\<^sup>5\<close> in magnitude, far from the
  limits of the exponents, so no exponent range is part of the model.

  The locale \<open>rounding\<close> states what the clients rely on: rounding is monotone and keeps the
  integers that the precision can hold.
\<close>

function ilog2 :: "int \<Rightarrow> int" where
  "ilog2 n = (if n < 2 then 0 else ilog2 (n div 2) + 1)"
  by pat_completeness auto
termination
  by (relation "measure nat") auto

declare ilog2.simps [simp del]

text \<open>The exponent \<open>e\<close> with \<open>2\<^sup>e \<le> x < 2\<^sup>e\<^sup>+\<^sup>1\<close> of a positive number.\<close>

definition exponent :: "rat \<Rightarrow> int" where
  "exponent x =
     (case quotient_of x of (n, d) \<Rightarrow>
        let k = ilog2 n - ilog2 d
        in if x < 2 powi k then k - 1 else k)"

definition nearest_even :: "rat \<Rightarrow> int" where
  "nearest_even x =
     (let n = \<lfloor>x\<rfloor>; r = x - of_int n
      in if r < 1 / 2 then n else if r > 1 / 2 then n + 1 else if even n then n else n + 1)"

definition round_pos :: "nat \<Rightarrow> rat \<Rightarrow> rat" where
  "round_pos p x =
     (let s = 2 powi (int p - 1 - exponent x) in of_int (nearest_even (x * s)) / s)"

definition fp_round :: "nat \<Rightarrow> rat \<Rightarrow> rat" where
  "fp_round p x = (if x = 0 then 0 else if x < 0 then - round_pos p (- x) else round_pos p x)"

definition to_float :: "rat \<Rightarrow> rat" where
  "to_float = fp_round 24"

definition to_double :: "rat \<Rightarrow> rat" where
  "to_double = fp_round 53"

section \<open>The interface\<close>

lemma slope_between_pos:
  fixes dx dy q :: int
  assumes "0 \<le> dy" "dy \<le> q" "0 < q"
  shows "of_int (min 0 dx) \<le> (of_int (dx * dy) / of_int q :: rat)" "of_int (dx * dy) / of_int q \<le> (of_int (max 0 dx) :: rat)"
proof -
  have "min 0 dx * q \<le> dx * dy" "dx * dy \<le> max 0 dx * q"
    using assms by (cases "0 \<le> dx"; simp add: mult_left_mono mult_left_mono_neg mult_nonpos_nonneg min_def max_def)+
  then have "of_int (min 0 dx * q) \<le> (of_int (dx * dy) :: rat)" "(of_int (dx * dy) :: rat) \<le> of_int (max 0 dx * q)"
    by (simp_all only: of_int_le_iff)
  then show "of_int (min 0 dx) \<le> (of_int (dx * dy) / of_int q :: rat)" "of_int (dx * dy) / of_int q \<le> (of_int (max 0 dx) :: rat)"
    using assms by (simp_all add: field_simps)
qed

lemma slope_between:
  fixes dx dy q :: int
  assumes "0 \<le> dy \<and> dy \<le> q \<and> 0 < q \<or> dy \<le> 0 \<and> q \<le> dy \<and> q < 0"
  shows "of_int (min 0 dx) \<le> (of_int (dx * dy) / of_int q :: rat)" "of_int (dx * dy) / of_int q \<le> (of_int (max 0 dx) :: rat)"
  using assms slope_between_pos [of dy q dx] slope_between_pos [of "- dy" "- q" dx] by auto

locale rounding =
  fixes rnd :: "rat \<Rightarrow> rat" and limit :: int
  assumes rnd_mono: "x \<le> y \<Longrightarrow> rnd x \<le> rnd y"
    and rnd_int: "\<bar>n\<bar> \<le> limit \<Longrightarrow> rnd (of_int n) = of_int n"
begin

lemma rnd_le_int: "x \<le> of_int n \<Longrightarrow> \<bar>n\<bar> \<le> limit \<Longrightarrow> rnd x \<le> of_int n"
  using rnd_mono [of x "of_int n"] by (simp add: rnd_int)

lemma rnd_ge_int: "of_int n \<le> x \<Longrightarrow> \<bar>n\<bar> \<le> limit \<Longrightarrow> of_int n \<le> rnd x"
  using rnd_mono [of "of_int n" x] by (simp add: rnd_int)

text \<open>The interpolated abscissa of an edge stays between the ends of the edge, whatever the
  roundings on the way, as long as the products of the coordinates are exact.\<close>

lemma interpolation_between:
  fixes dx dy q xi :: int
  assumes q: "0 \<le> dy \<and> dy \<le> q \<and> 0 < q \<or> dy \<le> 0 \<and> q \<le> dy \<and> q < 0" and lim: "\<bar>dx\<bar> * \<bar>q\<bar> \<le> limit"
    and lo: "lo \<le> xi" "lo \<le> xi + dx" and hi: "xi \<le> hi" "xi + dx \<le> hi" and "\<bar>lo\<bar> \<le> limit" "\<bar>hi\<bar> \<le> limit"
  shows "of_int lo \<le> rnd (rnd (rnd (of_int dx * of_int dy) / of_int q) + of_int xi)"
    and "rnd (rnd (rnd (of_int dx * of_int dy) / of_int q) + of_int xi) \<le> of_int hi"
proof -
  have "\<bar>dx\<bar> * \<bar>dy\<bar> \<le> \<bar>dx\<bar> * \<bar>q\<bar>" using q by (intro mult_left_mono) auto
  then have "rnd (of_int (dx * dy)) = of_int (dx * dy)"
    using lim by (intro rnd_int) (simp add: abs_mult)
  then have prod: "rnd (of_int dx * of_int dy) = of_int (dx * dy)" by simp
  have "\<bar>dx\<bar> * 1 \<le> \<bar>dx\<bar> * \<bar>q\<bar>" using q by (intro mult_left_mono) auto
  then have "\<bar>min 0 dx\<bar> \<le> limit" "\<bar>max 0 dx\<bar> \<le> limit" using lim by auto
  note ends = rnd_ge_int [OF slope_between(1) [OF q] this(1)] rnd_le_int [OF slope_between(2) [OF q] this(2)]
  let ?t = "of_int (dx * dy) / of_int q :: rat"
  have "of_int lo \<le> (of_int (min 0 dx + xi) :: rat)" "of_int (max 0 dx + xi) \<le> (of_int hi :: rat)"
    using lo hi by (simp_all only: of_int_le_iff)
  with ends have "of_int lo \<le> rnd ?t + of_int xi" "rnd ?t + of_int xi \<le> of_int hi"
    unfolding of_int_add by linarith+
  then show "of_int lo \<le> rnd (rnd (rnd (of_int dx * of_int dy) / of_int q) + of_int xi)"
    "rnd (rnd (rnd (of_int dx * of_int dy) / of_int q) + of_int xi) \<le> of_int hi"
    unfolding prod using assms(7,8) by (auto intro!: rnd_ge_int rnd_le_int)
qed

end

section \<open>Rounding to a precision implements it\<close>

lemma ilog2_bounds: "0 < n \<Longrightarrow> 0 \<le> ilog2 n \<and> 2 ^ nat (ilog2 n) \<le> n \<and> n < 2 ^ (nat (ilog2 n) + 1)"
proof (induction n rule: ilog2.induct)
  case (1 n)
  show ?case
  proof (cases "n < 2")
    case True
    with 1(2) show ?thesis by (simp add: ilog2.simps)
  next
    case False
    then have "0 \<le> ilog2 (n div 2) \<and> 2 ^ nat (ilog2 (n div 2)) \<le> n div 2 \<and> n div 2 < 2 ^ (nat (ilog2 (n div 2)) + 1)"
      using 1 by simp
    moreover have "ilog2 n = ilog2 (n div 2) + 1"
      using False by (simp add: ilog2.simps [of n])
    ultimately show ?thesis by (simp add: nat_add_distrib) linarith
  qed
qed

lemma exponent_bounds:
  assumes "0 < x"
  shows "2 powi exponent x \<le> x \<and> x < 2 powi (exponent x + 1)"
proof -
  obtain n d where q: "quotient_of x = (n, d)" by fastforce
  then have x: "x = of_int n / of_int d" and d: "0 < d"
    by (rule quotient_of_div, rule quotient_of_denom_pos)
  with assms have n: "0 < n" by (simp add: zero_less_divide_iff)
  define a b where ab: "a = nat (ilog2 n)" "b = nat (ilog2 d)"
  have "2 ^ a \<le> n" "n < 2 ^ (a + 1)" "2 ^ b \<le> d" "d < 2 ^ (b + 1)" and ab_int: "int a = ilog2 n" "int b = ilog2 d"
    using ilog2_bounds [of n] ilog2_bounds [of d] n d by (simp_all add: ab)
  then have r: "2 ^ a \<le> (of_int n :: rat)" "(of_int n :: rat) < 2 ^ (a + 1)" "2 ^ b \<le> (of_int d :: rat)" "(of_int d :: rat) < 2 ^ (b + 1)"
    by (metis of_int_le_iff of_int_less_iff of_int_numeral of_int_power)+
  define k where k: "k = int a - int b"
  have "(2::rat) powi (k - 1) = 2 ^ a / 2 ^ (b + 1)" "(2::rat) powi (k + 1) = 2 ^ (a + 1) / 2 ^ b"
    by (simp_all add: k power_int_diff power_int_add)
  moreover have "2 ^ a / 2 ^ (b + 1) \<le> x" "x < 2 ^ (a + 1) / 2 ^ b"
    unfolding x using r d n by (auto intro!: frac_le frac_less)
  ultimately have "2 powi (k - 1) \<le> x" "x < 2 powi (k + 1)" by simp_all
  moreover have "exponent x = (if x < 2 powi k then k - 1 else k)"
    by (simp add: exponent_def q ab_int k Let_def)
  ultimately show ?thesis by (simp split: if_split)
qed

lemma exponent_mono:
  assumes "0 < x" and "x \<le> y"
  shows "exponent x \<le> exponent y"
proof (rule ccontr)
  assume "\<not> ?thesis"
  then have "(2::rat) powi (exponent y + 1) \<le> 2 powi exponent x"
    by (intro power_int_increasing) auto
  with exponent_bounds [of x] exponent_bounds [of y] assms show False by linarith
qed

lemma nearest_even_mono:
  assumes "x \<le> y"
  shows "nearest_even x \<le> nearest_even y"
proof (cases "\<lfloor>x\<rfloor> = \<lfloor>y\<rfloor>")
  case True
  with assms show ?thesis by (auto simp: nearest_even_def Let_def)
next
  case False
  with assms have "\<lfloor>x\<rfloor> + 1 \<le> \<lfloor>y\<rfloor>"
    using floor_mono [OF assms] by simp
  moreover have "nearest_even x \<le> \<lfloor>x\<rfloor> + 1" "\<lfloor>y\<rfloor> \<le> nearest_even y"
    by (simp_all add: nearest_even_def Let_def)
  ultimately show ?thesis by linarith
qed

lemma nearest_even_int [simp]: "nearest_even (of_int n) = n"
  by (simp add: nearest_even_def)

lemma nearest_even_power: "nearest_even (2 ^ k) = 2 ^ k"
  using nearest_even_int [of "2 ^ k"] by simp

lemma powi_nat: "0 < p \<Longrightarrow> (2::rat) powi (int p - 1) = 2 ^ (p - 1)"
  by (simp add: power_int_def nat_diff_distrib)

lemma round_pos_between:
  assumes "0 < x" and "0 < p"
  shows "2 powi exponent x \<le> round_pos p x" and "round_pos p x \<le> 2 powi (exponent x + 1)"
proof -
  define s where s: "s = (2::rat) powi (int p - 1 - exponent x)"
  then have pos: "0 < s" by simp
  have lo: "2 powi exponent x * s = 2 ^ (p - 1)"
    unfolding s using assms(2) by (simp flip: power_int_add add: powi_nat)
  have hi: "2 powi (exponent x + 1) * s = 2 ^ p"
    unfolding s by (simp flip: power_int_add)
  have "2 ^ (p - 1) \<le> x * s" "x * s \<le> 2 ^ p"
    unfolding lo [symmetric] hi [symmetric] using exponent_bounds [OF assms(1)] pos by simp_all
  then have "2 ^ (p - 1) \<le> nearest_even (x * s)" "nearest_even (x * s) \<le> 2 ^ p"
    using nearest_even_mono [of "2 ^ (p - 1)" "x * s"] nearest_even_mono [of "x * s" "2 ^ p"]
    by (simp_all add: nearest_even_power)
  then have "of_int (2 ^ (p - 1)) \<le> (of_int (nearest_even (x * s)) :: rat)" "of_int (nearest_even (x * s)) \<le> (of_int (2 ^ p) :: rat)"
    by (simp_all only: of_int_le_iff)
  then show "2 powi exponent x \<le> round_pos p x" "round_pos p x \<le> 2 powi (exponent x + 1)"
    unfolding round_pos_def Let_def s [symmetric] using pos lo hi by (simp_all add: field_simps)
qed

lemma round_pos_mono:
  assumes "0 < x" and "x \<le> y" and "0 < p"
  shows "round_pos p x \<le> round_pos p y"
proof (cases "exponent x = exponent y")
  case True
  have "(0::rat) < 2 powi (int p - 1 - exponent y)" by simp
  with True assms(2) show ?thesis
    by (simp add: round_pos_def Let_def divide_right_mono nearest_even_mono)
next
  case False
  then have "exponent x + 1 \<le> exponent y"
    using exponent_mono [OF assms(1,2)] by simp
  then have "(2::rat) powi (exponent x + 1) \<le> 2 powi exponent y"
    by (intro power_int_increasing) auto
  with round_pos_between [of x p] round_pos_between [of y p] assms show ?thesis by linarith
qed

lemma round_pos_exact:
  assumes "x * 2 powi (int p - 1 - exponent x) = of_int m"
  shows "round_pos p x = x"
proof -
  have "(2::rat) powi (int p - 1 - exponent x) \<noteq> 0" by simp
  then show ?thesis
    unfolding round_pos_def Let_def assms nearest_even_int unfolding assms [symmetric] by (rule nonzero_mult_div_cancel_right)
qed

lemma round_pos_int:
  assumes "0 < n" and "n \<le> 2 ^ p" and "0 < p"
  shows "round_pos p (of_int n) = of_int n"
proof -
  let ?e = "exponent (of_int n)"
  have b: "2 powi ?e \<le> (of_int n :: rat)" "of_int n < (2::rat) powi (?e + 1)"
    using exponent_bounds [of "of_int n"] assms(1) by simp_all
  have np: "(of_int n :: rat) \<le> 2 powi int p"
    using assms(2) by (metis of_int_le_iff of_int_numeral of_int_power power_int_of_nat)
  have e: "?e \<le> int p"
    by (rule power_int_le_imp_le_exp [OF _ order_trans [OF b(1) np]]) simp_all
  show ?thesis
  proof (cases "?e = int p")
    case True
    with b np have "(of_int n :: rat) = 2 ^ p" by simp
    then have "of_int n * 2 powi (int p - 1 - ?e) = (of_int (2 ^ (p - 1)) :: rat)"
      using True assms(3) by (cases p) simp_all
    then show ?thesis by (rule round_pos_exact)
  next
    case False
    then have "of_int n * 2 powi (int p - 1 - ?e) = (of_int (n * 2 ^ nat (int p - 1 - ?e)) :: rat)"
      using e by (simp add: power_int_def)
    then show ?thesis by (rule round_pos_exact)
  qed
qed

lemma round_pos_positive: "0 < x \<Longrightarrow> 0 < p \<Longrightarrow> 0 < round_pos p x"
  using round_pos_between(1) [of x p] by (meson less_le_trans zero_less_numeral zero_less_power_int)

lemma fp_round_rounding:
  assumes "0 < p"
  shows "rounding (fp_round p) (2 ^ p)"
proof
  fix x y :: rat
  assume "x \<le> y"
  then show "fp_round p x \<le> fp_round p y"
    using round_pos_mono [of x y p] round_pos_mono [of "- y" "- x" p] round_pos_positive [of y p]
      round_pos_positive [of "- x" p] assms
    by (auto simp: fp_round_def)
next
  fix n :: int
  assume "\<bar>n\<bar> \<le> 2 ^ p"
  then show "fp_round p (of_int n) = of_int n"
    using round_pos_int [of n p] round_pos_int [of "- n" p] assms by (auto simp: fp_round_def)
qed

interpretation dbl: rounding to_double "2 ^ 53"
  unfolding to_double_def by (rule fp_round_rounding) simp

interpretation flt: rounding to_float "2 ^ 24"
  unfolding to_float_def by (rule fp_round_rounding) simp

end
