(* ===== verification/Admin_Bound.thy ===== *)
theory Admin_Bound
  imports Float_Round Search_Data
begin

text \<open>
  \<^verbatim>\<open>CAdminBoundManager\<close> (\<^verbatim>\<open>AdminBoundManager.h\<close>, \<^verbatim>\<open>AdminBoundManager.cpp\<close>): the outlines of the
  administrative districts.  The file lists provinces, their cities and their districts, each with a
  bounding rectangle; a district also has a polygon.  \<open>findBound\<close> looks for the district around a
  position and \<open>if_changed_hcode\<close> reports which parts of its code differ from the last report.
\<close>

section \<open>Records of the file\<close>

datatype HCODE = HCODE (hc_sido: u8) (hc_gugun: u32) (hc_dong: u32)

definition HCODE_new :: HCODE where
  "HCODE_new = HCODE 0 0 0"

definition isNull :: "HCODE \<Rightarrow> bool" where
  "isNull h \<longleftrightarrow> hc_sido h = 0 \<and> hc_gugun h = 0 \<and> hc_dong h = 0"

definition dec_HCODE :: "u8 list \<Rightarrow> HCODE" where
  "dec_HCODE bs = (let w = field bs 1 4 :: u32 in HCODE (field bs 0 1) (bits w 0 12) (bits w 12 20))"

definition HCODE_less :: "HCODE \<Rightarrow> HCODE \<Rightarrow> bool" where
  "HCODE_less a h =
     (if hc_sido a < hc_sido h then True
      else if hc_sido a = hc_sido h then
        (if hc_gugun a < hc_gugun h then True
         else if hc_gugun a = hc_gugun h then (if hc_dong a < hc_dong h then True else False)
         else False)
      else False)"

text \<open>West, north, east and south of a rectangle.\<close>

datatype BOUND = BOUND (left: u32) (top: u32) (right: u32) (bottom: u32)

definition dec_BOUND :: "u8 list \<Rightarrow> BOUND" where
  "dec_BOUND bs = BOUND (field bs 0 4) (field bs 4 4) (field bs 8 4) (field bs 12 4)"

definition llInBound :: "BOUND \<Rightarrow> u32 \<Rightarrow> u32 \<Rightarrow> bool" where
  "llInBound b lat lon \<longleftrightarrow> left b \<le> lon \<and> lon \<le> right b \<and> bottom b \<le> lat \<and> lat \<le> top b"

definition BOUND_less :: "BOUND \<Rightarrow> BOUND \<Rightarrow> bool" where
  "BOUND_less a b =
     (if left a < left b then True
      else if left a = left b then
        (if top a < top b then True
         else if top a = top b then
           (if right a < right b then True
            else if right a = right b then (if bottom a < bottom b then True else False)
            else False)
         else False)
      else False)"

record PARENT_BOUND =
  pbound :: BOUND
  child_num :: u8

definition dec_PARENT_BOUND :: "u8 list \<Rightarrow> PARENT_BOUND" where
  "dec_PARENT_BOUND bs = \<lparr>pbound = dec_BOUND (take 16 bs), child_num = field bs 16 1\<rparr>"

record CHILD_BOUND =
  cbound :: BOUND
  cb_offset :: u32
  vtx_num :: u16
  hcode :: HCODE

definition dec_CHILD_BOUND :: "u8 list \<Rightarrow> CHILD_BOUND" where
  "dec_CHILD_BOUND bs =
     \<lparr>cbound = dec_BOUND (take 16 bs), cb_offset = field bs 16 4, vtx_num = field bs 20 2, hcode = dec_HCODE (drop 22 bs)\<rparr>"

datatype BOUND_VTX = BOUND_VTX (vx: u32) (vy: u32)

definition BOUND_VTX_new :: BOUND_VTX where
  "BOUND_VTX_new = BOUND_VTX 0 0"

definition dec_BOUND_VTX :: "u8 list \<Rightarrow> BOUND_VTX" where
  "dec_BOUND_VTX bs = BOUND_VTX (field bs 0 4) (field bs 4 4)"

definition BOUND_VTX_less :: "BOUND_VTX \<Rightarrow> BOUND_VTX \<Rightarrow> bool" where
  "BOUND_VTX_less a v =
     (if vx a < vx v then True
      else if vx a = vx v then (if vy a < vy v then True else False)
      else False)"

text \<open>The keys of the maps are ordered by the operators of the classes.\<close>

instantiation HCODE :: linorder
begin

definition less_HCODE :: "HCODE \<Rightarrow> HCODE \<Rightarrow> bool" where
  "less_HCODE = HCODE_less"

definition less_eq_HCODE :: "HCODE \<Rightarrow> HCODE \<Rightarrow> bool" where
  "less_eq_HCODE a b \<longleftrightarrow> HCODE_less a b \<or> a = b"

instance
  by standard (auto simp: less_HCODE_def less_eq_HCODE_def HCODE_less_def intro: HCODE.expand split: if_splits)

end

instantiation BOUND_VTX :: linorder
begin

definition less_BOUND_VTX :: "BOUND_VTX \<Rightarrow> BOUND_VTX \<Rightarrow> bool" where
  "less_BOUND_VTX = BOUND_VTX_less"

definition less_eq_BOUND_VTX :: "BOUND_VTX \<Rightarrow> BOUND_VTX \<Rightarrow> bool" where
  "less_eq_BOUND_VTX a b \<longleftrightarrow> BOUND_VTX_less a b \<or> a = b"

instance
  by standard (auto simp: less_BOUND_VTX_def less_eq_BOUND_VTX_def BOUND_VTX_less_def intro: BOUND_VTX.expand split: if_splits)

end

instantiation BOUND :: linorder
begin

definition less_BOUND :: "BOUND \<Rightarrow> BOUND \<Rightarrow> bool" where
  "less_BOUND = BOUND_less"

definition less_eq_BOUND :: "BOUND \<Rightarrow> BOUND \<Rightarrow> bool" where
  "less_eq_BOUND a b \<longleftrightarrow> BOUND_less a b \<or> a = b"

instance
  by standard (auto simp: less_BOUND_def less_eq_BOUND_def BOUND_less_def intro: BOUND.expand split: if_splits)

end

type_synonym DongAdminMap = "(BOUND, CHILD_BOUND) std_map"
type_synonym GunGuAdminMap = "(BOUND, DongAdminMap) std_map"
type_synonym SidoAdminMap = "(BOUND, GunGuAdminMap) std_map"

record CAdminBoundManager =
  m_AdminBoundaryMap :: SidoAdminMap
  m_hCode :: HCODE
  m_tmpHCode :: HCODE
  m_pFile :: "cfile option"

definition CAdminBoundManager_new :: CAdminBoundManager where
  "CAdminBoundManager_new = \<lparr>m_AdminBoundaryMap = [], m_hCode = HCODE_new, m_tmpHCode = HCODE_new, m_pFile = None\<rparr>"

section \<open>Reading the file\<close>

text \<open>Every loop ends early (\<open>None\<close>, or \<open>False\<close>) when a record is incomplete.  An entry whose
  rectangle is already a key of its map is dropped, as \<^verbatim>\<open>std::map::insert\<close> does.\<close>

fun Create_dong :: "nat \<Rightarrow> DongAdminMap \<Rightarrow> cfile \<Rightarrow> DongAdminMap option \<times> cfile" where
  "Create_dong 0 dong_map f = (Some dong_map, f)"
| "Create_dong (Suc k) dong_map f =
     (case fread_into 27 dec_CHILD_BOUND None f of
        (None, f1) \<Rightarrow> (None, f1)
      | (Some dong_bound, f1) \<Rightarrow> Create_dong k (map_insert (cbound dong_bound) dong_bound dong_map) f1)"

fun Create_gugun :: "nat \<Rightarrow> GunGuAdminMap \<Rightarrow> cfile \<Rightarrow> GunGuAdminMap option \<times> cfile" where
  "Create_gugun 0 gugun_map f = (Some gugun_map, f)"
| "Create_gugun (Suc k) gugun_map f =
     (case fread_into 17 dec_PARENT_BOUND None f of
        (None, f1) \<Rightarrow> (None, f1)
      | (Some gugun_bound, f1) \<Rightarrow>
          (case Create_dong (unat (child_num gugun_bound)) [] f1 of
             (None, f2) \<Rightarrow> (None, f2)
           | (Some dong_map, f2) \<Rightarrow> Create_gugun k (map_insert (pbound gugun_bound) dong_map gugun_map) f2))"

fun Create_sido :: "nat \<Rightarrow> SidoAdminMap \<Rightarrow> cfile \<Rightarrow> bool \<times> SidoAdminMap \<times> cfile" where
  "Create_sido 0 sido_map f = (True, sido_map, f)"
| "Create_sido (Suc k) sido_map f =
     (case fread_into 17 dec_PARENT_BOUND None f of
        (None, f1) \<Rightarrow> (False, sido_map, f1)
      | (Some sido_bound, f1) \<Rightarrow>
          (case Create_gugun (unat (child_num sido_bound)) [] f1 of
             (None, f2) \<Rightarrow> (False, sido_map, f2)
           | (Some gugun_map, f2) \<Rightarrow> Create_sido k (map_insert (pbound sido_bound) gugun_map sido_map) f2))"

text \<open>The file header is read and not used.\<close>

definition Create_tables :: "cfile \<Rightarrow> CAdminBoundManager \<Rightarrow> bool \<times> CAdminBoundManager" where
  "Create_tables f mgr =
     (case fread_into 60 (\<lambda>_. ()) None (fseek_set 0 f) of
        (None, f1) \<Rightarrow> (False, mgr\<lparr>m_pFile := Some f1\<rparr>)
      | (Some _, f1) \<Rightarrow>
          (case fread_into 4 (le_word :: u8 list \<Rightarrow> u32) None f1 of
             (None, f2) \<Rightarrow> (False, mgr\<lparr>m_pFile := Some f2\<rparr>)
           | (Some sido_num, f2) \<Rightarrow>
               (case Create_sido (unat sido_num) (m_AdminBoundaryMap mgr) f2 of
                  (ok, sido_map, f3) \<Rightarrow> (ok, mgr\<lparr>m_AdminBoundaryMap := sido_map, m_pFile := Some f3\<rparr>))))"

definition Admin_Create :: "file_system \<Rightarrow> string \<Rightarrow> CAdminBoundManager \<Rightarrow> (bool \<times> CAdminBoundManager) comp" where
  "Admin_Create fs filepath mgr =
     (let mgr0 = mgr\<lparr>m_AdminBoundaryMap := []\<rparr> in
      bindc (file_name filepath []) (\<lambda>path0.
      bindc (if filepath = [] then fail OutOfRange
             else if last filepath \<noteq> CHR ''/'' then file_name path0 ''/'' else ret path0) (\<lambda>m_strPath.
      bindc (file_name m_strPath ''admin_bound.dat'') (\<lambda>strTemp.
        case fs strTemp of
          None \<Rightarrow> ret (False, mgr0\<lparr>m_pFile := None\<rparr>)
        | Some bs \<Rightarrow> ret (Create_tables (fopen_rb bs) mgr0)))))"

definition Admin_Release :: "CAdminBoundManager \<Rightarrow> CAdminBoundManager" where
  "Admin_Release mgr = mgr\<lparr>m_AdminBoundaryMap := [], m_pFile := None\<rparr>"

section \<open>Point in polygon\<close>

text \<open>\<open>edge_crossed\<close>: the ray from \<^verbatim>\<open>( lon, lat )\<close> to the east meets the edge from \<open>a\<close> to \<open>b\<close>.  Differences
  of coordinates are exact in a \<^verbatim>\<open>double\<close>; the products, the quotient and the sum are rounded.\<close>

definition coord :: "u32 \<Rightarrow> rat" where
  "coord w = of_int (uint w)"

definition edge_crossed :: "BOUND_VTX \<Rightarrow> BOUND_VTX \<Rightarrow> u32 \<Rightarrow> u32 \<Rightarrow> bool" where
  "edge_crossed vi vj lat lon =
     (let dbLat = coord lat; dbLon = coord lon; Xi = coord (vx vi); Yi = coord (vy vi); Xj = coord (vx vj); Yj = coord (vy vj)
      in ((Yi \<le> dbLat \<and> dbLat < Yj) \<or> (Yj \<le> dbLat \<and> dbLat < Yi)) \<and>
         dbLon < to_double (to_double (to_double (to_double (Xj - Xi) * to_double (dbLat - Yi)) / to_double (Yj - Yi)) + Xi))"

text \<open>The cells of the array are indeterminate where the file ended inside a vertex.\<close>

type_synonym vtx_cells = "BOUND_VTX option list"

definition vtx_at :: "vtx_cells \<Rightarrow> nat \<Rightarrow> BOUND_VTX comp" where
  "vtx_at pVertex i = bindc (Prelude.at pVertex i) need"

fun llInBoundary_loop :: "nat \<Rightarrow> nat \<Rightarrow> nat \<Rightarrow> vtx_cells \<Rightarrow> u32 \<Rightarrow> u32 \<Rightarrow> bool \<Rightarrow> bool comp" where
  "llInBoundary_loop 0 i j pVertex lat lon check = ret check"
| "llInBoundary_loop (Suc k) i j pVertex lat lon check =
     bindc (vtx_at pVertex i) (\<lambda>vi. bindc (vtx_at pVertex j) (\<lambda>vj.
       llInBoundary_loop k (i + 1) i pVertex lat lon (if edge_crossed vi vj lat lon then \<not> check else check)))"

definition llInBoundary :: "vtx_cells \<Rightarrow> nat \<Rightarrow> u32 \<Rightarrow> u32 \<Rightarrow> bool comp" where
  "llInBoundary pVertex n lat lon = llInBoundary_loop n 0 (n - 1) pVertex lat lon False"

text \<open>The intersection of an edge with a parallel.  Conversions to \<^verbatim>\<open>int\<close> keep the bits; the operations
  on \<^verbatim>\<open>int\<close> may overflow, and the conversion back to \<^verbatim>\<open>u32\<close> is undefined outside the range of the type.\<close>

definition int_op :: "int \<Rightarrow> int comp" where
  "int_op n = (if - (2 ^ 31) \<le> n \<and> n < 2 ^ 31 then ret n else fail IntOverflow)"

definition getIntersectVertex :: "BOUND_VTX \<Rightarrow> BOUND_VTX \<Rightarrow> u32 \<Rightarrow> BOUND_VTX comp" where
  "getIntersectVertex a_vtx b_vtx lat =
     (if lat = vy a_vtx then ret (BOUND_VTX (vx a_vtx) lat)
      else if lat = vy b_vtx then ret (BOUND_VTX (vx b_vtx) lat)
      else
        (let a = sint (lat - vy a_vtx); b = sint (vx b_vtx - vx a_vtx)
         in bindc (int_op (sint (vy b_vtx) - sint (vy a_vtx))) (\<lambda>dy.
            let c = to_float (of_int dy)
            in bindc (int_op (a * b)) (\<lambda>ab.
               if c = 0 then fail OutOfRange
               else
                 (let s = to_float (to_float (coord (vx a_vtx)) + to_float (to_float (of_int ab) / c));
                      r = to_double (s + 1 / 2)
                  in if - 1 < r \<and> r < 2 ^ 32
                     then ret (BOUND_VTX (of_int (if r < 0 then 0 else \<lfloor>r\<rfloor>)) lat)
                     else fail OutOfRange)))))"

section \<open>Finding the district of a position\<close>

text \<open>The variables of \<open>findBound\<close>: \<^verbatim>\<open>goto func_exit\<close> was executed, \<^verbatim>\<open>hcode\<close>, \<^verbatim>\<open>pVertex\<close> (with
  \<^verbatim>\<open>nVertexSize\<close> its length) and the stream.\<close>

record find_state =
  fs_exit :: bool
  fs_hcode :: HCODE
  fs_pVertex :: "vtx_cells option"
  fs_file :: cfile

definition fseek_cur :: "u32 \<Rightarrow> cfile \<Rightarrow> cfile" where
  "fseek_cur off f =
     (let p = int (fpos f) + sint off
      in if p < 0 \<or> 2 ^ 31 \<le> p then f else f\<lparr>fpos := nat p, feof := False\<rparr>)"

definition vertex_buffer :: "vtx_cells option \<Rightarrow> nat \<Rightarrow> vtx_cells" where
  "vertex_buffer pVertex n =
     (case pVertex of
        None \<Rightarrow> replicate n (Some BOUND_VTX_new)
      | Some v \<Rightarrow> if length v < n then replicate n (Some BOUND_VTX_new) else v)"

definition find_dong :: "CHILD_BOUND \<Rightarrow> u32 \<Rightarrow> u32 \<Rightarrow> find_state \<Rightarrow> find_state comp" where
  "find_dong d lat lon st =
     (let n = unat (vtx_num d); pVertex = vertex_buffer (fs_pVertex st) n;
          f = fseek_cur (cb_offset d - ftell (fs_file st)) (fs_file st)
      in bindc (fread_over 8 dec_BOUND_VTX n 0 pVertex f) (\<lambda>(pVertex1, f1).
           let st1 = st\<lparr>fs_pVertex := Some pVertex1, fs_file := f1\<rparr>
           in if n = 0 \<or> length (drop (fpos f) (fdata f)) < 8 then ret (st1\<lparr>fs_exit := True\<rparr>)
              else bindc (llInBoundary pVertex1 n lat lon) (\<lambda>b.
                     ret (if b then st1\<lparr>fs_hcode := hcode d, fs_exit := True\<rparr> else st1))))"

fun find_dongs :: "DongAdminMap \<Rightarrow> u32 \<Rightarrow> u32 \<Rightarrow> find_state \<Rightarrow> find_state comp" where
  "find_dongs [] lat lon st = ret st"
| "find_dongs ((b, d) # ds) lat lon st =
     (if llInBound b lat lon then
        bindc (find_dong d lat lon st) (\<lambda>st1. if fs_exit st1 then ret st1 else find_dongs ds lat lon st1)
      else find_dongs ds lat lon st)"

fun find_guguns :: "GunGuAdminMap \<Rightarrow> u32 \<Rightarrow> u32 \<Rightarrow> find_state \<Rightarrow> find_state comp" where
  "find_guguns [] lat lon st = ret st"
| "find_guguns ((b, ds) # gs) lat lon st =
     bindc (if llInBound b lat lon then find_dongs ds lat lon st else ret st) (\<lambda>st1.
       if fs_exit st1 \<or> \<not> isNull (fs_hcode st1) then ret st1 else find_guguns gs lat lon st1)"

fun find_sidos :: "SidoAdminMap \<Rightarrow> u32 \<Rightarrow> u32 \<Rightarrow> find_state \<Rightarrow> find_state comp" where
  "find_sidos [] lat lon st = ret st"
| "find_sidos ((b, gs) # ss) lat lon st =
     bindc (if llInBound b lat lon then find_guguns gs lat lon st else ret st) (\<lambda>st1.
       if fs_exit st1 \<or> \<not> isNull (fs_hcode st1) then ret st1 else find_sidos ss lat lon st1)"

text \<open>\<^verbatim>\<open>findBound( lat, lon, hcode )\<close>: the result, the code and the manager.\<close>

definition findBound_code :: "u32 \<Rightarrow> u32 \<Rightarrow> HCODE \<Rightarrow> CAdminBoundManager \<Rightarrow> (bool \<times> HCODE \<times> CAdminBoundManager) comp" where
  "findBound_code lat lon hc mgr =
     (case m_pFile mgr of
        None \<Rightarrow> ret (False, hc, mgr)
      | Some f \<Rightarrow>
          bindc (find_sidos (m_AdminBoundaryMap mgr) lat lon
                   \<lparr>fs_exit = False, fs_hcode = HCODE_new, fs_pVertex = None, fs_file = fseek_set 0 f\<rparr>) (\<lambda>st.
            ret (\<not> isNull (fs_hcode st), fs_hcode st, mgr\<lparr>m_pFile := Some (fs_file st)\<rparr>)))"

definition findBound :: "u32 \<Rightarrow> u32 \<Rightarrow> CAdminBoundManager \<Rightarrow> (bool \<times> CAdminBoundManager) comp" where
  "findBound lat lon mgr =
     bindc (findBound_code lat lon (m_tmpHCode mgr) mgr) (\<lambda>(b, hc, mgr1).
       if \<not> b then ret (False, mgr1\<lparr>m_tmpHCode := hc\<rparr>) else ret (False, mgr1\<lparr>m_tmpHCode := hc\<rparr>))"

section \<open>Reporting a change\<close>

definition SIDO_BIT :: u8 where "SIDO_BIT = 1"
definition SIGUNGU_BIT :: u8 where "SIGUNGU_BIT = 2"
definition DONG_BIT :: u8 where "DONG_BIT = 4"

definition if_changed_hcode :: "CAdminBoundManager \<Rightarrow> u8 \<times> CAdminBoundManager" where
  "if_changed_hcode mgr =
     (let hc = m_hCode mgr; tmp = m_tmpHCode mgr
      in if isNull hc then (SIDO_BIT OR SIGUNGU_BIT OR DONG_BIT, mgr\<lparr>m_hCode := tmp\<rparr>)
         else
           (let r1 = (if hc_sido hc \<noteq> hc_sido tmp then 0 OR SIDO_BIT else 0);
                r2 = (if hc_gugun hc \<noteq> hc_gugun tmp then r1 OR SIGUNGU_BIT else r1);
                r3 = (if hc_dong hc \<noteq> hc_dong tmp then r2 OR DONG_BIT else r2)
            in (r3, if r3 \<noteq> 0 then mgr\<lparr>m_hCode := tmp\<rparr> else mgr)))"

definition getHCode :: "CAdminBoundManager \<Rightarrow> HCODE" where
  "getHCode mgr = m_hCode mgr"

section \<open>The polygon test counts crossings\<close>

text \<open>The edges of a polygon, every vertex with its predecessor.\<close>

definition edges :: "BOUND_VTX list \<Rightarrow> (BOUND_VTX \<times> BOUND_VTX) list" where
  "edges vs = zip vs (last vs # butlast vs)"

definition inside :: "BOUND_VTX list \<Rightarrow> u32 \<Rightarrow> u32 \<Rightarrow> bool" where
  "inside vs lat lon = odd (length (filter (\<lambda>(v, w). edge_crossed v w lat lon) (edges vs)))"

lemma zip_prev_Cons: "zip (v # ws) (u # butlast (v # ws)) = (v, u) # zip ws (v # butlast ws)"
  by (cases ws) auto

lemma llInBoundary_loop_parity:
  assumes "take (length ws) (drop i pv) = map Some ws" and "vtx_at pv j = ret u"
  shows "llInBoundary_loop (length ws) i j pv lat lon c =
           ret (c \<noteq> odd (length (filter (\<lambda>(v, w). edge_crossed v w lat lon) (zip ws (u # butlast ws)))))"
  using assms
proof (induction ws arbitrary: i j u c)
  case (Cons v ws)
  have i: "i < length pv" using Cons.prems(1) by (cases "i < length pv") auto
  then have "drop i pv = pv ! i # drop (i + 1) pv" by (simp add: Cons_nth_drop_Suc)
  with Cons.prems(1) have v: "vtx_at pv i = ret v" and ws: "take (length ws) (drop (i + 1) pv) = map Some ws"
    using i by (simp_all add: vtx_at_def)
  show ?case
    unfolding zip_prev_Cons using Cons.IH [OF ws v] Cons.prems(2) v by auto
qed simp

lemma llInBoundary_inside:
  assumes "vs \<noteq> []"
  shows "llInBoundary (map Some vs @ rest) (length vs) lat lon = ret (inside vs lat lon)"
proof -
  have "vtx_at (map Some vs @ rest) (length vs - 1) = ret (last vs)"
    using assms by (cases vs rule: rev_cases) (simp_all add: vtx_at_def nth_append)
  from llInBoundary_loop_parity [OF _ this, of vs 0 lat lon False] show ?thesis
    by (simp add: llInBoundary_def inside_def edges_def)
qed

lemma straddle_parity:
  fixes P :: "'a \<Rightarrow> bool"
  shows "odd (length (filter (\<lambda>(v, w). P v \<noteq> P w) (zip ws (u # butlast ws)))) \<longleftrightarrow> ws \<noteq> [] \<and> P u \<noteq> P (last ws)"
proof (induction ws arbitrary: u)
  case (Cons v ws)
  have step: "odd (length (filter Q (x # xs))) \<longleftrightarrow> (Q x \<noteq> odd (length (filter Q xs)))" for Q x and xs :: "('a \<times> 'a) list"
    by simp
  show ?case
    unfolding zip_prev_Cons step Cons.IH by (cases "ws = []") auto
qed simp

lemma edges_vertices:
  assumes "(v, w) \<in> set (edges vs)"
  shows "v \<in> set vs \<and> w \<in> set vs"
proof
  show v: "v \<in> set vs" using assms unfolding edges_def by (rule set_zip_leftD)
  have "w \<in> set (last vs # butlast vs)" using assms unfolding edges_def by (rule set_zip_rightD)
  then show "w \<in> set vs" using v by (cases "vs = []") (auto dest: in_set_butlastD)
qed

text \<open>Coordinates below \<open>2\<^sup>2\<^sup>6\<close>, which is more than 132 degrees in units of 1/120 second, have products that
  are exact.\<close>

definition in_country :: "BOUND_VTX \<Rightarrow> bool" where
  "in_country v \<longleftrightarrow> uint (vx v) < 2 ^ 26 \<and> uint (vy v) < 2 ^ 26"

definition straddles :: "u32 \<Rightarrow> BOUND_VTX \<Rightarrow> BOUND_VTX \<Rightarrow> bool" where
  "straddles lat v w \<longleftrightarrow> (uint (vy v) \<le> uint lat) \<noteq> (uint (vy w) \<le> uint lat)"

lemma edge_crossed_straddles:
  assumes "edge_crossed v w lat lon"
  shows "straddles lat v w"
  using assms unfolding edge_crossed_def Let_def coord_def straddles_def of_int_le_iff of_int_less_iff by linarith

lemma u32_range: "0 \<le> uint (a::u32)" "uint a < 2 ^ 32"
  using unsigned_less [of a, where 'a = int] by simp_all

lemma abs_diff_le: "0 \<le> a \<Longrightarrow> 0 \<le> b \<Longrightarrow> a < n \<Longrightarrow> b < n \<Longrightarrow> \<bar>a - b\<bar> \<le> (n::int)"
  by linarith

lemma u32_exact: "to_double (of_int (uint (a::u32)) - of_int (uint (b::u32))) = of_int (uint a - uint b)"
proof -
  have "\<bar>uint a - uint b\<bar> \<le> 2 ^ 53"
    using abs_diff_le [OF u32_range(1,1,2,2), of a b] by simp
  then have "to_double (of_int (uint a - uint b)) = of_int (uint a - uint b)" by (rule dbl.rnd_int)
  then show ?thesis by simp
qed

definition crossing_x :: "BOUND_VTX \<Rightarrow> BOUND_VTX \<Rightarrow> u32 \<Rightarrow> rat" where
  "crossing_x v w lat =
     to_double (to_double (to_double (of_int (uint (vx w) - uint (vx v)) * of_int (uint lat - uint (vy v)))
       / of_int (uint (vy w) - uint (vy v))) + of_int (uint (vx v)))"

lemma edge_crossed_iff:
  "edge_crossed v w lat lon \<longleftrightarrow> straddles lat v w \<and> of_int (uint lon) < crossing_x v w lat"
  unfolding edge_crossed_def Let_def coord_def u32_exact crossing_x_def straddles_def of_int_le_iff of_int_less_iff
  by (auto simp: not_le)

lemma crossing_x_between:
  assumes "in_country v" "in_country w" "straddles lat v w"
    and "lo \<le> uint (vx v)" "lo \<le> uint (vx w)" "uint (vx v) \<le> hi" "uint (vx w) \<le> hi" "\<bar>lo\<bar> \<le> 2 ^ 32" "\<bar>hi\<bar> \<le> 2 ^ 32"
  shows "of_int lo \<le> crossing_x v w lat" and "crossing_x v w lat \<le> of_int hi"
proof -
  let ?dx = "uint (vx w) - uint (vx v)" and ?dy = "uint lat - uint (vy v)" and ?q = "uint (vy w) - uint (vy v)"
  have q: "0 \<le> ?dy \<and> ?dy \<le> ?q \<and> 0 < ?q \<or> ?dy \<le> 0 \<and> ?q \<le> ?dy \<and> ?q < 0"
    using assms(3) unfolding straddles_def by linarith
  have "\<bar>?dx\<bar> \<le> 2 ^ 26" "\<bar>?q\<bar> \<le> 2 ^ 26"
    using assms(1,2) by (auto simp: in_country_def intro!: abs_diff_le)
  then have "\<bar>?dx\<bar> * \<bar>?q\<bar> \<le> 2 ^ 26 * 2 ^ 26" by (intro mult_mono) auto
  then have "\<bar>?dx\<bar> * \<bar>?q\<bar> \<le> 2 ^ 53" by simp
  note between = dbl.interpolation_between [OF q this, of lo "uint (vx v)" hi]
  show "of_int lo \<le> crossing_x v w lat" "crossing_x v w lat \<le> of_int hi"
    unfolding crossing_x_def using assms between by (simp_all del: of_int_diff)
qed

lemma inside_cong:
  assumes "\<And>v w. v \<in> set vs \<Longrightarrow> w \<in> set vs \<Longrightarrow> edge_crossed v w lat lon = P v w"
  shows "inside vs lat lon = odd (length (filter (\<lambda>(v, w). P v w) (edges vs)))"
proof -
  have "filter (\<lambda>(v, w). edge_crossed v w lat lon) (edges vs) = filter (\<lambda>(v, w). P v w) (edges vs)"
    using assms by (intro filter_cong) (auto dest: edges_vertices)
  then show ?thesis by (simp add: inside_def)
qed

lemma straddles_even: "vs \<noteq> [] \<Longrightarrow> \<not> odd (length (filter (\<lambda>(v, w). straddles lat v w) (edges vs)))"
  using straddle_parity [of "\<lambda>v. uint (vy v) \<le> uint lat" vs "last vs"] by (simp add: edges_def straddles_def)

lemma not_inside_east:
  assumes "\<forall>v \<in> set vs. in_country v" and "\<forall>v \<in> set vs. vx v \<le> lon"
  shows "\<not> inside vs lat lon"
proof -
  note u32_range [of lon]
  then have "edge_crossed v w lat lon = False" if "v \<in> set vs" "w \<in> set vs" for v w
    using crossing_x_between(2) [of v w lat 0 "uint lon"] that assms
    by (auto simp: edge_crossed_iff word_le_def not_less)
  from inside_cong [OF this] show ?thesis by simp
qed

lemma not_inside_west:
  assumes "\<forall>v \<in> set vs. in_country v" and "\<forall>v \<in> set vs. lon < vx v" and "vs \<noteq> []"
  shows "\<not> inside vs lat lon"
proof -
  have "edge_crossed v w lat lon = straddles lat v w" if "v \<in> set vs" "w \<in> set vs" for v w
  proof -
    have "lon < vx v" "lon < vx w" using that assms(2) by auto
    then have "uint lon + 1 \<le> uint (vx v)" "uint lon + 1 \<le> uint (vx w)" by (simp_all add: word_less_def)
    then have "straddles lat v w \<Longrightarrow> of_int (uint lon + 1) \<le> crossing_x v w lat"
      using crossing_x_between(1) [of v w lat "uint lon + 1" "2 ^ 32"] that assms(1)
        u32_range [of lon] u32_range [of "vx v"] u32_range [of "vx w"] by auto
    then show ?thesis by (auto simp: edge_crossed_iff)
  qed
  from inside_cong [OF this] straddles_even [OF assms(3)] show ?thesis by simp
qed

lemma not_inside_beside:
  assumes "(\<forall>v \<in> set vs. lat < vy v) \<or> (\<forall>v \<in> set vs. vy v \<le> lat)"
  shows "\<not> inside vs lat lon"
proof -
  have "edge_crossed v w lat lon = False" if "v \<in> set vs" "w \<in> set vs" for v w
    using that assms by (auto simp: edge_crossed_iff straddles_def word_less_def word_le_def)
  from inside_cong [OF this] show ?thesis by simp
qed

text \<open>C9: a position south of all vertices of an outline, or with none of them north of it, is never reported
  inside, and neither is one west of all of them, or with none of them east of it, when the vertices have
  coordinates below \<open>2\<^sup>2\<^sup>6\<close>, as those of the country do:
  although the test computes with rounded numbers, no crossing is seen, or every edge that straddles the
  parallel is crossed and their number is even.  Without the bound the products are rounded and the
  statement fails (\<open>llInBoundary_rounds\<close>).\<close>

theorem llInBoundary_outside_box:
  assumes "vs \<noteq> []"
    and "(\<forall>v \<in> set vs. lat < vy v) \<or> (\<forall>v \<in> set vs. vy v \<le> lat) \<or>
      (\<forall>v \<in> set vs. in_country v) \<and> ((\<forall>v \<in> set vs. lon < vx v) \<or> (\<forall>v \<in> set vs. vx v \<le> lon))"
  shows "llInBoundary (map Some vs @ rest) (length vs) lat lon = ret False"
  using assms not_inside_east [of vs lon lat] not_inside_west [of vs lon lat] not_inside_beside [of vs lat lon]
  by (auto simp: llInBoundary_inside)

definition square :: "BOUND_VTX list" where
  "square = [BOUND_VTX 100 100, BOUND_VTX 110 100, BOUND_VTX 110 110, BOUND_VTX 100 110]"

theorem llInBoundary_outside_box_witness:
  "llInBoundary (map Some square) (length square) 105 99 = ret False"
  using llInBoundary_outside_box [of square 105 99 "[]"] by (simp add: square_def in_country_def)

text \<open>Far outside the country the product of the differences has more than 53 bits: an outline without a
  vertex east of a position is reported to hold it.\<close>

lemma llInBoundary_rounds:
  "llInBoundary (map Some [BOUND_VTX 0 188860328, BOUND_VTX 0 100, BOUND_VTX 3169070210 0]) 3 0 3169070210 = ret True"
  by code_simp

section \<open>The file and its maps\<close>

text \<open>The layout that \<open>Admin_Create\<close> expects.\<close>

definition enc_BOUND :: "BOUND \<Rightarrow> u8 list" where
  "enc_BOUND b = le_bytes 4 (unat (left b)) @ le_bytes 4 (unat (top b)) @ le_bytes 4 (unat (right b)) @ le_bytes 4 (unat (bottom b))"

definition enc_HCODE :: "HCODE \<Rightarrow> u8 list" where
  "enc_HCODE h = le_bytes 1 (unat (hc_sido h)) @ le_bytes 4 (unat (hc_gugun h OR push_bit 12 (hc_dong h)))"

definition HCODE_ok :: "HCODE \<Rightarrow> bool" where
  "HCODE_ok h \<longleftrightarrow> take_bit 12 (hc_gugun h) = hc_gugun h \<and> take_bit 20 (hc_dong h) = hc_dong h"

definition enc_CHILD :: "CHILD_BOUND \<Rightarrow> u8 list" where
  "enc_CHILD d = enc_BOUND (cbound d) @ le_bytes 4 (unat (cb_offset d)) @ le_bytes 2 (unat (vtx_num d)) @ enc_HCODE (hcode d)"

definition enc_PARENT :: "BOUND \<Rightarrow> nat \<Rightarrow> u8 list" where
  "enc_PARENT b n = enc_BOUND b @ le_bytes 1 n"

type_synonym gugun_entry = "BOUND \<times> CHILD_BOUND list"
type_synonym sido_entry = "BOUND \<times> gugun_entry list"

definition enc_gugun :: "gugun_entry \<Rightarrow> u8 list" where
  "enc_gugun g = enc_PARENT (fst g) (length (snd g)) @ concat (map enc_CHILD (snd g))"

definition enc_sido :: "sido_entry \<Rightarrow> u8 list" where
  "enc_sido e = enc_PARENT (fst e) (length (snd e)) @ concat (map enc_gugun (snd e))"

definition dong_map :: "CHILD_BOUND list \<Rightarrow> DongAdminMap" where
  "dong_map ds = foldl (\<lambda>m d. map_insert (cbound d) d m) [] ds"

definition gugun_map :: "gugun_entry list \<Rightarrow> GunGuAdminMap" where
  "gugun_map gs = foldl (\<lambda>m g. map_insert (fst g) (dong_map (snd g)) m) [] gs"

definition sido_map :: "sido_entry list \<Rightarrow> SidoAdminMap" where
  "sido_map es = foldl (\<lambda>m e. map_insert (fst e) (gugun_map (snd e)) m) [] es"

definition gugun_ok :: "gugun_entry \<Rightarrow> bool" where
  "gugun_ok g \<longleftrightarrow> length (snd g) < 256 \<and> (\<forall>d \<in> set (snd g). HCODE_ok (hcode d))"

definition sido_ok :: "sido_entry \<Rightarrow> bool" where
  "sido_ok e \<longleftrightarrow> length (snd e) < 256 \<and> (\<forall>g \<in> set (snd e). gugun_ok g)"

lemma length_enc [simp]:
  "length (enc_BOUND b) = 16" "length (enc_HCODE h) = 5" "length (enc_CHILD d) = 27" "length (enc_PARENT b n) = 17"
  by (simp_all add: enc_BOUND_def enc_HCODE_def enc_CHILD_def enc_PARENT_def)

lemma dec_enc_BOUND [simp]: "dec_BOUND (enc_BOUND b) = b"
  by (simp add: dec_BOUND_def enc_BOUND_def layout_simps)

lemma HCODE_bits:
  assumes "HCODE_ok h"
  shows "bits (hc_gugun h OR push_bit 12 (hc_dong h)) 0 12 = hc_gugun h"
    and "bits (hc_gugun h OR push_bit 12 (hc_dong h)) 12 20 = hc_dong h"
proof -
  have g: "bit (hc_gugun h) n \<Longrightarrow> n < 12" and d: "bit (hc_dong h) n \<Longrightarrow> n < 20" for n
    using assms bit_take_bit_iff [of 12 "hc_gugun h" n] bit_take_bit_iff [of 20 "hc_dong h" n] by (simp_all add: HCODE_ok_def)
  show "bits (hc_gugun h OR push_bit 12 (hc_dong h)) 0 12 = hc_gugun h"
    unfolding bits_def by (rule bit_word_eqI) (auto simp: bit_simps dest: g)
  show "bits (hc_gugun h OR push_bit 12 (hc_dong h)) 12 20 = hc_dong h"
    unfolding bits_def by (rule bit_word_eqI) (auto simp: bit_simps add.commute dest: g d)
qed

lemma dec_enc_HCODE [simp]:
  assumes "HCODE_ok h"
  shows "dec_HCODE (enc_HCODE h) = h"
proof -
  have "field (enc_HCODE h) 0 1 = hc_sido h" "field (enc_HCODE h) 1 4 = hc_gugun h OR push_bit 12 (hc_dong h)"
    by (simp_all add: enc_HCODE_def field_def le_word_single)
  then show ?thesis by (simp add: dec_HCODE_def HCODE_bits [OF assms])
qed

lemma dec_enc_CHILD [simp]: "HCODE_ok (hcode d) \<Longrightarrow> dec_CHILD_BOUND (enc_CHILD d) = d"
  by (simp add: dec_CHILD_BOUND_def enc_CHILD_def layout_simps)

lemma dec_enc_PARENT [simp]: "n < 256 \<Longrightarrow> dec_PARENT_BOUND (enc_PARENT b n) = \<lparr>pbound = b, child_num = of_nat n\<rparr>"
  by (simp add: dec_PARENT_BOUND_def enc_PARENT_def layout_simps le_word_def)

text \<open>\<open>past bs f\<close>: the stream behind the bytes \<open>bs\<close> that stand at its position.\<close>

definition past :: "u8 list \<Rightarrow> cfile \<Rightarrow> cfile" where
  "past bs f = f\<lparr>fpos := fpos f + length bs\<rparr>"

lemma past_simps [simp]:
  "fdata (past bs f) = fdata f" "fpos (past bs f) = fpos f + length bs" "past [] f = f"
  "past cs (past bs f) = past (bs @ cs) f" "bytes_at as p (past bs f) = bytes_at as p f"
  by (simp_all add: past_def)

lemma fread_past:
  assumes "bytes_at (bs @ cs) (fpos f) f" and "length bs = n"
  shows "fread_into n dec None f = (Some (dec bs), past bs f)"
  using assms fread_into_at [of bs f n dec None] by (simp add: bytes_at_append past_def)

lemma past_at: "bytes_at (bs @ cs) (fpos f) f \<Longrightarrow> bytes_at cs (fpos (past bs f)) (past bs f)"
  by (simp add: bytes_at_append)

lemma Create_dong_reads:
  assumes "bytes_at (concat (map enc_CHILD ds)) (fpos f) f" and "\<forall>d \<in> set ds. HCODE_ok (hcode d)"
  shows "Create_dong (length ds) m f =
           (Some (foldl (\<lambda>m d. map_insert (cbound d) d m) m ds), past (concat (map enc_CHILD ds)) f)"
  using assms
proof (induction ds arbitrary: m f)
  case (Cons d ds)
  have "bytes_at (enc_CHILD d @ concat (map enc_CHILD ds)) (fpos f) f" using Cons.prems(1) by simp
  from fread_past [OF this, of 27 dec_CHILD_BOUND] past_at [OF this] have r: "fread_into 27 dec_CHILD_BOUND None f = (Some d, past (enc_CHILD d) f)"
    "bytes_at (concat (map enc_CHILD ds)) (fpos (past (enc_CHILD d) f)) (past (enc_CHILD d) f)"
    using Cons.prems(2) by simp_all
  from Cons.IH [OF r(2)] r(1) Cons.prems(2) show ?case by simp
qed simp

lemma parent_read:
  assumes "bytes_at (enc_PARENT b n @ cs) (fpos f) f" and "n < 256"
  shows "fread_into 17 dec_PARENT_BOUND None f = (Some \<lparr>pbound = b, child_num = of_nat n\<rparr>, past (enc_PARENT b n) f)"
    and "bytes_at cs (fpos (past (enc_PARENT b n) f)) (past (enc_PARENT b n) f)" and "unat (of_nat n :: u8) = n"
  using assms(2) fread_past [OF assms(1), of 17 dec_PARENT_BOUND] past_at [OF assms(1)] by (simp_all add: unat_of_nat)

lemma Create_gugun_reads:
  assumes "bytes_at (concat (map enc_gugun gs)) (fpos f) f" and "\<forall>g \<in> set gs. gugun_ok g"
  shows "Create_gugun (length gs) m f =
           (Some (foldl (\<lambda>m g. map_insert (fst g) (dong_map (snd g)) m) m gs), past (concat (map enc_gugun gs)) f)"
  using assms
proof (induction gs arbitrary: m f)
  case (Cons g gs)
  have ok: "length (snd g) < 256" "\<forall>d \<in> set (snd g). HCODE_ok (hcode d)" "\<forall>g \<in> set gs. gugun_ok g"
    using Cons.prems(2) by (simp_all add: gugun_ok_def)
  have "bytes_at (enc_PARENT (fst g) (length (snd g)) @ concat (map enc_CHILD (snd g)) @ concat (map enc_gugun gs)) (fpos f) f"
    using Cons.prems(1) by (simp add: enc_gugun_def [of g])
  note p = parent_read [OF this ok(1)]
  have "bytes_at (concat (map enc_CHILD (snd g))) (fpos (past (enc_PARENT (fst g) (length (snd g))) f)) (past (enc_PARENT (fst g) (length (snd g))) f)"
    using p(2) by (simp add: bytes_at_append)
  from Create_dong_reads [OF this ok(2), of "[]"] p(2) show ?case
    using Cons.IH [of "past (enc_gugun g) f"] ok(3) p(1,3)
    by (simp add: bytes_at_append dong_map_def enc_gugun_def [of g] add.assoc)
qed simp

lemma Create_sido_reads:
  assumes "bytes_at (concat (map enc_sido es)) (fpos f) f" and "\<forall>e \<in> set es. sido_ok e"
  shows "Create_sido (length es) m f =
           (True, foldl (\<lambda>m e. map_insert (fst e) (gugun_map (snd e)) m) m es, past (concat (map enc_sido es)) f)"
  using assms
proof (induction es arbitrary: m f)
  case (Cons e es)
  have ok: "length (snd e) < 256" "\<forall>g \<in> set (snd e). gugun_ok g" "\<forall>e \<in> set es. sido_ok e"
    using Cons.prems(2) by (simp_all add: sido_ok_def)
  have "bytes_at (enc_PARENT (fst e) (length (snd e)) @ concat (map enc_gugun (snd e)) @ concat (map enc_sido es)) (fpos f) f"
    using Cons.prems(1) by (simp add: enc_sido_def [of e])
  note p = parent_read [OF this ok(1)]
  have "bytes_at (concat (map enc_gugun (snd e))) (fpos (past (enc_PARENT (fst e) (length (snd e))) f)) (past (enc_PARENT (fst e) (length (snd e))) f)"
    using p(2) by (simp add: bytes_at_append)
  from Create_gugun_reads [OF this ok(2), of "[]"] p(2) show ?case
    using Cons.IH [of "past (enc_sido e) f"] ok(3) p(1,3)
    by (simp add: bytes_at_append gugun_map_def enc_sido_def [of e] add.assoc)
qed simp

definition admin_layout :: "u8 list \<Rightarrow> sido_entry list \<Rightarrow> u8 list" where
  "admin_layout hdr es = hdr @ le_bytes 4 (length es) @ concat (map enc_sido es)"

lemma Create_tables_reads:
  assumes "length hdr = 60" and "length es < 2 ^ 32" and "\<forall>e \<in> set es. sido_ok e" and "m_AdminBoundaryMap mgr = []"
  shows "Create_tables (fopen_rb (admin_layout hdr es @ rest)) mgr =
           (True, mgr\<lparr>m_AdminBoundaryMap := sido_map es,
                      m_pFile := Some (past (admin_layout hdr es) (fopen_rb (admin_layout hdr es @ rest)))\<rparr>)"
proof -
  let ?f = "fopen_rb (admin_layout hdr es @ rest)" and ?n = "le_bytes 4 (length es)"
  have "bytes_at (hdr @ ?n @ concat (map enc_sido es)) (fpos ?f) ?f"
    by (simp add: bytes_at_def admin_layout_def)
  note h = fread_past [OF this assms(1), of "\<lambda>_. ()"] past_at [OF this]
  note n = fread_past [OF h(2), of 4 "le_word :: u8 list \<Rightarrow> u32"] past_at [OF h(2)]
  have "fseek_set 0 ?f = ?f" by (simp add: fseek_set_def fopen_rb_def)
  moreover have "le_word ?n = (of_nat (length es) :: u32)" "unat (of_nat (length es) :: u32) = length es"
    using assms(2) by (simp_all add: le_word_def unat_of_nat)
  ultimately show ?thesis
    using h n Create_sido_reads [OF _ assms(3), of "past (hdr @ ?n) ?f" "[]"] assms(4)
    by (simp add: Create_tables_def sido_map_def admin_layout_def)
qed

lemma Admin_Create_open:
  assumes "length path < 200" and "path \<noteq> []" and "last path \<noteq> CHR ''/''" and "fs (path @ ''/admin_bound.dat'') = Some bs"
  shows "Admin_Create fs path mgr = ret (Create_tables (fopen_rb bs) (mgr\<lparr>m_AdminBoundaryMap := []\<rparr>))"
  using assms by (simp add: Admin_Create_def file_name_def MAX_PATH_def)

text \<open>C22: reading a file in the documented layout, whatever follows the tables, succeeds and yields the
  maps of the provinces, cities and districts of the file; of two entries with the same rectangle the first
  is kept.  There are at most 255 cities in a province and districts in a city, and the path of the directory is
  shorter than 200 characters and does not end with a slash.\<close>

theorem Admin_Create_reads:
  assumes "length path < 200" and "fs (path @ ''/admin_bound.dat'') =
      Some (hdr @ le_bytes 4 (length es) @ concat (map enc_sido es) @ rest)"
    and "path \<noteq> []" and "last path \<noteq> CHR ''/''" and "length hdr = 60" and "length es < 2 ^ 32" and "\<forall>e \<in> set es. sido_ok e"
  shows "\<exists>f. Admin_Create fs path mgr = ret (True, mgr\<lparr>m_AdminBoundaryMap := sido_map es, m_pFile := Some f\<rparr>)"
proof -
  let ?f = "past (admin_layout hdr es) (fopen_rb (admin_layout hdr es @ rest))"
  have "Admin_Create fs path mgr = ret (Create_tables (fopen_rb (admin_layout hdr es @ rest)) (mgr\<lparr>m_AdminBoundaryMap := []\<rparr>))"
    using assms by (intro Admin_Create_open) (simp_all add: admin_layout_def)
  then have "Admin_Create fs path mgr = ret (True, mgr\<lparr>m_AdminBoundaryMap := sido_map es, m_pFile := Some ?f\<rparr>)"
    using Create_tables_reads [of hdr es _ rest] assms(5-7) by simp
  then show ?thesis by blast
qed

definition a_district :: CHILD_BOUND where
  "a_district = \<lparr>cbound = BOUND 100 110 110 100, cb_offset = 125, vtx_num = 4, hcode = HCODE 11 110 101\<rparr>"

definition a_sido :: sido_entry where
  "a_sido = (BOUND 50 200 200 50, [(BOUND 60 150 150 60, [a_district])])"

definition enc_VTX :: "BOUND_VTX \<Rightarrow> u8 list" where
  "enc_VTX v = le_bytes 4 (unat (vx v)) @ le_bytes 4 (unat (vy v))"

definition a_file :: "u8 list" where
  "a_file = replicate 60 0 @ le_bytes 4 (length [a_sido]) @ concat (map enc_sido [a_sido]) @ concat (map enc_VTX square)"

lemma a_sido_ok: "sido_ok a_sido"
  by (simp add: a_sido_def sido_ok_def gugun_ok_def HCODE_ok_def a_district_def)

theorem Admin_Create_reads_witness:
  "\<exists>f. Admin_Create (\<lambda>n. if n = ''/d/admin_bound.dat'' then Some a_file else None) ''/d'' CAdminBoundManager_new =
     ret (True, CAdminBoundManager_new\<lparr>m_AdminBoundaryMap := sido_map [a_sido], m_pFile := Some f\<rparr>)"
  using a_sido_ok by (intro Admin_Create_reads [where rest = "concat (map enc_VTX square)" and hdr = "replicate 60 0"])
    (simp_all only: a_file_def length_replicate, simp_all)

text \<open>Reading to the end does not depend on what stands behind: with more bytes appended to the file the
  same maps are read up to the same position, which is within the file.\<close>

definition longer :: "u8 list \<Rightarrow> cfile \<Rightarrow> cfile" where
  "longer bs f = f\<lparr>fdata := fdata f @ bs\<rparr>"

definition reads_on :: "cfile \<Rightarrow> cfile \<Rightarrow> bool" where
  "reads_on f g \<longleftrightarrow> fdata g = fdata f \<and> (fpos f \<le> length (fdata f) \<longrightarrow> fpos g \<le> length (fdata f))"

lemma reads_on_refl [simp]: "reads_on f f"
  by (simp add: reads_on_def)

lemma reads_on_trans: "reads_on f g \<Longrightarrow> reads_on g h \<Longrightarrow> reads_on f h"
  by (simp add: reads_on_def)

lemma fread_longer:
  assumes "fread_into n dec None f = (Some v, g)"
  shows "fread_into n dec None (longer bs f) = (Some v, longer bs g) \<and> reads_on f g"
proof -
  have l: "length (take n (drop (fpos f) (fdata f))) = n" and g: "g = f\<lparr>fpos := fpos f + n\<rparr>"
    and v: "v = dec (take n (drop (fpos f) (fdata f)))"
    using assms by (auto simp: fread_into_def Let_def split: if_splits)
  then have "n \<le> length (fdata f) - fpos f" by simp
  then have "take n (drop (fpos f) (fdata f @ bs)) = take n (drop (fpos f) (fdata f))" by simp
  with l v g have "fread_into n dec None (longer bs f) = (Some v, longer bs g)"
    by (simp add: fread_into_def longer_def)
  moreover have "reads_on f g" using l g by (auto simp: reads_on_def)
  ultimately show ?thesis ..
qed

lemma Create_dong_longer:
  assumes "Create_dong k m f = (Some m', g)"
  shows "Create_dong k m (longer bs f) = (Some m', longer bs g) \<and> reads_on f g"
  using assms
proof (induction k arbitrary: m f)
  case (Suc k)
  then obtain d f1 where d: "fread_into 27 dec_CHILD_BOUND None f = (Some d, f1)"
    "Create_dong k (map_insert (cbound d) d m) f1 = (Some m', g)"
    by (auto split: option.splits prod.splits)
  from fread_longer [OF d(1), of bs] Suc.IH [OF d(2)] show ?case by (auto intro: reads_on_trans)
qed simp

lemma Create_gugun_longer:
  assumes "Create_gugun k m f = (Some m', g)"
  shows "Create_gugun k m (longer bs f) = (Some m', longer bs g) \<and> reads_on f g"
  using assms
proof (induction k arbitrary: m f)
  case (Suc k)
  then obtain b f1 dm f2 where d: "fread_into 17 dec_PARENT_BOUND None f = (Some b, f1)"
    "Create_dong (unat (child_num b)) [] f1 = (Some dm, f2)" "Create_gugun k (map_insert (pbound b) dm m) f2 = (Some m', g)"
    by (auto split: option.splits prod.splits)
  from fread_longer [OF d(1), of bs] Create_dong_longer [OF d(2), of bs] Suc.IH [OF d(3)]
  show ?case by (auto intro: reads_on_trans)
qed simp

lemma Create_sido_longer:
  assumes "Create_sido k m f = (True, m', g)"
  shows "Create_sido k m (longer bs f) = (True, m', longer bs g) \<and> reads_on f g"
  using assms
proof (induction k arbitrary: m f)
  case (Suc k)
  then obtain b f1 gm f2 where d: "fread_into 17 dec_PARENT_BOUND None f = (Some b, f1)"
    "Create_gugun (unat (child_num b)) [] f1 = (Some gm, f2)" "Create_sido k (map_insert (pbound b) gm m) f2 = (True, m', g)"
    by (auto split: option.splits prod.splits)
  from fread_longer [OF d(1), of bs] Create_gugun_longer [OF d(2), of bs] Suc.IH [OF d(3)]
  show ?case by (auto intro: reads_on_trans)
qed simp

lemma Create_tables_longer:
  assumes "Create_tables (fopen_rb as) mgr = (True, mgr')"
  shows "\<exists>g. Create_tables (fopen_rb (as @ bs)) mgr = (True, mgr'\<lparr>m_pFile := Some g\<rparr>) \<and> fpos g \<le> length as"
proof -
  have o: "fseek_set 0 (fopen_rb xs) = fopen_rb xs" "longer bs (fopen_rb as) = fopen_rb (as @ bs)" for xs
    by (simp_all add: fseek_set_def fopen_rb_def longer_def)
  obtain u f1 n f2 m f3 where d: "fread_into 60 (\<lambda>_. ()) None (fopen_rb as) = (Some u, f1)"
    "fread_into 4 (le_word :: u8 list \<Rightarrow> u32) None f1 = (Some n, f2)"
    "Create_sido (unat n) (m_AdminBoundaryMap mgr) f2 = (True, m, f3)"
    and mgr': "mgr' = mgr\<lparr>m_AdminBoundaryMap := m, m_pFile := Some f3\<rparr>"
    using assms by (auto simp: Create_tables_def o split: option.splits prod.splits)
  note l = fread_longer [OF d(1), of bs] fread_longer [OF d(2), of bs] Create_sido_longer [OF d(3), of bs]
  then have "reads_on (fopen_rb as) f3" by (blast intro: reads_on_trans)
  then have "fpos (longer bs f3) \<le> length as" by (simp add: reads_on_def longer_def)
  then show ?thesis using l mgr' by (intro exI [of _ "longer bs f3"]) (simp add: Create_tables_def o)
qed

text \<open>C39: a file in the documented layout that was cut is accepted exactly when the cut is behind the
  tables: when a header, a count, a rectangle or a district is incomplete, or is missing where the counts
  promise one, \<open>Create\<close> returns false.  The layout has at most 255 cities in a province and districts in a city, and the
  path of its directory is shorter than 200 characters and does not end with a slash.\<close>

theorem Admin_Create_truncated:
  assumes "length path < 200" and "path \<noteq> []" and "last path \<noteq> CHR ''/''"
    and "fs (path @ ''/admin_bound.dat'') = Some (take k (admin_layout hdr es @ rest))"
    and "length hdr = 60" and "length es < 2 ^ 32" and "\<forall>e \<in> set es. sido_ok e"
  shows "\<exists>mgr'. Admin_Create fs path mgr = ret (length (admin_layout hdr es) \<le> k, mgr')"
proof -
  let ?l = "admin_layout hdr es" and ?mgr = "mgr\<lparr>m_AdminBoundaryMap := []\<rparr>"
  note reads = Create_tables_reads [OF assms(5-7), of ?mgr]
  have "fst (Create_tables (fopen_rb (take k (?l @ rest))) ?mgr) = (length ?l \<le> k)"
  proof (cases "length ?l \<le> k")
    case True
    then show ?thesis using reads by simp
  next
    case False
    have "\<not> fst (Create_tables (fopen_rb (take k ?l)) ?mgr)"
    proof
      assume "fst (Create_tables (fopen_rb (take k ?l)) ?mgr)"
      then obtain mgr' where "Create_tables (fopen_rb (take k ?l)) ?mgr = (True, mgr')"
        by (metis prod.collapse)
      from Create_tables_longer [OF this, of "drop k ?l"] reads [of "[]"] False show False
        by (auto dest!: arg_cong [where f = m_pFile])
    qed
    with False show ?thesis by simp
  qed
  then obtain mgr' where "Create_tables (fopen_rb (take k (?l @ rest))) ?mgr = (length ?l \<le> k, mgr')"
    by (cases "Create_tables (fopen_rb (take k (?l @ rest))) ?mgr") (simp only: fst_conv)
  with Admin_Create_open [of path fs, OF assms(1-4), of mgr]
  have "Admin_Create fs path mgr = ret (length ?l \<le> k, mgr')" by (simp only:)
  then show ?thesis by blast
qed

lemma a_file_layout: "a_file = admin_layout (replicate 60 0) [a_sido] @ concat (map enc_VTX square)"
  by (simp only: a_file_def admin_layout_def append.assoc)

lemma length_a_layout: "length (admin_layout (replicate 60 0) [a_sido]) = 125"
  by (simp add: admin_layout_def enc_sido_def enc_gugun_def a_sido_def)

theorem Admin_Create_truncated_witness:
  "(\<exists>mgr'. Admin_Create (\<lambda>n. if n = ''/d/admin_bound.dat'' then Some (take 124 a_file) else None) ''/d'' CAdminBoundManager_new =
     ret (False, mgr')) \<and>
   (\<exists>mgr'. Admin_Create (\<lambda>n. if n = ''/d/admin_bound.dat'' then Some (take 125 a_file) else None) ''/d'' CAdminBoundManager_new =
     ret (True, mgr'))"
  using Admin_Create_truncated [of "''/d''" "\<lambda>n. if n = ''/d/admin_bound.dat'' then Some (take 124 a_file) else None" 124
      "replicate 60 0" "[a_sido]" "concat (map enc_VTX square)" CAdminBoundManager_new]
    Admin_Create_truncated [of "''/d''" "\<lambda>n. if n = ''/d/admin_bound.dat'' then Some (take 125 a_file) else None" 125
      "replicate 60 0" "[a_sido]" "concat (map enc_VTX square)" CAdminBoundManager_new]
  unfolding length_a_layout a_file_layout [symmetric] using a_sido_ok by simp

section \<open>The district that is found\<close>

text \<open>The districts that \<open>findBound\<close> looks at, in its order: those whose rectangle and whose parents'
  rectangles hold the position.  The first whose outline holds it is the answer.\<close>

definition near_dongs :: "u32 \<Rightarrow> u32 \<Rightarrow> DongAdminMap \<Rightarrow> CHILD_BOUND list" where
  "near_dongs lat lon ds = map snd (filter (\<lambda>e. llInBound (fst e) lat lon) ds)"

definition near_guguns :: "u32 \<Rightarrow> u32 \<Rightarrow> GunGuAdminMap \<Rightarrow> CHILD_BOUND list" where
  "near_guguns lat lon gs = concat (map (\<lambda>e. near_dongs lat lon (snd e)) (filter (\<lambda>e. llInBound (fst e) lat lon) gs))"

definition near_sidos :: "u32 \<Rightarrow> u32 \<Rightarrow> SidoAdminMap \<Rightarrow> CHILD_BOUND list" where
  "near_sidos lat lon ss = concat (map (\<lambda>e. near_guguns lat lon (snd e)) (filter (\<lambda>e. llInBound (fst e) lat lon) ss))"

definition code_at :: "(CHILD_BOUND \<Rightarrow> BOUND_VTX list) \<Rightarrow> u32 \<Rightarrow> u32 \<Rightarrow> SidoAdminMap \<Rightarrow> HCODE" where
  "code_at poly lat lon m =
     (case List.find (\<lambda>d. inside (poly d) lat lon) (near_sidos lat lon m) of None \<Rightarrow> HCODE_new | Some d \<Rightarrow> hcode d)"

text \<open>The file holds the outline \<open>vs\<close> of the district \<open>d\<close>.\<close>

definition outline_at :: "u8 list \<Rightarrow> CHILD_BOUND \<Rightarrow> BOUND_VTX list \<Rightarrow> bool" where
  "outline_at bs d vs \<longleftrightarrow> vs \<noteq> [] \<and> unat (vtx_num d) = length vs \<and> unat (cb_offset d) + 8 * length vs < 2 ^ 31 \<and>
     bytes_at (concat (map enc_VTX vs)) (unat (cb_offset d)) (fopen_rb bs)"

lemma length_enc_VTX [simp]: "length (enc_VTX v) = 8"
  by (simp add: enc_VTX_def)

lemma dec_enc_VTX [simp]: "dec_BOUND_VTX (enc_VTX v) = v"
  by (simp add: dec_BOUND_VTX_def enc_VTX_def layout_simps)

lemma length_concat_VTX [simp]: "length (concat (map enc_VTX vs)) = 8 * length vs"
  by (induction vs) auto

lemma fread_over_vertices:
  assumes "bytes_at (concat (map enc_VTX vs)) (fpos f) f" and "i + length vs \<le> length buf"
  shows "fread_over 8 dec_BOUND_VTX (length vs) i buf f =
           ret (take i buf @ map Some vs @ drop (i + length vs) buf, f\<lparr>fpos := fpos f + 8 * length vs\<rparr>)"
  using assms
proof (induction vs arbitrary: i buf f)
  case (Cons v vs)
  have b: "bytes_at (enc_VTX v) (fpos f) f" "bytes_at (concat (map enc_VTX vs)) (fpos f + 8) f"
    using Cons.prems(1) by (simp_all add: bytes_at_append)
  let ?f = "f\<lparr>fpos := fpos f + 8\<rparr>" and ?buf = "buf[i := Some v]"
  have "fread_into 8 dec_BOUND_VTX old f = (Some v, ?f)" for old
    using fread_into_at [OF b(1), of 8 dec_BOUND_VTX old] by simp
  moreover have "fread_over 8 dec_BOUND_VTX (length vs) (i + 1) ?buf ?f =
      ret (take (i + 1) ?buf @ map Some vs @ drop (i + 1 + length vs) ?buf, ?f\<lparr>fpos := fpos ?f + 8 * length vs\<rparr>)"
    using Cons.IH [of ?f "i + 1" ?buf] b(2) Cons.prems(2) by simp
  moreover have "take (i + 1) ?buf = take i buf @ [Some v]"
    using Cons.prems(2) by (simp add: take_Suc_conv_app_nth)
  ultimately show ?case using Cons.prems(2) by simp
qed simp

lemma fseek_cur_to:
  assumes "fpos f < 2 ^ 31" and "unat off < 2 ^ 31"
  shows "fseek_cur (off - ftell f) f = f\<lparr>fpos := unat off, feof := False\<rparr>"
proof -
  let ?d = "int (unat off) - int (fpos f)"
  have d: "off - ftell f = word_of_int ?d"
    by (simp add: ftell_def)
  have "fpos f < 2147483648" "unat off < 2147483648" using assms by simp_all
  then have "- 2147483648 \<le> ?d" "?d < 2147483648" by linarith+
  then have "signed_take_bit 31 ?d = ?d"
    by (intro signed_take_bit_int_eq_self) simp_all
  moreover have "sint (off - ftell f) = signed_take_bit (LENGTH(32) - 1) ?d"
    unfolding d by (rule sint_sbintrunc')
  ultimately have e: "sint (off - ftell f) = ?d" by simp
  obtain n where "unat off = n" by blast
  with e assms show ?thesis by (simp add: fseek_cur_def del: of_nat_unat)
qed

text \<open>What the loops keep (\<open>on_file\<close>) and what they have found after the districts \<open>cs\<close>.\<close>

definition on_file :: "u8 list \<Rightarrow> find_state \<Rightarrow> bool" where
  "on_file bs st \<longleftrightarrow> fdata (fs_file st) = bs \<and> fpos (fs_file st) < 2 ^ 31"

definition found :: "(CHILD_BOUND \<Rightarrow> BOUND_VTX list) \<Rightarrow> u32 \<Rightarrow> u32 \<Rightarrow> CHILD_BOUND list \<Rightarrow> find_state \<Rightarrow> bool" where
  "found poly lat lon cs st \<longleftrightarrow>
     (case List.find (\<lambda>d. inside (poly d) lat lon) cs of
        None \<Rightarrow> \<not> fs_exit st \<and> fs_hcode st = HCODE_new
      | Some d \<Rightarrow> fs_exit st \<and> fs_hcode st = hcode d)"

lemma find_dong_finds:
  assumes "outline_at bs d vs" and "on_file bs st"
  shows "\<exists>st'. find_dong d lat lon st = ret st' \<and> on_file bs st' \<and>
           (if inside vs lat lon then fs_exit st' \<and> fs_hcode st' = hcode d
            else fs_exit st' = fs_exit st \<and> fs_hcode st' = fs_hcode st)"
proof -
  let ?n = "unat (vtx_num d)" and ?buf = "vertex_buffer (fs_pVertex st) (unat (vtx_num d))"
  let ?f = "(fs_file st)\<lparr>fpos := unat (cb_offset d), feof := False\<rparr>"
  have o: "vs \<noteq> []" "?n = length vs" "unat (cb_offset d) + 8 * length vs < 2 ^ 31"
    and b: "bytes_at (concat (map enc_VTX vs)) (unat (cb_offset d)) (fopen_rb bs)"
    using assms(1) by (simp_all add: outline_at_def)
  have seek: "fseek_cur (cb_offset d - ftell (fs_file st)) (fs_file st) = ?f"
    using assms(2) o(3) by (intro fseek_cur_to) (simp_all add: on_file_def)
  have bf: "bytes_at (concat (map enc_VTX vs)) (fpos ?f) ?f"
    using b assms(2) bytes_at_cong [of ?f "fopen_rb bs"] by (simp add: on_file_def)
  have len: "?n \<le> length ?buf" by (simp add: vertex_buffer_def split: option.split)
  have r: "fread_over 8 dec_BOUND_VTX ?n 0 ?buf ?f =
      ret (map Some vs @ drop (length vs) ?buf, ?f\<lparr>fpos := unat (cb_offset d) + 8 * length vs\<rparr>)"
    using fread_over_vertices [OF bf, of 0 ?buf] len o(2) by simp
  have "fpos ?f + 8 * length vs \<le> length (fdata ?f)"
    using bytes_at_len [OF bf] o(1) length_concat_VTX [of vs] by (metis length_0_conv mult_is_0 zero_neq_numeral)
  then have long: "\<not> length (drop (fpos ?f) (fdata ?f)) < 8"
    using o(1) by (cases vs) auto
  show ?thesis
    using r long o assms(2) unfolding find_dong_def Let_def seek
    by (simp add: llInBoundary_inside on_file_def del: length_drop)
qed

lemma find_append: "List.find P (xs @ ys) = (case List.find P xs of None \<Rightarrow> List.find P ys | Some x \<Rightarrow> Some x)"
  by (induction xs) auto

lemma find_dongs_finds:
  assumes "\<forall>e \<in> set ds. outline_at bs (snd e) (poly (snd e))" and "on_file bs st" and "found poly lat lon [] st"
  shows "\<exists>st'. find_dongs ds lat lon st = ret st' \<and> on_file bs st' \<and> found poly lat lon (near_dongs lat lon ds) st'"
  using assms
proof (induction ds arbitrary: st)
  case (Cons e ds)
  obtain b d where e: "e = (b, d)" by fastforce
  show ?case
  proof (cases "llInBound b lat lon")
    case True
    obtain st1 where st1: "find_dong d lat lon st = ret st1" "on_file bs st1"
      "if inside (poly d) lat lon then fs_exit st1 \<and> fs_hcode st1 = hcode d
       else fs_exit st1 = fs_exit st \<and> fs_hcode st1 = fs_hcode st"
      using find_dong_finds [of bs d "poly d" st lat lon] Cons.prems e by auto
    show ?thesis
    proof (cases "inside (poly d) lat lon")
      case True
      with st1 \<open>llInBound b lat lon\<close> e show ?thesis by (simp add: found_def near_dongs_def)
    next
      case False
      with st1 Cons.prems have "found poly lat lon [] st1" "\<not> fs_exit st1" by (simp_all add: found_def)
      with Cons.IH [of st1] Cons.prems(1) st1 \<open>llInBound b lat lon\<close> e False show ?thesis
        by (simp add: found_def near_dongs_def)
    qed
  next
    case False
    with Cons.IH [of st] Cons.prems e show ?thesis by (simp add: near_dongs_def)
  qed
qed (simp add: near_dongs_def)

lemma found_stop: "found poly lat lon cs st \<Longrightarrow> fs_exit st \<or> \<not> isNull (fs_hcode st) \<longleftrightarrow> List.find (\<lambda>d. inside (poly d) lat lon) cs \<noteq> None"
  by (auto simp: found_def HCODE_new_def isNull_def split: option.splits)

lemma found_append:
  "found poly lat lon cs st \<Longrightarrow> List.find (\<lambda>d. inside (poly d) lat lon) cs \<noteq> None \<Longrightarrow> found poly lat lon (cs @ cs') st"
  "List.find (\<lambda>d. inside (poly d) lat lon) cs = None \<Longrightarrow> found poly lat lon (cs @ cs') st = found poly lat lon cs' st"
  by (auto simp: found_def find_append)

lemma found_level:
  assumes "\<exists>st1. inner = ret st1 \<and> on_file bs st1 \<and> found poly lat lon cs st1"
    and "\<And>st1. on_file bs st1 \<Longrightarrow> found poly lat lon [] st1 \<Longrightarrow> \<exists>st'. rest st1 = ret st' \<and> on_file bs st' \<and> found poly lat lon cs' st'"
  shows "\<exists>st'. bindc inner (\<lambda>st1. if fs_exit st1 \<or> \<not> isNull (fs_hcode st1) then ret st1 else rest st1) = ret st' \<and>
           on_file bs st' \<and> found poly lat lon (cs @ cs') st'"
proof -
  obtain st1 where st1: "inner = ret st1" "on_file bs st1" "found poly lat lon cs st1" using assms(1) by blast
  show ?thesis
  proof (cases "List.find (\<lambda>d. inside (poly d) lat lon) cs = None")
    case True
    with st1(3) have "found poly lat lon [] st1" by (simp add: found_def)
    with assms(2) st1(2) obtain st' where "rest st1 = ret st'" "on_file bs st'" "found poly lat lon cs' st'" by blast
    then show ?thesis
      using st1 True found_stop [OF st1(3)] by (simp add: found_append(2) [OF True])
  next
    case False
    then show ?thesis
      using st1 found_append(1) [OF st1(3) False] found_stop [OF st1(3)] by simp
  qed
qed

lemma find_guguns_finds:
  assumes "\<forall>e \<in> set gs. \<forall>e' \<in> set (snd e). outline_at bs (snd e') (poly (snd e'))" and "on_file bs st" and "found poly lat lon [] st"
  shows "\<exists>st'. find_guguns gs lat lon st = ret st' \<and> on_file bs st' \<and> found poly lat lon (near_guguns lat lon gs) st'"
  using assms
proof (induction gs arbitrary: st)
  case (Cons e gs)
  define cs where "cs = (if llInBound (fst e) lat lon then near_dongs lat lon (snd e) else [])"
  have "\<exists>st1. (if llInBound (fst e) lat lon then find_dongs (snd e) lat lon st else ret st) = ret st1 \<and> on_file bs st1 \<and>
      found poly lat lon cs st1"
    using find_dongs_finds [of "snd e" bs poly st lat lon] Cons.prems by (simp add: cs_def)
  moreover have rest: "\<And>st1. on_file bs st1 \<Longrightarrow> found poly lat lon [] st1 \<Longrightarrow>
      \<exists>st'. find_guguns gs lat lon st1 = ret st' \<and> on_file bs st' \<and> found poly lat lon (near_guguns lat lon gs) st'"
    using Cons.IH Cons.prems(1) by simp
  ultimately have level: "\<exists>st'. bindc (if llInBound (fst e) lat lon then find_dongs (snd e) lat lon st else ret st)
      (\<lambda>st1. if fs_exit st1 \<or> \<not> isNull (fs_hcode st1) then ret st1 else find_guguns gs lat lon st1) = ret st' \<and>
      on_file bs st' \<and> found poly lat lon (cs @ near_guguns lat lon gs) st'"
    by (rule found_level)
  have "near_guguns lat lon (e # gs) = cs @ near_guguns lat lon gs"
    by (simp add: near_guguns_def cs_def)
  moreover have "find_guguns (e # gs) lat lon st = bindc (if llInBound (fst e) lat lon then find_dongs (snd e) lat lon st else ret st)
      (\<lambda>st1. if fs_exit st1 \<or> \<not> isNull (fs_hcode st1) then ret st1 else find_guguns gs lat lon st1)"
    by (cases e) simp
  ultimately show ?case using level by simp
qed (simp add: near_guguns_def)

lemma find_sidos_finds:
  assumes "\<forall>e \<in> set ss. \<forall>e' \<in> set (snd e). \<forall>e'' \<in> set (snd e'). outline_at bs (snd e'') (poly (snd e''))"
    and "on_file bs st" and "found poly lat lon [] st"
  shows "\<exists>st'. find_sidos ss lat lon st = ret st' \<and> on_file bs st' \<and> found poly lat lon (near_sidos lat lon ss) st'"
  using assms
proof (induction ss arbitrary: st)
  case (Cons e ss)
  define cs where "cs = (if llInBound (fst e) lat lon then near_guguns lat lon (snd e) else [])"
  have "\<exists>st1. (if llInBound (fst e) lat lon then find_guguns (snd e) lat lon st else ret st) = ret st1 \<and> on_file bs st1 \<and>
      found poly lat lon cs st1"
    using find_guguns_finds [of "snd e" bs poly st lat lon] Cons.prems by (simp add: cs_def)
  moreover have rest: "\<And>st1. on_file bs st1 \<Longrightarrow> found poly lat lon [] st1 \<Longrightarrow>
      \<exists>st'. find_sidos ss lat lon st1 = ret st' \<and> on_file bs st' \<and> found poly lat lon (near_sidos lat lon ss) st'"
    using Cons.IH Cons.prems(1) by simp
  ultimately have level: "\<exists>st'. bindc (if llInBound (fst e) lat lon then find_guguns (snd e) lat lon st else ret st)
      (\<lambda>st1. if fs_exit st1 \<or> \<not> isNull (fs_hcode st1) then ret st1 else find_sidos ss lat lon st1) = ret st' \<and>
      on_file bs st' \<and> found poly lat lon (cs @ near_sidos lat lon ss) st'"
    by (rule found_level)
  have "near_sidos lat lon (e # ss) = cs @ near_sidos lat lon ss"
    by (simp add: near_sidos_def cs_def)
  moreover have "find_sidos (e # ss) lat lon st = bindc (if llInBound (fst e) lat lon then find_guguns (snd e) lat lon st else ret st)
      (\<lambda>st1. if fs_exit st1 \<or> \<not> isNull (fs_hcode st1) then ret st1 else find_sidos ss lat lon st1)"
    by (cases e) simp
  ultimately show ?case using level by simp
qed (simp add: near_sidos_def)

definition all_outlines :: "u8 list \<Rightarrow> (CHILD_BOUND \<Rightarrow> BOUND_VTX list) \<Rightarrow> SidoAdminMap \<Rightarrow> bool" where
  "all_outlines bs poly m \<longleftrightarrow> (\<forall>(_, gs) \<in> set m. \<forall>(_, ds) \<in> set gs. \<forall>(_, d) \<in> set ds. outline_at bs d (poly d))"

lemma findBound_code_finds:
  assumes "m_pFile mgr = Some f" and "all_outlines (fdata f) poly (m_AdminBoundaryMap mgr)"
  shows "\<exists>f'. findBound_code lat lon hc mgr =
           ret (\<not> isNull (code_at poly lat lon (m_AdminBoundaryMap mgr)), code_at poly lat lon (m_AdminBoundaryMap mgr), mgr\<lparr>m_pFile := Some f'\<rparr>)"
proof -
  let ?st = "\<lparr>fs_exit = False, fs_hcode = HCODE_new, fs_pVertex = None, fs_file = fseek_set 0 f\<rparr>"
  have "on_file (fdata f) ?st" "found poly lat lon [] ?st"
    by (simp_all add: on_file_def found_def fseek_set_def)
  moreover have "\<forall>e \<in> set (m_AdminBoundaryMap mgr). \<forall>e' \<in> set (snd e). \<forall>e'' \<in> set (snd e'). outline_at (fdata f) (snd e'') (poly (snd e''))"
    using assms(2) by (auto simp: all_outlines_def split: prod.splits)
  ultimately obtain st where "find_sidos (m_AdminBoundaryMap mgr) lat lon ?st = ret st"
    "found poly lat lon (near_sidos lat lon (m_AdminBoundaryMap mgr)) st"
    using find_sidos_finds by meson
  then show ?thesis
    using assms(1) by (auto simp: findBound_code_def found_def code_at_def split: option.splits)
qed

lemma a_map: "sido_map [a_sido] = [(BOUND 50 200 200 50, [(BOUND 60 150 150 60, [(BOUND 100 110 110 100, a_district)])])]"
  by (simp add: sido_map_def gugun_map_def dong_map_def a_sido_def a_district_def)

lemma a_outlines: "all_outlines a_file (\<lambda>_. square) (sido_map [a_sido])"
proof -
  have "length (enc_sido a_sido) = 61" by (simp add: enc_sido_def enc_gugun_def a_sido_def)
  then show ?thesis
    unfolding a_map by (simp add: all_outlines_def outline_at_def a_district_def a_file_def bytes_at_def square_def enc_VTX_def)
qed

lemma a_code: "code_at (\<lambda>_. square) 105 105 (sido_map [a_sido]) = HCODE 11 110 101"
  unfolding a_map by code_simp

text \<open>C8: over a file that holds the outline of every district, the search stores the code of the first
  district, in the order of the maps, whose rectangles and whose outline hold the position, and the null code
  when there is none.  The reported result is false in both cases.\<close>

theorem findBound_finds:
  assumes "m_pFile mgr = Some f" and "all_outlines (fdata f) poly (m_AdminBoundaryMap mgr)"
  shows "\<exists>f'. findBound lat lon mgr =
           ret (False, mgr\<lparr>m_pFile := Some f', m_tmpHCode := code_at poly lat lon (m_AdminBoundaryMap mgr)\<rparr>)"
  using findBound_code_finds [OF assms, of lat lon "m_tmpHCode mgr"]
  by (force simp: findBound_def)

theorem findBound_finds_witness:
  "\<exists>f'. findBound 105 105 (CAdminBoundManager_new\<lparr>m_AdminBoundaryMap := sido_map [a_sido], m_pFile := Some (fopen_rb a_file)\<rparr>) =
     ret (False, CAdminBoundManager_new\<lparr>m_AdminBoundaryMap := sido_map [a_sido], m_pFile := Some f', m_tmpHCode := HCODE 11 110 101\<rparr>)"
  using findBound_finds [of "CAdminBoundManager_new\<lparr>m_AdminBoundaryMap := sido_map [a_sido], m_pFile := Some (fopen_rb a_file)\<rparr>"
      "fopen_rb a_file" "\<lambda>_. square" 105 105] a_outlines a_code by simp

section \<open>Reports of a change\<close>

lemma if_changed_hcode_state [simp]: "snd (if_changed_hcode mgr) = mgr\<lparr>m_hCode := m_tmpHCode mgr\<rparr>"
proof -
  have "a = b" if "hc_sido a = hc_sido b" "hc_gugun a = hc_gugun b" "hc_dong a = hc_dong b" for a b
    using that by (cases a; cases b) simp
  then show ?thesis
    by (auto simp: if_changed_hcode_def Let_def SIDO_BIT_def SIGUNGU_BIT_def DONG_BIT_def)
qed

lemma if_changed_hcode_flag: "fst (if_changed_hcode mgr) = 0 \<longleftrightarrow> \<not> isNull (m_hCode mgr) \<and> m_hCode mgr = m_tmpHCode mgr"
proof -
  have "a = b \<longleftrightarrow> hc_sido a = hc_sido b \<and> hc_gugun a = hc_gugun b \<and> hc_dong a = hc_dong b" for a b
    by (cases a; cases b) simp
  then show ?thesis
    by (auto simp: if_changed_hcode_def Let_def SIDO_BIT_def SIGUNGU_BIT_def DONG_BIT_def)
qed

text \<open>A report tells exactly which parts of the code differ from the one reported before, all parts
  when none was reported, and remembers the current code.\<close>

theorem if_changed_hcode_reports:
  "if_changed_hcode mgr =
     ((if \<not> isNull (m_hCode mgr) \<and> hc_sido (m_hCode mgr) = hc_sido (m_tmpHCode mgr) then 0 else SIDO_BIT) OR
      (if \<not> isNull (m_hCode mgr) \<and> hc_gugun (m_hCode mgr) = hc_gugun (m_tmpHCode mgr) then 0 else SIGUNGU_BIT) OR
      (if \<not> isNull (m_hCode mgr) \<and> hc_dong (m_hCode mgr) = hc_dong (m_tmpHCode mgr) then 0 else DONG_BIT),
      mgr\<lparr>m_hCode := m_tmpHCode mgr\<rparr>)"
proof -
  have "a = b" if "hc_sido a = hc_sido b" "hc_gugun a = hc_gugun b" "hc_dong a = hc_dong b" for a b
    using that by (cases a; cases b) simp
  then show ?thesis
    by (auto simp: if_changed_hcode_def Let_def SIDO_BIT_def SIGUNGU_BIT_def DONG_BIT_def)
qed

section \<open>Intersection of an edge with a parallel\<close>

text \<open>The abscissa of the intersection passes through a \<^verbatim>\<open>float\<close> of 24 bits: on a vertical edge at
  57000001 the intersection is reported at 57000000, beside the edge.\<close>

theorem getIntersectVertex_rounds:
  "getIntersectVertex (BOUND_VTX 57000001 0) (BOUND_VTX 57000001 2) 1 = ret (BOUND_VTX 57000000 1)"
  by code_simp

end
