(* ===== verification/Session.thy ===== *)
theory Session
  imports Search_Module Admin_Bound
begin

text \<open>
  The functions that Java calls (\<^verbatim>\<open>SearchModule.cpp\<close>): a session that starts and stops the module, and
  keeps the indices of the last choices and pointers to the results of the last queries in global
  variables.

  The pointers are modelled with the object they point into.  A vector of a province is addressed by
  the instance of the module, counted by \<open>s_instance\<close>, and the number of the province; using it after the
  module was deleted is the fault \<open>FreedObject\<close>.  The entries of the result of the points of interest
  live until the result is cleared, which \<open>s_epoch\<close> counts; an iterator is a position in the result.

  Strings from Java are the characters that \<^verbatim>\<open>GetStringChars\<close> yields, with their number, which need not
  be followed by a zero; or the characters that \<^verbatim>\<open>GetStringUTFChars\<close> yields.  Strings and arrays that
  are returned to Java are optional, \<open>None\<close> being \<^verbatim>\<open>NULL\<close>.
\<close>

section \<open>State\<close>

datatype dong_loc = DongOf nat | DongFound

datatype road_loc = RoadOf nat | RoadFound

text \<open>What the \<^verbatim>\<open>pDong\<close> of the current lots is: a road, or a district of a vector, with the versions of that
  vector and of the vector of the province when the lots were read.\<close>

datatype lots_of = LotsOfRoad | LotsOfDong dong_loc nat nat nat

record Session =
  g_pSearchModule :: "CUmSearchModule option"
  g_pAdminBound :: "CAdminBoundManager option"
  g_sidoIdx :: int
  g_sigunguIdx :: int
  g_dongIdx :: int
  g_bunjiIdx :: int
  g_roadIdx :: int
  g_roadBunjiIdx :: int
  g_poiHeaderIdx :: int
  m_pNewHoData :: "(nat \<times> nat) option"
  m_pHoData :: "(nat \<times> nat) option"
  m_pBunjiData :: "(nat \<times> nat) option"
  m_pDongData :: "(nat \<times> dong_loc) option"
  m_pRoadData :: "(nat \<times> road_loc) option"
  m_pSigunguData :: "(nat \<times> nat) option"
  m_pPoiDatas :: "(nat \<times> unit) option"
  m_pPoiHeader :: "(nat \<times> POI_HEADER) option"
  m_pPoiBody :: "(nat \<times> unit) option"
  m_pPoiDatasIterator :: "(nat \<times> nat) option"
  m_bChangedPoiIterator :: bool
  s_instance :: nat
  s_epoch :: nat
  s_dongVersion :: "dong_loc \<Rightarrow> nat"
  s_lots :: lots_of

definition Session_new :: Session where
  "Session_new =
     \<lparr>g_pSearchModule = None, g_pAdminBound = None, g_sidoIdx = - 1, g_sigunguIdx = - 1, g_dongIdx = - 1,
      g_bunjiIdx = - 1, g_roadIdx = - 1, g_roadBunjiIdx = - 1, g_poiHeaderIdx = - 1, m_pNewHoData = None,
      m_pHoData = None, m_pBunjiData = None, m_pDongData = None, m_pRoadData = None, m_pSigunguData = None,
      m_pPoiDatas = None, m_pPoiHeader = None, m_pPoiBody = None, m_pPoiDatasIterator = None,
      m_bChangedPoiIterator = True, s_instance = 0, s_epoch = 0, s_dongVersion = (\<lambda>_. 0), s_lots = LotsOfRoad\<rparr>"

section \<open>Pointers into the module\<close>

definition in_module :: "(nat \<times> 'l) option \<Rightarrow> Session \<Rightarrow> ('l \<times> CUmSearchModule) comp" where
  "in_module p s =
     (case p of
        None \<Rightarrow> fail NullDeref
      | Some (i, l) \<Rightarrow>
          (case g_pSearchModule s of
             None \<Rightarrow> fail FreedObject
           | Some md \<Rightarrow> if i = s_instance s then ret (l, md) else fail FreedObject))"

definition helper_at :: "CUmSearchModule \<Rightarrow> nat \<Rightarrow> CUmSearchHelper comp" where
  "helper_at md i = Prelude.at (m_helpers md) i"

text \<open>An \<^verbatim>\<open>int\<close> used as an index.\<close>

definition index :: "int \<Rightarrow> nat comp" where
  "index i = (if i < 0 then fail OutOfRange else ret (nat i))"

definition dong_vec :: "dong_loc \<Rightarrow> CUmSearchModule \<Rightarrow> DONG_DATA list comp" where
  "dong_vec l md = (case l of DongFound \<Rightarrow> ret (m_dongNameResult md) | DongOf i \<Rightarrow> bindc (helper_at md i) (\<lambda>h. ret (m_dongDatas h)))"

definition road_vec :: "road_loc \<Rightarrow> CUmSearchModule \<Rightarrow> ROAD_DATA list comp" where
  "road_vec l md = (case l of RoadFound \<Rightarrow> ret (m_roadNameResult md) | RoadOf i \<Rightarrow> bindc (helper_at md i) (\<lambda>h. ret (m_roadDatas h)))"

text \<open>The vectors behind the global pointers.\<close>

definition sigungu_datas :: "Session \<Rightarrow> (nat \<times> SIGUNGU_DATA list) comp" where
  "sigungu_datas s = bindc (in_module (m_pSigunguData s) s) (\<lambda>(i, md). bindc (helper_at md i) (\<lambda>h. ret (i, m_sigunguDatas h)))"

definition dong_datas :: "Session \<Rightarrow> (dong_loc \<times> DONG_DATA list) comp" where
  "dong_datas s = bindc (in_module (m_pDongData s) s) (\<lambda>(l, md). bindc (dong_vec l md) (\<lambda>v. ret (l, v)))"

definition road_datas :: "Session \<Rightarrow> ROAD_DATA list comp" where
  "road_datas s = bindc (in_module (m_pRoadData s) s) (\<lambda>(l, md). road_vec l md)"

definition bunji_datas :: "Session \<Rightarrow> (nat \<times> BUNJI_DATA list) comp" where
  "bunji_datas s = bindc (in_module (m_pBunjiData s) s) (\<lambda>(i, md). bindc (helper_at md i) (\<lambda>h. ret (i, m_bunjiDatas h)))"

definition ho_datas :: "Session \<Rightarrow> HO_DATA list comp" where
  "ho_datas s = bindc (in_module (m_pHoData s) s) (\<lambda>(i, md). bindc (helper_at md i) (\<lambda>h. ret (m_hoDatas h)))"

definition new_ho_datas :: "Session \<Rightarrow> NEW_HO_DATA list comp" where
  "new_ho_datas s = bindc (in_module (m_pNewHoData s) s) (\<lambda>(i, md). bindc (helper_at md i) (\<lambda>h. ret (m_newHoDatas h)))"

definition poi_datas :: "Session \<Rightarrow> poi_result comp" where
  "poi_datas s = bindc (in_module (m_pPoiDatas s) s) (\<lambda>(_, md). ret (m_poiHeaders md))"

text \<open>The record of a city that an entry of the vector of the province \<open>i\<close> refers to.\<close>

definition sigungu_info :: "nat \<Rightarrow> SIGUNGU_DATA \<Rightarrow> Session \<Rightarrow> SIGUNGU_DATA_F comp" where
  "sigungu_info i sg s =
     bindc (deref (g_pSearchModule s)) (\<lambda>md. bindc (helper_at md i) (\<lambda>h. Prelude.at (m_sigunguDataFs h) (sg_pInfo sg)))"

text \<open>\<^verbatim>\<open>( DONG_DATA * ) pDong\<close> of a lot of the province \<open>i\<close>, dereferenced.\<close>

definition lot_dong :: "nat \<Rightarrow> BUNJI_DATA \<Rightarrow> Session \<Rightarrow> DONG_DATA comp" where
  "lot_dong i bj s =
     bindc (deref (g_pSearchModule s)) (\<lambda>md.
       case s_lots s of
         LotsOfRoad \<Rightarrow> fail WrongType
       | LotsOfDong l j v_loc v_own \<Rightarrow>
           (case bj_pDong bj of
              Passed \<Rightarrow>
                if s_dongVersion s l = v_loc then bindc (dong_vec l md) (\<lambda>v. Prelude.at v j) else fail FreedObject
            | InDong k \<Rightarrow>
                if s_dongVersion s (DongOf i) = v_own then bindc (dong_vec (DongOf i) md) (\<lambda>v. Prelude.at v k)
                else fail FreedObject
            | InDongEx k \<Rightarrow> bindc (helper_at md i) (\<lambda>h. Prelude.at (m_dongExDatas h) k)))"

section \<open>Results for Java\<close>

text \<open>\<^verbatim>\<open>NewString( name, len )\<close>.\<close>

fun read_cells :: "nat \<Rightarrow> cells \<Rightarrow> u16 list comp" where
  "read_cells 0 cs = ret []"
| "read_cells (Suc n) [] = fail OutOfRange"
| "read_cells (Suc n) (c # cs) = bindc (need c) (\<lambda>x. bindc (read_cells n cs) (\<lambda>xs. ret (x # xs)))"

definition JWSTR_ptr :: "CTextMng \<Rightarrow> text_ptr \<Rightarrow> nat \<Rightarrow> u16 list comp" where
  "JWSTR_ptr t p n =
     (case p of
        Buff i \<Rightarrow> bindc (Prelude.at (m_Text_buff t) i) (read_cells n)
      | Stored i \<Rightarrow> bindc (Prelude.at (m_Text t) i) (\<lambda>cs. read_cells n (map Some cs @ [Some 0])))"

type_synonym jstring = "u16 list option"
type_synonym jlongArray = "int option list option"

section \<open>Start and end\<close>

definition Jni_InitModule :: "file_system \<Rightarrow> string \<Rightarrow> Session \<Rightarrow> (bool \<times> Session) comp" where
  "Jni_InitModule fs strPath s =
     bindc (Admin_Create fs strPath CAdminBoundManager_new) (\<lambda>(_, ab).
     bindc (Module_Load fs strPath CUmSearchModule_new) (\<lambda>(ok, md).
       ret (ok, s\<lparr>g_pSearchModule := Some md, g_pAdminBound := Some ab, s_instance := s_instance s + 1,
                  s_epoch := s_epoch s + 1\<rparr>)))"

definition Jni_ExitModule :: "Session \<Rightarrow> Session" where
  "Jni_ExitModule s = s\<lparr>g_pSearchModule := None, g_pAdminBound := None\<rparr>"

section \<open>Provinces and cities\<close>

definition Jni_GetSidoCount :: "Session \<Rightarrow> int" where
  "Jni_GetSidoCount s = (case g_pSearchModule s of None \<Rightarrow> 0 | Some md \<Rightarrow> int (GetSidoCount md))"

text \<open>The data of a province are not implemented: the function returns \<^verbatim>\<open>NULL\<close>.\<close>

definition Jni_GetSidoData :: "int \<Rightarrow> int option list option" where
  "Jni_GetSidoData sidoIdx = None"

text \<open>A name that is not found leaves a null pointer, and the length as it was: zero here, indeterminate in
  the functions that do not initialise it.\<close>

definition name_result :: "nat option \<Rightarrow> (text_ptr \<times> nat) option \<Rightarrow> CUmSearchModule \<Rightarrow> Session \<Rightarrow> (jstring \<times> Session) comp" where
  "name_result nLen r md s =
     bindc (case r of
              None \<Rightarrow> bindc (need nLen) (\<lambda>n. if n = 0 then ret [] else fail NullDeref)
            | Some (p, n) \<Rightarrow> JWSTR_ptr (m_Text_mng md) p n) (\<lambda>cs.
       ret (Some cs, s\<lparr>g_pSearchModule := Some md\<rparr>))"

definition Jni_GetSidoName :: "int \<Rightarrow> Session \<Rightarrow> (jstring \<times> Session) comp" where
  "Jni_GetSidoName sidoIdx s =
     (case g_pSearchModule s of
        None \<Rightarrow> ret (None, s)
      | Some md \<Rightarrow>
          bindc (index sidoIdx) (\<lambda>i. bindc (GetSidoName i md) (\<lambda>(r, md1). name_result (Some 0) r md1 s)))"

text \<open>The quotient is converted to \<^verbatim>\<open>int\<close>; division of signed numbers truncates.\<close>

definition to_int32 :: "int \<Rightarrow> int" where
  "to_int32 v = sint (word_of_int v :: u32)"

definition Jni_GetSidoNameByDCode :: "int \<Rightarrow> Session \<Rightarrow> (jstring \<times> Session) comp" where
  "Jni_GetSidoNameByDCode dCode s =
     Jni_GetSidoName (to_int32 (if dCode < 0 then - ((- dCode) div 100000000) else dCode div 100000000)) s"

definition Jni_GetSigunguCount :: "int \<Rightarrow> Session \<Rightarrow> (int \<times> Session) comp" where
  "Jni_GetSigunguCount sidoIdx s =
     (case g_pSearchModule s of
        None \<Rightarrow> ret (0, s)
      | Some md \<Rightarrow>
          bindc (index sidoIdx) (\<lambda>i.
          bindc (Module_GetSigunguData i md) (\<lambda>(_, md1).
          let s1 = s\<lparr>g_sidoIdx := sidoIdx, g_pSearchModule := Some md1, m_pSigunguData := Some (s_instance s, i)\<rparr>
          in bindc (sigungu_datas s1) (\<lambda>(_, v). ret (int (length v), s1)))))"

definition Jni_GetSigunguName :: "int \<Rightarrow> Session \<Rightarrow> jstring comp" where
  "Jni_GetSigunguName sigunguIdx s =
     (if m_pSigunguData s = None then ret None
      else bindc (sigungu_datas s) (\<lambda>(_, v). bindc (at_pos v sigunguIdx) (\<lambda>sg.
             bindc (read_cells (unat (sg_name_len sg)) (sg_name sg)) (\<lambda>cs. ret (Some cs)))))"

definition Jni_GetSigunguNameByDCode :: "int \<Rightarrow> Session \<Rightarrow> (jstring \<times> Session) comp" where
  "Jni_GetSigunguNameByDCode DCode s =
     bindc (deref (g_pSearchModule s)) (\<lambda>md.
     bindc (GetSigunguName_code (word_of_int DCode) md) (\<lambda>(r, md1). name_result None r md1 s))"

definition Jni_GetSigunguData :: "int \<Rightarrow> Session \<Rightarrow> jlongArray comp" where
  "Jni_GetSigunguData sigunguIdx s =
     (if m_pSigunguData s = None then ret None
      else bindc (sigungu_datas s) (\<lambda>(i, v).
             let nCnt = int (length v)
             in if nCnt = 0 \<or> nCnt \<le> sigunguIdx then ret (Some [Some (- 1), Some (- 1), Some (- 1)])
                else bindc (at_pos v sigunguIdx) (\<lambda>sg. bindc (sigungu_info i sg s) (\<lambda>f.
                       ret (Some [Some (uint (sg_code f)), Some (uint (sg_offset f)), Some (uint (sg_road_ofs f))])))))"

section \<open>Districts\<close>

definition Jni_GetDongCount :: "int \<Rightarrow> Session \<Rightarrow> (int \<times> Session) comp" where
  "Jni_GetDongCount sigunguIdx s =
     (if m_pSigunguData s = None then ret (0, s)
      else
        bindc (deref (g_pSearchModule s)) (\<lambda>md.
        bindc (sigungu_datas s) (\<lambda>(i, v).
        bindc (at_pos v sigunguIdx) (\<lambda>sg.
        bindc (sigungu_info i sg s) (\<lambda>f.
        bindc (index (g_sidoIdx s)) (\<lambda>k.
        bindc (Module_GetDongData k (sg_offset f) md) (\<lambda>(_, md1).
        let s1 = s\<lparr>g_sigunguIdx := sigunguIdx, g_pSearchModule := Some md1, m_pDongData := Some (s_instance s, DongOf k),
                   s_dongVersion := (s_dongVersion s)(DongOf k := s_dongVersion s (DongOf k) + 1)\<rparr>
        in bindc (dong_datas s1) (\<lambda>(_, v1). ret (int (length v1), s1)))))))))"

definition Jni_GetSearchDongCount :: "u16 list \<Rightarrow> nat \<Rightarrow> Session \<Rightarrow> (int \<times> Session) comp" where
  "Jni_GetSearchDongCount jText nLen s =
     bindc (deref (g_pSearchModule s)) (\<lambda>md.
     bindc (Module_SearchDongName jText nLen md) (\<lambda>md1.
     let s1 = s\<lparr>g_pSearchModule := Some md1, m_pDongData := Some (s_instance s, DongFound),
                s_dongVersion := (s_dongVersion s)(DongFound := s_dongVersion s DongFound + 1)\<rparr>
     in bindc (dong_datas s1) (\<lambda>(_, v). ret (int (length v), s1))))"

definition Jni_GetDongName :: "int \<Rightarrow> Session \<Rightarrow> jstring comp" where
  "Jni_GetDongName dongIdx s =
     (if m_pDongData s = None then ret None
      else bindc (dong_datas s) (\<lambda>(_, v). bindc (at_pos v dongIdx) (\<lambda>d.
             bindc (need (dd_name_len d)) (\<lambda>n.
             bindc (read_cells (unat n) (dd_name d)) (\<lambda>cs. ret (Some cs))))))"

definition Jni_GetDongNameByDCode :: "int \<Rightarrow> Session \<Rightarrow> (jstring \<times> Session) comp" where
  "Jni_GetDongNameByDCode DCode s =
     bindc (deref (g_pSearchModule s)) (\<lambda>md.
     bindc (GetDongName_code (word_of_int DCode) md) (\<lambda>(r, md1). name_result None r md1 s))"

text \<open>The elements behind the first stay indeterminate when the index is too large.\<close>

definition Jni_GetDongData :: "int \<Rightarrow> Session \<Rightarrow> jlongArray comp" where
  "Jni_GetDongData dongIdx s =
     (if m_pDongData s = None then ret None
      else bindc (dong_datas s) (\<lambda>(_, v).
             let nCnt = int (length v)
             in if nCnt = 0 \<or> nCnt \<le> dongIdx then ret (Some (Some (- 1) # replicate 5 None))
                else bindc (at_pos v dongIdx) (\<lambda>d.
                       ret (Some [Some (uint (dong_code (dd_info d))), Some (uint (min_x (dd_info d))),
                                  Some (uint (min_y (dd_info d))), Some (uint (ldong_flag (dd_info d))),
                                  Some (uint (dong_bunji_cnt (dd_info d))), Some (uint (dong_offset (dd_info d)))]))))"

section \<open>Lots and houses\<close>

definition Jni_GetBunjiCount :: "int \<Rightarrow> Session \<Rightarrow> (int \<times> Session) comp" where
  "Jni_GetBunjiCount dongIdx s =
     (if m_pDongData s = None then ret (0, s)
      else
        bindc (dong_datas s) (\<lambda>(l, v).
        bindc (at_pos v dongIdx) (\<lambda>d.
        bindc (deref (g_pSearchModule s)) (\<lambda>md.
        bindc (Module_GetBunjiData (dd_nSidoIdx d) Passed (Inl d) False md) (\<lambda>(_, md1).
        let i = dd_nSidoIdx d;
            s1 = s\<lparr>g_dongIdx := dongIdx, g_pSearchModule := Some md1, m_pBunjiData := Some (s_instance s, i),
                   s_lots := LotsOfDong l (nat dongIdx) (s_dongVersion s l) (s_dongVersion s (DongOf i))\<rparr>
        in bindc (bunji_datas s1) (\<lambda>(_, bv). ret (int (length bv), s1)))))))"

definition Jni_GetBunjiValue :: "int \<Rightarrow> Session \<Rightarrow> int comp" where
  "Jni_GetBunjiValue bunjiIdx s =
     (if m_pBunjiData s = None then ret 0
      else bindc (bunji_datas s) (\<lambda>(_, v). bindc (at_pos v bunjiIdx) (\<lambda>bj. ret (uint (bunji bj)))))"

definition Jni_GetHoCount :: "int \<Rightarrow> Session \<Rightarrow> (int \<times> Session) comp" where
  "Jni_GetHoCount bunjiIdx s =
     (if m_pBunjiData s = None then ret (0, s)
      else
        bindc (bunji_datas s) (\<lambda>(i, v).
        bindc (at_pos v bunjiIdx) (\<lambda>bj.
        bindc (deref (g_pSearchModule s)) (\<lambda>md.
        bindc (lot_dong i bj s) (\<lambda>d.
        bindc (Module_GetHoData (dd_nSidoIdx d) (bj_offset bj) md) (\<lambda>(_, md1).
        let s1 = s\<lparr>g_bunjiIdx := bunjiIdx, g_pSearchModule := Some md1, m_pHoData := Some (s_instance s, dd_nSidoIdx d)\<rparr>
        in bindc (ho_datas s1) (\<lambda>hv. ret (int (length hv), s1))))))))"

definition Jni_GetHoValue :: "int \<Rightarrow> Session \<Rightarrow> int comp" where
  "Jni_GetHoValue hoIdx s =
     (if m_pHoData s = None then ret 0
      else bindc (ho_datas s) (\<lambda>v. bindc (at_pos v hoIdx) (\<lambda>h. ret (uint (GetHoValue h)))))"

definition Jni_GetHoData :: "int \<Rightarrow> Session \<Rightarrow> (jlongArray \<times> Session) comp" where
  "Jni_GetHoData hoIdx s =
     (if m_pHoData s = None then ret (None, s)
      else
        bindc (bunji_datas s) (\<lambda>(i, bv).
        bindc (at_pos bv (g_bunjiIdx s)) (\<lambda>bj.
        bindc (ho_datas s) (\<lambda>v.
        let nCnt = int (length v)
        in if nCnt = 0 \<or> nCnt \<le> hoIdx then ret (Some (Some (- 1) # replicate 2 None), s)
           else
             bindc (deref (g_pSearchModule s)) (\<lambda>md.
             bindc (lot_dong i bj s) (\<lambda>d.
             bindc (at_pos v hoIdx) (\<lambda>h.
             bindc (Module_GetHoPos (dd_nSidoIdx d) h None None md) (\<lambda>((x, y), md1).
             bindc (need x) (\<lambda>xv. bindc (need y) (\<lambda>yv.
               ret (Some [Some (uint (GetHoValue h)), Some (uint (xv + min_x (dd_info d))), Some (uint (yv + min_y (dd_info d)))],
                    s\<lparr>g_pSearchModule := Some md1\<rparr>)))))))))))"

section \<open>Roads\<close>

text \<open>The argument is not used: the roads are those of the city chosen last.\<close>

definition Jni_GetRoadCount :: "int \<Rightarrow> Session \<Rightarrow> (int \<times> Session) comp" where
  "Jni_GetRoadCount sigunguIdx s =
     (if m_pSigunguData s = None then ret (0, s)
      else
        bindc (deref (g_pSearchModule s)) (\<lambda>md.
        bindc (sigungu_datas s) (\<lambda>(i, v).
        bindc (at_pos v (g_sigunguIdx s)) (\<lambda>sg.
        bindc (sigungu_info i sg s) (\<lambda>f.
        bindc (index (g_sidoIdx s)) (\<lambda>k.
        bindc (Module_GetRoadData k (sg_offset f) md) (\<lambda>(_, md1).
        let s1 = s\<lparr>g_pSearchModule := Some md1, m_pRoadData := Some (s_instance s, RoadOf k)\<rparr>
        in bindc (road_datas s1) (\<lambda>v1. ret (int (length v1), s1)))))))))"

definition Jni_GetSearchRoadCount :: "u16 list \<Rightarrow> nat \<Rightarrow> Session \<Rightarrow> (int \<times> Session) comp" where
  "Jni_GetSearchRoadCount jText nLen s =
     bindc (deref (g_pSearchModule s)) (\<lambda>md.
     bindc (Module_SearchRoadName jText nLen md) (\<lambda>md1.
     let s1 = s\<lparr>g_pSearchModule := Some md1, m_pRoadData := Some (s_instance s, RoadFound)\<rparr>
     in bindc (road_datas s1) (\<lambda>v. ret (int (length v), s1))))"

definition Jni_GetRoadName :: "int \<Rightarrow> Session \<Rightarrow> jstring comp" where
  "Jni_GetRoadName roadIdx s =
     (if m_pRoadData s = None then ret None
      else bindc (road_datas s) (\<lambda>v. bindc (at_pos v roadIdx) (\<lambda>r.
             bindc (read_cells (unat (rd_name_len r)) (rd_name r)) (\<lambda>cs. ret (Some cs)))))"

definition Jni_GetRoadData :: "int \<Rightarrow> Session \<Rightarrow> jlongArray comp" where
  "Jni_GetRoadData roadIdx s =
     (if m_pRoadData s = None then ret None
      else bindc (road_datas s) (\<lambda>v.
             let nCnt = int (length v)
             in if nCnt = 0 \<or> nCnt \<le> roadIdx then ret (Some (Some (- 1) # replicate 2 None))
                else bindc (at_pos v roadIdx) (\<lambda>r.
                       ret (Some [Some (uint (road_code (rd_info r))), Some (uint (road_bunji_cnt (rd_info r))),
                                  Some (uint (road_offset (rd_info r)))]))))"

definition Jni_GetRoadBunjiCount :: "int \<Rightarrow> Session \<Rightarrow> (int \<times> Session) comp" where
  "Jni_GetRoadBunjiCount roadIdx s =
     (if m_pRoadData s = None then ret (0, s)
      else
        bindc (road_datas s) (\<lambda>v.
        bindc (at_pos v roadIdx) (\<lambda>r.
        bindc (deref (g_pSearchModule s)) (\<lambda>md.
        bindc (Module_GetBunjiData (rd_nSidoIdx r) Passed (Inr r) True md) (\<lambda>(_, md1).
        let s1 = s\<lparr>g_roadIdx := roadIdx, g_pSearchModule := Some md1, m_pBunjiData := Some (s_instance s, rd_nSidoIdx r),
                   s_lots := LotsOfRoad\<rparr>
        in bindc (bunji_datas s1) (\<lambda>(_, bv). ret (int (length bv), s1)))))))"

definition Jni_GetRoadBunjiValue :: "int \<Rightarrow> Session \<Rightarrow> int comp" where
  "Jni_GetRoadBunjiValue roadBunjiIdx s =
     (if m_pBunjiData s = None then ret (- 1)
      else bindc (bunji_datas s) (\<lambda>(_, v). bindc (at_pos v roadBunjiIdx) (\<lambda>bj. ret (uint (bunji bj)))))"

definition Jni_GetRoadHoCount :: "int \<Rightarrow> Session \<Rightarrow> (int \<times> Session) comp" where
  "Jni_GetRoadHoCount roadBunjiIdx s =
     (if m_pBunjiData s = None then ret (0, s)
      else
        bindc (road_datas s) (\<lambda>v.
        bindc (at_pos v (g_roadIdx s)) (\<lambda>r.
        bindc (bunji_datas s) (\<lambda>(_, bv).
        bindc (at_pos bv roadBunjiIdx) (\<lambda>bj.
        bindc (deref (g_pSearchModule s)) (\<lambda>md.
        bindc (Module_GetNewHoData (rd_nSidoIdx r) (bj_offset bj) md) (\<lambda>(_, md1).
        let s1 = s\<lparr>g_roadBunjiIdx := roadBunjiIdx, g_pSearchModule := Some md1,
                   m_pNewHoData := Some (s_instance s, rd_nSidoIdx r)\<rparr>
        in bindc (new_ho_datas s1) (\<lambda>hv. ret (int (length hv), s1)))))))))"

definition Jni_GetRoadHoValue :: "int \<Rightarrow> Session \<Rightarrow> int comp" where
  "Jni_GetRoadHoValue roadHoIdx s =
     (if m_pNewHoData s = None then ret (- 1)
      else bindc (new_ho_datas s) (\<lambda>v. bindc (at_pos v roadHoIdx) (\<lambda>h. ret (uint (new_ho h)))))"

text \<open>The code of the district is composed from the position of the province in the module.\<close>

definition road_dcode :: "ROAD_DATA \<Rightarrow> u32 \<Rightarrow> CUmSearchModule \<Rightarrow> u32 comp" where
  "road_dcode r nDCode md =
     bindc (helper_at md (rd_nSidoIdx r)) (\<lambda>h.
     bindc (Prelude.at (m_sigunguDataFs h) (rd_pSigunguF r)) (\<lambda>sg.
       let n = rd_nSidoIdx r * 100000000 + unat (sg_code sg) * 100000
       in if n < 2 ^ 31 then ret (of_nat n + nDCode) else fail IntOverflow))"

definition Jni_GetRoadHoData :: "int \<Rightarrow> Session \<Rightarrow> (jlongArray \<times> Session) comp" where
  "Jni_GetRoadHoData roadHoIdx s =
     (if m_pNewHoData s = None then ret (None, s)
      else
        bindc (new_ho_datas s) (\<lambda>v.
        let nCnt = int (length v)
        in if nCnt = 0 \<or> nCnt \<le> roadHoIdx then ret (Some (Some (- 1) # replicate 5 None), s)
           else
             bindc (road_datas s) (\<lambda>rv.
             bindc (at_pos rv (g_roadIdx s)) (\<lambda>r.
             bindc (at_pos v roadHoIdx) (\<lambda>nh.
             bindc (deref (g_pSearchModule s)) (\<lambda>md.
             bindc (GetNewHoPos (rd_nSidoIdx r) nh None None None md) (\<lambda>((nDCode, x, y, h), md1).
             bindc (road_dcode r nDCode md1) (\<lambda>code.
               ret (Some [Some (uint (new_ho nh)), Some (uint (o_bunji nh)), Some (uint (GetHoValue h)), Some (uint code),
                          Some (uint x), Some (uint y)],
                    s\<lparr>g_pSearchModule := Some md1\<rparr>)))))))))"

section \<open>Searches for points of interest\<close>

text \<open>Every search first forgets the last result.\<close>

definition forget_pois :: "Session \<Rightarrow> Session" where
  "forget_pois s = s\<lparr>m_pPoiDatas := None, m_bChangedPoiIterator := True, g_poiHeaderIdx := - 1\<rparr>"

text \<open>The new result: when it was cleared, every entry of the old one is gone; when entries were added, an
  iterator stays at its entry, which moves by the number of the entries that were inserted in front of
  it.\<close>

definition keys_below :: "tstring \<Rightarrow> poi_result \<Rightarrow> nat" where
  "keys_below k r = length (filter (\<lambda>e. fst e < k) r)"

definition iter_moved :: "poi_result \<Rightarrow> poi_result \<Rightarrow> nat \<Rightarrow> nat" where
  "iter_moved old new p =
     (if p < length old then p + keys_below (fst (old ! p)) new - keys_below (fst (old ! p)) old else length new)"

definition new_pois :: "bool \<Rightarrow> CUmSearchModule \<Rightarrow> CUmSearchModule \<Rightarrow> Session \<Rightarrow> (int \<times> Session) comp" where
  "new_pois cleared md md1 s =
     (let s1 = s\<lparr>g_pSearchModule := Some md1, m_pPoiDatas := Some (s_instance s, ())\<rparr>;
          s2 = (if cleared then s1\<lparr>s_epoch := s_epoch s + 1\<rparr>
                else s1\<lparr>m_pPoiDatasIterator := map_option (\<lambda>(e, p). (e, iter_moved (m_poiHeaders md) (m_poiHeaders md1) p)) (m_pPoiDatasIterator s)\<rparr>)
      in bindc (poi_datas s2) (\<lambda>r. ret (int (length r), s2)))"

definition Jni_GetAptCount :: "int \<Rightarrow> Session \<Rightarrow> (int \<times> Session) comp" where
  "Jni_GetAptCount dongIdx s =
     (if m_pDongData s = None then ret (0, s)
      else
        bindc (dong_datas s) (\<lambda>(_, v).
        bindc (at_pos v dongIdx) (\<lambda>d.
        bindc (deref (g_pSearchModule s)) (\<lambda>md.
        bindc (Module_SearchPoiCateDong d 15 1 1 True md) (\<lambda>md1.
          new_pois True md md1 ((forget_pois s)\<lparr>g_dongIdx := dongIdx\<rparr>))))))"

text \<open>\<^verbatim>\<open>strtok\<close> with the separator \<^verbatim>\<open>-\<close>: the tokens are the parts that are not empty.  \<^verbatim>\<open>atoi\<close> reads
  an optional sign and digits behind blanks.\<close>

fun strtok_all :: "string \<Rightarrow> string \<Rightarrow> string list" where
  "strtok_all cur [] = (if cur = [] then [] else [cur])"
| "strtok_all cur (c # cs) =
     (if c = CHR ''-'' then (if cur = [] then strtok_all [] cs else cur # strtok_all [] cs)
      else strtok_all (cur @ [c]) cs)"

definition is_blank :: "char \<Rightarrow> bool" where
  "is_blank c \<longleftrightarrow> of_char c = (32::nat) \<or> 9 \<le> (of_char c :: nat) \<and> of_char c \<le> (13::nat)"

definition is_digit :: "char \<Rightarrow> bool" where
  "is_digit c \<longleftrightarrow> 48 \<le> (of_char c :: nat) \<and> of_char c \<le> (57::nat)"

definition digits_value :: "string \<Rightarrow> int" where
  "digits_value cs = foldl (\<lambda>n c. 10 * n + (of_char c - 48)) 0 (takeWhile is_digit cs)"

definition atoi :: "string \<Rightarrow> int comp" where
  "atoi str =
     (let cs = dropWhile is_blank str;
          n = (case cs of
                 [] \<Rightarrow> 0
               | c # ds \<Rightarrow> if c = CHR ''-'' then - digits_value ds else if c = CHR ''+'' then digits_value ds else digits_value cs)
      in if - (2 ^ 31) \<le> n \<and> n < 2 ^ 31 then ret n else fail IntOverflow)"

definition cate_codes :: "string \<Rightarrow> (u16 \<times> u16 \<times> u16) comp" where
  "cate_codes cateCode =
     (case strtok_all [] cateCode of
        c1 # c2 # cs \<Rightarrow>
          bindc (atoi c2) (\<lambda>n2.
          bindc (case cs of [] \<Rightarrow> ret 0 | c3 # _ \<Rightarrow> if length c3 < 1 then ret 0 else atoi c3) (\<lambda>n3.
            ret (of_int (of_char (hd c1) - 65), word_of_int n2, word_of_int n3)))
      | _ \<Rightarrow> fail NullDeref)"

definition Jni_GetCatePoiCount :: "string \<Rightarrow> int \<Rightarrow> bool \<Rightarrow> Session \<Rightarrow> (int \<times> Session) comp" where
  "Jni_GetCatePoiCount code cateType addData s =
     bindc (cate_codes code) (\<lambda>(code1, code2, code3).
     let s1 = forget_pois s
     in if cateType = 0 then
          bindc (deref (g_pSearchModule s)) (\<lambda>md.
          bindc (Module_SearchPoiCateSido 0 code1 code2 code3 (\<not> addData) md) (\<lambda>md1. new_pois (\<not> addData) md md1 s1))
        else if cateType = 1 then
          bindc (deref (g_pSearchModule s)) (\<lambda>md.
          bindc (deref None) (\<lambda>pDong.
          bindc (Module_SearchPoiCateDong pDong code1 code2 code3 (\<not> addData) md) (\<lambda>md1. new_pois (\<not> addData) md md1 s1)))
        else if cateType = 2 then
          bindc (deref (g_pSearchModule s)) (\<lambda>md.
          bindc (Module_SearchPoiCateMesh 0 code1 code2 code3 (\<not> addData) md) (\<lambda>md1. new_pois (\<not> addData) md md1 s1))
        else ret (0, s1))"

definition Jni_GetSearchPoiNameCount :: "int \<Rightarrow> u16 list \<Rightarrow> nat \<Rightarrow> Session \<Rightarrow> (int \<times> Session) comp" where
  "Jni_GetSearchPoiNameCount sidoIdx jText nLen s =
     bindc (deref (g_pSearchModule s)) (\<lambda>md.
     bindc (if sidoIdx = - 1 then Module_SearchPoiName jText nLen md
            else bindc (index sidoIdx) (\<lambda>i. Module_SearchPoiName_sido i jText nLen md)) (\<lambda>md1.
       new_pois True md md1 (forget_pois s)))"

definition Jni_GetSearchPoiCallCount :: "u16 list \<Rightarrow> Session \<Rightarrow> (int \<times> Session) comp" where
  "Jni_GetSearchPoiCallCount jText s =
     bindc (deref (g_pSearchModule s)) (\<lambda>md.
     bindc (Module_SearchTelNumber jText md) (\<lambda>md1. new_pois True md md1 (forget_pois s)))"

section \<open>Reading a point of interest\<close>

text \<open>The entry at an index: the iterator is advanced from the first entry, not at all for a negative
  index.\<close>

definition poi_entry :: "int \<Rightarrow> Session \<Rightarrow> (tstring \<times> POI_HEADER) comp" where
  "poi_entry poiIdx s = bindc (poi_datas s) (\<lambda>r. Prelude.at r (nat poiIdx))"

text \<open>The entry at the iterator.\<close>

definition poi_current :: "Session \<Rightarrow> (tstring \<times> POI_HEADER) comp" where
  "poi_current s =
     bindc (need (m_pPoiDatasIterator s)) (\<lambda>(e, p).
     case g_pSearchModule s of
       None \<Rightarrow> fail FreedObject
     | Some md \<Rightarrow> if e = s_epoch s then Prelude.at (m_poiHeaders md) p else fail FreedObject)"

definition load_poi :: "POI_HEADER \<Rightarrow> Session \<Rightarrow> Session comp" where
  "load_poi h s =
     bindc (deref (g_pSearchModule s)) (\<lambda>md.
     bindc (Module_GetSearchPoiResult h md) (\<lambda>md1.
       ret (s\<lparr>g_pSearchModule := Some md1, m_pPoiHeader := Some (s_epoch s, h), m_pPoiBody := Some (s_instance s, ())\<rparr>)))"

definition fetch_poi :: "int \<Rightarrow> Session \<Rightarrow> Session comp" where
  "fetch_poi poiIdx s =
     (if m_pPoiBody s = None \<or> g_poiHeaderIdx s \<noteq> poiIdx then
        bindc (poi_entry poiIdx s) (\<lambda>(_, h). bindc (load_poi h s) (\<lambda>s1. ret (s1\<lparr>g_poiHeaderIdx := poiIdx\<rparr>)))
      else ret s)"

definition fetch_current :: "Session \<Rightarrow> Session comp" where
  "fetch_current s =
     (if m_bChangedPoiIterator s then
        bindc (poi_current s) (\<lambda>(_, h). bindc (load_poi h s) (\<lambda>s1. ret (s1\<lparr>m_bChangedPoiIterator := False\<rparr>)))
      else ret s)"

definition poi_body :: "Session \<Rightarrow> POI_BODY comp" where
  "poi_body s = bindc (in_module (m_pPoiBody s) s) (\<lambda>(_, md). need (m_poiBody md))"

definition poi_header :: "Session \<Rightarrow> POI_HEADER comp" where
  "poi_header s =
     bindc (deref (m_pPoiHeader s)) (\<lambda>(e, h).
       if g_pSearchModule s \<noteq> None \<and> e = s_epoch s then ret h else fail FreedObject)"

definition Jni_GetPoiName :: "int \<Rightarrow> Session \<Rightarrow> jstring comp" where
  "Jni_GetPoiName poiIdx s =
     (if m_pPoiDatas s = None then ret None else bindc (poi_entry poiIdx s) (\<lambda>(n, _). ret (Some n)))"

definition Jni_GetPoiName_cur :: "Session \<Rightarrow> jstring comp" where
  "Jni_GetPoiName_cur s = bindc (poi_current s) (\<lambda>(n, _). ret (Some n))"

definition branch_name :: "Session \<Rightarrow> jstring comp" where
  "branch_name s =
     bindc (poi_body s) (\<lambda>b. if pb_branch (pb_info b) = 1 then bindc (c_str (branchName b)) (\<lambda>cs. ret (Some cs)) else ret None)"

definition Jni_GetPoiBranchName :: "int \<Rightarrow> Session \<Rightarrow> (jstring \<times> Session) comp" where
  "Jni_GetPoiBranchName poiIdx s =
     (if m_pPoiDatas s = None then ret (None, s)
      else bindc (fetch_poi poiIdx s) (\<lambda>s1. bindc (branch_name s1) (\<lambda>n. ret (n, s1))))"

definition Jni_GetPoiBranchName_cur :: "Session \<Rightarrow> (jstring \<times> Session) comp" where
  "Jni_GetPoiBranchName_cur s = bindc (fetch_current s) (\<lambda>s1. bindc (branch_name s1) (\<lambda>n. ret (n, s1)))"

definition call_number :: "Session \<Rightarrow> u8 list option comp" where
  "call_number s =
     bindc (poi_body s) (\<lambda>b. if pb_tel_cnt (pb_info b) > 0 then bindc (Prelude.at (tel b) 0) (\<lambda>cs. ret (Some cs)) else ret None)"

definition Jni_GetPoiCallNumber :: "int \<Rightarrow> Session \<Rightarrow> (u8 list option \<times> Session) comp" where
  "Jni_GetPoiCallNumber poiIdx s = bindc (fetch_poi poiIdx s) (\<lambda>s1. bindc (call_number s1) (\<lambda>n. ret (n, s1)))"

definition Jni_GetPoiCallNumber_cur :: "Session \<Rightarrow> (u8 list option \<times> Session) comp" where
  "Jni_GetPoiCallNumber_cur s = bindc (fetch_current s) (\<lambda>s1. bindc (call_number s1) (\<lambda>n. ret (n, s1)))"

definition poi_values :: "POI_HEADER \<Rightarrow> POI_BODY \<Rightarrow> int option list" where
  "poi_values h b =
     map Some [int (ph_nSidoIdx h), uint (hDCode (pb_info b)), uint (cate_flag (ph_info h)), uint (pb_san (pb_info b)),
       uint (pb_parking (pb_info b)), uint (pb_bunji (pb_info b)), uint (pb_ho (pb_info b)), uint (pb_x (pb_info b)),
       uint (pb_y (pb_info b)), uint (x_ex b), uint (y_ex b)]"

definition poi_array :: "Session \<Rightarrow> jlongArray comp" where
  "poi_array s = bindc (poi_header s) (\<lambda>h. bindc (poi_body s) (\<lambda>b. ret (Some (poi_values h b))))"

definition Jni_GetPoiData :: "int \<Rightarrow> Session \<Rightarrow> (jlongArray \<times> Session) comp" where
  "Jni_GetPoiData poiIdx s =
     (if m_pPoiDatas s = None then ret (None, s)
      else bindc (poi_datas s) (\<lambda>r.
             let nCnt = int (length r)
             in if nCnt = 0 \<or> nCnt \<le> poiIdx then ret (Some (Some (- 1) # replicate 10 None), s)
                else bindc (fetch_poi poiIdx s) (\<lambda>s1. bindc (poi_array s1) (\<lambda>a. ret (a, s1)))))"

definition Jni_GetPoiData_cur :: "Session \<Rightarrow> (jlongArray \<times> Session) comp" where
  "Jni_GetPoiData_cur s = bindc (fetch_current s) (\<lambda>s1. bindc (poi_array s1) (\<lambda>a. ret (a, s1)))"

definition Jni_MoveFirstPoiData :: "Session \<Rightarrow> (bool \<times> Session) comp" where
  "Jni_MoveFirstPoiData s =
     (if m_pPoiDatas s = None then ret (False, s)
      else bindc (poi_datas s) (\<lambda>r.
             ret (0 < length r, s\<lparr>m_bChangedPoiIterator := True, m_pPoiDatasIterator := Some (s_epoch s, 0)\<rparr>)))"

definition Jni_MoveNextPoiData :: "Session \<Rightarrow> (bool \<times> Session) comp" where
  "Jni_MoveNextPoiData s =
     (if m_pPoiDatas s = None then ret (False, s)
      else
        bindc (poi_current s) (\<lambda>_.
        bindc (need (m_pPoiDatasIterator s)) (\<lambda>(e, p).
        bindc (poi_datas s) (\<lambda>r.
          ret (p + 1 \<noteq> length r, s\<lparr>m_bChangedPoiIterator := True, m_pPoiDatasIterator := Some (e, p + 1)\<rparr>)))))"

definition Jni_IsCatePoi :: "int \<Rightarrow> Session \<Rightarrow> bool comp" where
  "Jni_IsCatePoi poiIdx s =
     (if m_pPoiDatas s = None then ret False
      else bindc (poi_entry poiIdx s) (\<lambda>(_, h). ret (cate_flag (ph_info h) \<noteq> 0)))"

definition Jni_IsCatePoi_cur :: "Session \<Rightarrow> (bool \<times> Session) comp" where
  "Jni_IsCatePoi_cur s =
     bindc (fetch_current s) (\<lambda>s1.
       if m_pPoiHeader s1 = None then ret (False, s1)
       else bindc (poi_header s1) (\<lambda>h. ret (cate_flag (ph_info h) \<noteq> 0, s1)))"

section \<open>The position\<close>

definition Jni_SetLocationPos :: "int \<Rightarrow> int \<Rightarrow> Session \<Rightarrow> Session comp" where
  "Jni_SetLocationPos lon lat s =
     (case g_pAdminBound s of
        None \<Rightarrow> ret s
      | Some ab \<Rightarrow> bindc (findBound (word_of_int lat) (word_of_int lon) ab) (\<lambda>(_, ab1). ret (s\<lparr>g_pAdminBound := Some ab1\<rparr>)))"

fun sido_index :: "SIDO_INFO_ST list \<Rightarrow> u8 \<Rightarrow> int" where
  "sido_index [] sido = 0"
| "sido_index (i # is) sido = (if sidoCode i \<noteq> sido then sido_index is sido + 1 else 0)"

definition Jni_ChangedLocationCode :: "Session \<Rightarrow> (jlongArray \<times> Session) comp" where
  "Jni_ChangedLocationCode s =
     (case g_pAdminBound s of
        None \<Rightarrow> ret (Some (Some 0 # replicate 3 None), s)
      | Some ab \<Rightarrow>
          (case if_changed_hcode ab of (changed_flag, ab1) \<Rightarrow>
             let s1 = s\<lparr>g_pAdminBound := Some ab1\<rparr>
             in if changed_flag \<noteq> 0 then
                  (let hCode = getHCode ab1; sidoIdx = sido_index g_sido_info (hc_sido hCode)
                   in bindc (int_op (uint (hc_gugun hCode) * 100000)) (\<lambda>g.
                      bindc (int_op (sidoIdx * 100000000)) (\<lambda>sd.
                      bindc (int_op (sd + g)) (\<lambda>n.
                      bindc (int_op (n + uint (hc_dong hCode))) (\<lambda>v.
                        ret (Some [Some v, Some (uint (changed_flag AND SIDO_BIT)), Some (uint (changed_flag AND SIGUNGU_BIT)),
                                   Some (uint (changed_flag AND DONG_BIT))], s1))))))
                else ret (Some (Some 0 # replicate 3 None), s1)))"

section \<open>What the operations keep of the details\<close>

text \<open>The session has a result of points of interest in the module.\<close>

definition holds_result :: "Session \<Rightarrow> CUmSearchModule \<Rightarrow> bool" where
  "holds_result s md \<longleftrightarrow> m_pPoiDatas s = Some (s_instance s, ()) \<and> g_pSearchModule s = Some md"

lemma poi_datas_result: "holds_result s md \<Longrightarrow> poi_datas s = ret (m_poiHeaders md)"
  by (simp add: holds_result_def poi_datas_def in_module_def)

abbreviation same_result :: "CUmSearchModule \<Rightarrow> CUmSearchModule \<Rightarrow> bool" where
  "same_result md md' \<equiv> m_poiBody md' = m_poiBody md \<and> m_poiHeaders md' = m_poiHeaders md"

named_theorems keeps_result \<open>operations of the module that leave the result and the details of the last point of interest\<close>

lemma on_helper_keeps [keeps_result]: "on_helper i op md = ret (r, md') \<Longrightarrow> same_result md md'"
  by (auto simp: on_helper_def bindc_eq_ret)

lemma on_text_keeps [keeps_result]: "on_text op md = ret (r, md') \<Longrightarrow> same_result md md'"
  by (auto simp: on_text_def bindc_eq_ret)

lemma all_helpers_keeps [keeps_result]: "all_helpers k i op res md = ret (r, md') \<Longrightarrow> same_result md md'"
  by (induction k i op res md rule: all_helpers.induct) (fastforce simp: bindc_eq_ret dest: on_helper_keeps)+

lemma names_keep [keeps_result]:
  "GetSidoName n md = ret (r, md') \<Longrightarrow> same_result md md'"
  "GetSigunguName_code c md = ret (r, md') \<Longrightarrow> same_result md md'"
  "GetDongName_code c md = ret (r, md') \<Longrightarrow> same_result md md'"
  by (auto simp: GetSidoName_def GetSigunguName_code_def GetDongName_code_def bindc_eq_ret dest: on_text_keeps)

lemma data_keep [keeps_result]:
  "Module_GetSigunguData i md = ret (u, md') \<Longrightarrow> same_result md md'"
  "Module_GetDongData i o1 md = ret (u, md') \<Longrightarrow> same_result md md'"
  "Module_GetRoadData i o1 md = ret (u, md') \<Longrightarrow> same_result md md'"
  "Module_GetBunjiData i p pl b md = ret (u, md') \<Longrightarrow> same_result md md'"
  "Module_GetHoData i o1 md = ret (u, md') \<Longrightarrow> same_result md md'"
  "Module_GetNewHoData i o1 md = ret (u, md') \<Longrightarrow> same_result md md'"
  "Module_GetHoPos i h x y md = ret (q, md') \<Longrightarrow> same_result md md'"
  "GetNewHoPos i nh x y h2 md = ret (q2, md') \<Longrightarrow> same_result md md'"
  unfolding Module_GetSigunguData_def Module_GetDongData_def Module_GetRoadData_def Module_GetBunjiData_def
    Module_GetHoData_def Module_GetNewHoData_def Module_GetHoPos_def GetNewHoPos_def
  by (rule on_helper_keeps; assumption)+

lemma searches_keep [keeps_result]:
  "Module_SearchDongName q n md = ret md' \<Longrightarrow> same_result md md'"
  "Module_SearchRoadName q n md = ret md' \<Longrightarrow> same_result md md'"
  unfolding Module_SearchDongName_def Module_SearchRoadName_def
  by (auto simp: bindc_eq_ret dest!: all_helpers_keeps)

text \<open>The part of the state that concerns the details of a point of interest is as before.\<close>

definition same_pois :: "Session \<Rightarrow> Session \<Rightarrow> bool" where
  "same_pois s s' \<longleftrightarrow>
     m_pPoiDatas s' = m_pPoiDatas s \<and> g_poiHeaderIdx s' = g_poiHeaderIdx s \<and>
     m_pPoiBody s' = m_pPoiBody s \<and> m_pPoiHeader s' = m_pPoiHeader s \<and>
     s_instance s' = s_instance s \<and> s_epoch s' = s_epoch s \<and>
     map_option (\<lambda>md. (m_poiBody md, m_poiHeaders md)) (g_pSearchModule s') =
     map_option (\<lambda>md. (m_poiBody md, m_poiHeaders md)) (g_pSearchModule s)"

lemma address_calls_same:
  "Jni_GetSidoName i s = ret (r, s') \<Longrightarrow> same_pois s s'"
  "Jni_GetSidoNameByDCode i s = ret (r, s') \<Longrightarrow> same_pois s s'"
  "Jni_GetSigunguCount i s = ret (n, s') \<Longrightarrow> same_pois s s'"
  "Jni_GetSigunguNameByDCode i s = ret (r, s') \<Longrightarrow> same_pois s s'"
  "Jni_GetDongCount i s = ret (n, s') \<Longrightarrow> same_pois s s'"
  "Jni_GetSearchDongCount t l s = ret (n, s') \<Longrightarrow> same_pois s s'"
  "Jni_GetDongNameByDCode i s = ret (r, s') \<Longrightarrow> same_pois s s'"
  "Jni_GetBunjiCount i s = ret (n, s') \<Longrightarrow> same_pois s s'"
  "Jni_GetHoCount i s = ret (n, s') \<Longrightarrow> same_pois s s'"
  "Jni_GetHoData i s = ret (a, s') \<Longrightarrow> same_pois s s'"
  unfolding Jni_GetSidoName_def Jni_GetSidoNameByDCode_def Jni_GetSigunguCount_def Jni_GetSigunguNameByDCode_def
    Jni_GetDongCount_def Jni_GetSearchDongCount_def Jni_GetDongNameByDCode_def Jni_GetBunjiCount_def
    Jni_GetHoCount_def Jni_GetHoData_def name_result_def Let_def deref_def
  by (auto simp: bindc_eq_ret same_pois_def split: option.splits if_splits prod.splits dest!: keeps_result)

lemma road_calls_same:
  "Jni_GetRoadCount i s = ret (n, s') \<Longrightarrow> same_pois s s'"
  "Jni_GetSearchRoadCount t l s = ret (n, s') \<Longrightarrow> same_pois s s'"
  "Jni_GetRoadBunjiCount i s = ret (n, s') \<Longrightarrow> same_pois s s'"
  "Jni_GetRoadHoCount i s = ret (n, s') \<Longrightarrow> same_pois s s'"
  "Jni_GetRoadHoData i s = ret (a, s') \<Longrightarrow> same_pois s s'"
  unfolding Jni_GetRoadCount_def Jni_GetSearchRoadCount_def Jni_GetRoadBunjiCount_def Jni_GetRoadHoCount_def
    Jni_GetRoadHoData_def Let_def deref_def
  by (auto simp: bindc_eq_ret same_pois_def split: option.splits if_splits prod.splits dest!: keeps_result)

lemma other_calls_same:
  "Jni_SetLocationPos x y s = ret s' \<Longrightarrow> same_pois s s'"
  "Jni_ChangedLocationCode s = ret (a, s') \<Longrightarrow> same_pois s s'"
  "Jni_MoveFirstPoiData s = ret (b, s') \<Longrightarrow> same_pois s s'"
  "Jni_MoveNextPoiData s = ret (b, s') \<Longrightarrow> same_pois s s'"
  unfolding Jni_SetLocationPos_def Jni_ChangedLocationCode_def Jni_MoveFirstPoiData_def Jni_MoveNextPoiData_def Let_def
  by (auto simp: bindc_eq_ret same_pois_def split: option.splits if_splits prod.splits)

text \<open>No details are cached for an index; the result is not one of a module still to come.\<close>

definition nothing_cached :: "Session \<Rightarrow> bool" where
  "nothing_cached s \<longleftrightarrow> g_poiHeaderIdx s < 0 \<and> (\<forall>p. m_pPoiDatas s = Some p \<longrightarrow> fst p \<le> s_instance s)"

lemma deref_eq_ret: "deref p = ret x \<longleftrightarrow> p = Some x"
  by (cases p) auto

lemma new_pois_cached: "new_pois c md md1 s = ret (n, s') \<Longrightarrow> g_poiHeaderIdx s < 0 \<Longrightarrow> nothing_cached s'"
  by (auto simp: new_pois_def bindc_eq_ret Let_def nothing_cached_def split: if_splits)

lemma forget_pois_cached: "nothing_cached (forget_pois s)" "g_poiHeaderIdx (forget_pois s) < 0"
  by (simp_all add: forget_pois_def nothing_cached_def)

lemma search_calls_cached:
  "Jni_GetAptCount i s = ret (n, s') \<Longrightarrow> s' = s \<or> nothing_cached s'"
  "Jni_GetCatePoiCount c ty ad s = ret (n, s') \<Longrightarrow> nothing_cached s'"
  "Jni_GetSearchPoiNameCount i t l s = ret (n, s') \<Longrightarrow> nothing_cached s'"
  "Jni_GetSearchPoiCallCount t s = ret (n, s') \<Longrightarrow> nothing_cached s'"
  unfolding Jni_GetAptCount_def Jni_GetCatePoiCount_def Jni_GetSearchPoiNameCount_def Jni_GetSearchPoiCallCount_def Let_def
  by (auto simp: bindc_eq_ret forget_pois_cached split: if_splits prod.splits dest!: new_pois_cached)

section \<open>Sessions that read by index\<close>

text \<open>The calls that change the state, without the four that read the details of the entry at the iterator; a call
  that faults has no successor.\<close>

inductive indexed_step :: "Session \<Rightarrow> Session \<Rightarrow> bool" where
  init: "Jni_InitModule fs p s = ret (b, s') \<Longrightarrow> indexed_step s s'"
| exit: "indexed_step s (Jni_ExitModule s)"
| sido_name: "Jni_GetSidoName i s = ret (r, s') \<Longrightarrow> indexed_step s s'"
| sido_name_code: "Jni_GetSidoNameByDCode i s = ret (r, s') \<Longrightarrow> indexed_step s s'"
| sigungu_count: "Jni_GetSigunguCount i s = ret (n, s') \<Longrightarrow> indexed_step s s'"
| sigungu_name_code: "Jni_GetSigunguNameByDCode i s = ret (r, s') \<Longrightarrow> indexed_step s s'"
| dong_count: "Jni_GetDongCount i s = ret (n, s') \<Longrightarrow> indexed_step s s'"
| search_dong: "Jni_GetSearchDongCount t l s = ret (n, s') \<Longrightarrow> indexed_step s s'"
| dong_name_code: "Jni_GetDongNameByDCode i s = ret (r, s') \<Longrightarrow> indexed_step s s'"
| bunji_count: "Jni_GetBunjiCount i s = ret (n, s') \<Longrightarrow> indexed_step s s'"
| ho_count: "Jni_GetHoCount i s = ret (n, s') \<Longrightarrow> indexed_step s s'"
| ho_data: "Jni_GetHoData i s = ret (a, s') \<Longrightarrow> indexed_step s s'"
| road_count: "Jni_GetRoadCount i s = ret (n, s') \<Longrightarrow> indexed_step s s'"
| search_road: "Jni_GetSearchRoadCount t l s = ret (n, s') \<Longrightarrow> indexed_step s s'"
| road_bunji_count: "Jni_GetRoadBunjiCount i s = ret (n, s') \<Longrightarrow> indexed_step s s'"
| road_ho_count: "Jni_GetRoadHoCount i s = ret (n, s') \<Longrightarrow> indexed_step s s'"
| road_ho_data: "Jni_GetRoadHoData i s = ret (a, s') \<Longrightarrow> indexed_step s s'"
| apt_count: "Jni_GetAptCount i s = ret (n, s') \<Longrightarrow> indexed_step s s'"
| cate_poi: "Jni_GetCatePoiCount c ty ad s = ret (n, s') \<Longrightarrow> indexed_step s s'"
| search_poi: "Jni_GetSearchPoiNameCount i t l s = ret (n, s') \<Longrightarrow> indexed_step s s'"
| search_call: "Jni_GetSearchPoiCallCount t s = ret (n, s') \<Longrightarrow> indexed_step s s'"
| branch_name: "Jni_GetPoiBranchName i s = ret (r, s') \<Longrightarrow> indexed_step s s'"
| call_number: "Jni_GetPoiCallNumber i s = ret (r8, s') \<Longrightarrow> indexed_step s s'"
| poi_data: "Jni_GetPoiData i s = ret (a, s') \<Longrightarrow> indexed_step s s'"
| move_first: "Jni_MoveFirstPoiData s = ret (b, s') \<Longrightarrow> indexed_step s s'"
| move_next: "Jni_MoveNextPoiData s = ret (b, s') \<Longrightarrow> indexed_step s s'"
| set_position: "Jni_SetLocationPos x y s = ret s' \<Longrightarrow> indexed_step s s'"
| changed_position: "Jni_ChangedLocationCode s = ret (a, s') \<Longrightarrow> indexed_step s s'"

text \<open>\<open>loaded_for a s md h b\<close>: in the session that began with \<open>a\<close> the details \<open>b\<close> were read for the entry \<open>h\<close> while the module
  had the result it has now.\<close>

definition loaded_for :: "Session \<Rightarrow> Session \<Rightarrow> CUmSearchModule \<Rightarrow> POI_HEADER \<Rightarrow> POI_BODY option \<Rightarrow> bool" where
  "loaded_for a s md h b \<longleftrightarrow>
     (\<exists>s0 md0 md1. indexed_step\<^sup>*\<^sup>* a s0 \<and> indexed_step\<^sup>*\<^sup>* s0 s \<and> holds_result s0 md0 \<and> m_poiHeaders md0 = m_poiHeaders md \<and>
        Module_GetSearchPoiResult h md0 = ret md1 \<and> m_poiBody md1 = b)"

definition cached :: "Session \<Rightarrow> Session \<Rightarrow> bool" where
  "cached a s \<longleftrightarrow>
     (\<forall>p. m_pPoiDatas s = Some p \<longrightarrow> fst p \<le> s_instance s) \<and>
     (\<forall>md. holds_result s md \<and> 0 \<le> g_poiHeaderIdx s \<and> m_pPoiBody s \<noteq> None \<longrightarrow>
        (let i = nat (g_poiHeaderIdx s); h = snd (m_poiHeaders md ! i) in
         i < length (m_poiHeaders md) \<and> m_pPoiHeader s = Some (s_epoch s, h) \<and> m_pPoiBody s = Some (s_instance s, ()) \<and>
         loaded_for a s md h (m_poiBody md)))"

lemma nothing_cached_new: "nothing_cached Session_new"
  by (simp add: nothing_cached_def Session_new_def)

lemma nothing_cached_ok: "nothing_cached s \<Longrightarrow> cached a s"
  by (simp add: nothing_cached_def cached_def)

lemma loaded_for_step: "loaded_for a s md h b \<Longrightarrow> indexed_step s s' \<Longrightarrow> m_poiHeaders md' = m_poiHeaders md \<Longrightarrow> loaded_for a s' md' h b"
  unfolding loaded_for_def by (metis rtranclp.rtrancl_into_rtrancl)

lemma same_pois_cached:
  assumes "same_pois s s'" and "cached a s" and "indexed_step s s'"
  shows "cached a s'"
proof -
  note same = assms(1) [unfolded same_pois_def]
  have before: "\<exists>md. holds_result s md \<and> same_result md md'" if "holds_result s' md'" for md'
    using that same by (cases "g_pSearchModule s") (auto simp: holds_result_def)
  have "let i = nat (g_poiHeaderIdx s'); h = snd (m_poiHeaders md' ! i) in
      i < length (m_poiHeaders md') \<and> m_pPoiHeader s' = Some (s_epoch s', h) \<and> m_pPoiBody s' = Some (s_instance s', ()) \<and>
      loaded_for a s' md' h (m_poiBody md')" if md': "holds_result s' md' \<and> 0 \<le> g_poiHeaderIdx s' \<and> m_pPoiBody s' \<noteq> None" for md'
  proof -
    obtain md where md: "holds_result s md" "same_result md md'" using before md' by blast
    have "holds_result s md \<and> 0 \<le> g_poiHeaderIdx s \<and> m_pPoiBody s \<noteq> None" using md(1) md' same by simp
    with assms(2) [unfolded cached_def] md(2) same show ?thesis
      unfolding Let_def by (auto intro: loaded_for_step [OF _ assms(3)])
  qed
  moreover have "\<forall>p. m_pPoiDatas s' = Some p \<longrightarrow> fst p \<le> s_instance s'"
    using assms(2) same by (simp add: cached_def)
  ultimately show ?thesis unfolding cached_def by blast
qed

lemma init_exit_cached:
  "Jni_InitModule fs p s = ret (b, s') \<Longrightarrow> cached a s \<Longrightarrow> cached a s'"
  "cached a s \<Longrightarrow> cached a (Jni_ExitModule s)"
  unfolding Jni_InitModule_def Jni_ExitModule_def
  by (fastforce simp: bindc_eq_ret cached_def holds_result_def)+

text \<open>What a read of the details changes: nothing, or it loads those of the entry.\<close>

lemma fetch_poi_cases:
  assumes "fetch_poi i s = ret s'"
  obtains "s' = s" "m_pPoiBody s \<noteq> None" "g_poiHeaderIdx s = i"
  | md md1 where "holds_result s md" "nat i < length (m_poiHeaders md)"
      "Module_GetSearchPoiResult (snd (m_poiHeaders md ! nat i)) md = ret md1" "m_poiHeaders md1 = m_poiHeaders md"
      "s' = s\<lparr>g_pSearchModule := Some md1, m_pPoiHeader := Some (s_epoch s, snd (m_poiHeaders md ! nat i)),
              m_pPoiBody := Some (s_instance s, ()), g_poiHeaderIdx := i\<rparr>"
proof (cases "m_pPoiBody s = None \<or> g_poiHeaderIdx s \<noteq> i")
  case True
  then obtain n h s1 where h: "poi_entry i s = ret (n, h)" "load_poi h s = ret s1" "s' = s1\<lparr>g_poiHeaderIdx := i\<rparr>"
    using assms by (auto simp: fetch_poi_def bindc_eq_ret)
  then obtain md where md: "holds_result s md" "nat i < length (m_poiHeaders md)" "h = snd (m_poiHeaders md ! nat i)"
    by (auto simp: poi_entry_def poi_datas_def in_module_def bindc_eq_ret at_eq_ret holds_result_def prod_eq_iff
        split: option.splits if_splits)
  obtain md1 where md1: "Module_GetSearchPoiResult h md = ret md1" "s1 = s\<lparr>g_pSearchModule := Some md1,
      m_pPoiHeader := Some (s_epoch s, h), m_pPoiBody := Some (s_instance s, ())\<rparr>"
    using h(2) md(1) by (auto simp: load_poi_def bindc_eq_ret deref_eq_ret holds_result_def)
  have "m_poiHeaders md1 = m_poiHeaders md"
    using md1(1) by (auto simp: Module_GetSearchPoiResult_def bindc_eq_ret dest: on_helper_keeps)
  then show thesis using that(2) md md1 h(3) by simp
next
  case False
  then show thesis using assms that(1) by (auto simp: fetch_poi_def)
qed

lemma fetch_poi_cached:
  assumes "fetch_poi i s = ret s'" and "cached a s" and "indexed_step\<^sup>*\<^sup>* a s" and "indexed_step s s'"
  shows "cached a s'"
  using assms(1)
proof (cases rule: fetch_poi_cases)
  case (2 md md1)
  then have "loaded_for a s' md1 (snd (m_poiHeaders md ! nat i)) (m_poiBody md1)"
    using assms(3,4) unfolding loaded_for_def by (metis r_into_rtranclp)
  moreover have "m_pPoiDatas s = Some (s_instance s, ())" using 2(1) by (simp add: holds_result_def)
  ultimately show ?thesis using 2 by (auto simp: cached_def holds_result_def)
qed (use assms(2) in simp)

lemma poi_calls_fetch:
  "Jni_GetPoiBranchName i s = ret (r, s') \<Longrightarrow> s' = s \<or> fetch_poi i s = ret s'"
  "Jni_GetPoiCallNumber i s = ret (r8, s') \<Longrightarrow> fetch_poi i s = ret s'"
  "Jni_GetPoiData i s = ret (v, s') \<Longrightarrow> s' = s \<or> fetch_poi i s = ret s'"
  unfolding Jni_GetPoiBranchName_def Jni_GetPoiCallNumber_def Jni_GetPoiData_def Let_def
  by (auto simp: bindc_eq_ret split: if_splits)

lemma indexed_step_cached:
  assumes "indexed_step s s'" and "indexed_step\<^sup>*\<^sup>* a s" and "cached a s"
  shows "cached a s'"
  using assms(1)
proof (cases rule: indexed_step.cases)
  case (branch_name i r)
  then show ?thesis using poi_calls_fetch(1) fetch_poi_cached [OF _ assms(3,2,1)] assms(3) by blast
next
  case (call_number i r8)
  then show ?thesis using poi_calls_fetch(2) fetch_poi_cached [OF _ assms(3,2,1)] assms(3) by blast
next
  case (poi_data i v)
  then show ?thesis using poi_calls_fetch(3) fetch_poi_cached [OF _ assms(3,2,1)] assms(3) by blast
qed (use assms(3) same_pois_cached [OF _ assms(3,1)] in
    \<open>auto intro: init_exit_cached nothing_cached_ok dest: address_calls_same road_calls_same other_calls_same search_calls_cached\<close>)

lemma indexed_cached:
  assumes "indexed_step\<^sup>*\<^sup>* a s" and "nothing_cached a"
  shows "cached a s"
  using assms by (induction rule: rtranclp_induct) (auto intro: nothing_cached_ok indexed_step_cached)

text \<open>C12: a session that starts without cached details, as a new one does, and reads details only by index never mixes up
  two entries: whatever was called before, the values
  returned for the index \<open>i\<close> are those of the entry at \<open>i\<close> of the current result, with details that were read from the file for
  that entry while this was the result; they may come from the cache.\<close>

theorem indexed_details:
  assumes "nothing_cached a" and "indexed_step\<^sup>*\<^sup>* a s" and "holds_result s md" and "0 \<le> i" and "i < int (length (m_poiHeaders md))"
    and "Jni_GetPoiData i s = ret (v, s')"
  shows "\<exists>b. loaded_for a s' md (snd (m_poiHeaders md ! nat i)) (Some b) \<and> v = Some (poi_values (snd (m_poiHeaders md ! nat i)) b)"
proof -
  have "m_poiHeaders md \<noteq> []" "\<not> int (length (m_poiHeaders md)) \<le> i" using assms(4,5) by auto
  then have fetch: "fetch_poi i s = ret s'" and arr: "poi_array s' = ret v"
    using assms(3,6) poi_datas_result [OF assms(3)] by (auto simp: Jni_GetPoiData_def holds_result_def bindc_eq_ret)
  have c: "cached a s'"
    using fetch_poi_cached [OF fetch indexed_cached [OF assms(2,1)] assms(2)] indexed_step.poi_data [OF assms(6)] by blast
  obtain md' where md': "holds_result s' md'" "m_poiHeaders md' = m_poiHeaders md" "g_poiHeaderIdx s' = i" "m_pPoiBody s' \<noteq> None"
    using fetch assms(3) by (cases rule: fetch_poi_cases) (auto simp: holds_result_def)
  let ?h = "snd (m_poiHeaders md ! nat i)"
  have "m_pPoiHeader s' = Some (s_epoch s', ?h)" "m_pPoiBody s' = Some (s_instance s', ())" "loaded_for a s' md' ?h (m_poiBody md')"
    using c md' assms(4) unfolding cached_def Let_def by (metis (no_types, lifting))+
  then obtain b where "m_poiBody md' = Some b" "v = Some (poi_values ?h b)"
    using arr md'(1) by (auto simp: poi_array_def poi_header_def poi_body_def in_module_def holds_result_def bindc_eq_ret need_def
        split: option.splits)
  then show ?thesis using \<open>loaded_for a s' md' ?h (m_poiBody md')\<close> md'(2) by (auto simp: loaded_for_def)
qed

section \<open>Walking through a result\<close>

text \<open>A client that moves to the first entry and then to the next as long as there is one.\<close>

partial_function (option) visit_names :: "bool \<Rightarrow> Session \<Rightarrow> tstring list \<Rightarrow> (tstring list \<times> Session) comp" where
  "visit_names ok s acc =
     (if ok then
        bindc (Jni_GetPoiName_cur s) (\<lambda>n. bindc (need n) (\<lambda>n1.
        bindc (Jni_MoveNextPoiData s) (\<lambda>(ok1, s1). visit_names ok1 s1 (acc @ [n1]))))
      else ret (acc, s))"

lemma visit_names_from:
  assumes "holds_result s md" and "m_pPoiDatasIterator s = Some (s_epoch s, p)" and "p \<le> length (m_poiHeaders md)"
  shows "\<exists>s'. visit_names (p < length (m_poiHeaders md)) s acc = ret (acc @ map fst (drop p (m_poiHeaders md)), s')"
  using assms
proof (induction "length (m_poiHeaders md) - p" arbitrary: p s acc)
  case 0
  then show ?case by (simp add: visit_names.simps [of False])
next
  case (Suc k)
  let ?r = "m_poiHeaders md"
  have p: "p < length ?r" using Suc.hyps(2) by simp
  let ?s = "s\<lparr>m_bChangedPoiIterator := True, m_pPoiDatasIterator := Some (s_epoch s, p + 1)\<rparr>"
  have cur: "poi_current s = ret (?r ! p)"
    using Suc.prems(1,2) p by (simp add: poi_current_def holds_result_def)
  have name: "Jni_GetPoiName_cur s = ret (Some (fst (?r ! p)))"
    using cur by (simp add: Jni_GetPoiName_cur_def split: prod.split)
  have move: "Jni_MoveNextPoiData s = ret (p + 1 < length ?r, ?s)"
    using cur Suc.prems p poi_datas_result [OF Suc.prems(1)] by (auto simp: Jni_MoveNextPoiData_def holds_result_def)
  have res: "holds_result ?s md" using Suc.prems(1) by (simp add: holds_result_def)
  have k: "k = length ?r - (p + 1)" using Suc.hyps(2) by simp
  obtain s' where "visit_names (p + 1 < length ?r) ?s (acc @ [fst (?r ! p)]) =
      ret ((acc @ [fst (?r ! p)]) @ map fst (drop (p + 1) ?r), s')"
    using Suc.hyps(1) [OF k res, of "acc @ [fst (?r ! p)]"] p by auto
  moreover have "drop p ?r = ?r ! p # drop (p + 1) ?r"
    using p by (simp add: Cons_nth_drop_Suc)
  ultimately show ?case
    using p name move by (subst visit_names.simps) simp
qed

text \<open>C10: a walk through the result of a search ends and meets every entry exactly once, in the order of
  the names.\<close>

theorem visit_names_all:
  assumes "holds_result s md"
  shows "\<exists>s'. bindc (Jni_MoveFirstPoiData s) (\<lambda>(ok, s1). visit_names ok s1 []) = ret (map fst (m_poiHeaders md), s')"
proof -
  let ?s = "s\<lparr>m_bChangedPoiIterator := True, m_pPoiDatasIterator := Some (s_epoch s, 0)\<rparr>"
  have "Jni_MoveFirstPoiData s = ret (0 < length (m_poiHeaders md), ?s)"
    using assms poi_datas_result [OF assms] by (simp add: Jni_MoveFirstPoiData_def holds_result_def)
  moreover have "holds_result ?s md" using assms by (simp add: holds_result_def)
  ultimately show ?thesis
    using visit_names_from [of ?s md 0 "[]"] by simp
qed

section \<open>Mixing the two ways to read an entry\<close>

definition a_poi :: "u32 \<Rightarrow> POI_HEADER" where
  "a_poi ofs = \<lparr>ph_nSidoIdx = 0, ph_info = \<lparr>name_ofs = 0, body_ofs = ofs, pos_cnt = 0, cate_flag = 0, use_ho_ofs = 0\<rparr>\<rparr>"

definition a_helper :: CUmSearchHelper where
  "a_helper =
     \<lparr>fp = fopen_rb (1 # replicate 15 0 @ 2 # replicate 15 0), m_file_header = dec_SEARCH_FILE_HEADER [], m_addr_header = dec_ADDR_DATA_HEADER [],
      m_poi_header = dec_POI_DATA_HEADER [], m_sidoData = dec_SIDO_DATA [], m_sigunguDatas = [], m_sigunguDataFs = [],
      m_dongDatas = [], m_dongExDatas = [], m_roadDatas = [], m_bunjiDatas = [], m_hoDatas = [], m_newHoDatas = [],
      m_LDCodeOffset = []\<rparr>"

definition a_module :: CUmSearchModule where
  "a_module = CUmSearchModule_new\<lparr>m_helpers := [a_helper], m_poiHeaders := [([65], a_poi 0), ([66], a_poi 16)], m_poiBody := Some POI_BODY_zero\<rparr>"

definition a_session :: Session where
  "a_session = Session_new\<lparr>g_pSearchModule := Some a_module, m_pPoiDatas := Some (0, ())\<rparr>"

theorem visit_names_all_witness:
  "\<exists>s'. bindc (Jni_MoveFirstPoiData a_session) (\<lambda>(ok, s1). visit_names ok s1 []) = ret ([[65], [66]], s')"
  using visit_names_all [of a_session a_module] by (simp add: holds_result_def a_session_def a_module_def Session_new_def)

text \<open>Reading the details of the current entry replaces the details that were cached for an index
  without changing the index.  After a read of the entry \<open>i\<close>, a walk that reads the first entry makes the next
  read of the entry \<open>i\<close> return the first entry.\<close>

theorem stale_details:
  assumes "holds_result s md" and "g_poiHeaderIdx s = i" and "i < int (length (m_poiHeaders md))"
    and "Jni_MoveFirstPoiData s = ret (True, s1)" and "Jni_GetPoiData_cur s1 = ret (a, s2)"
  shows "Jni_GetPoiData i s2 = ret (a, s2) \<and> (\<exists>b. a = Some (poi_values (snd (m_poiHeaders md ! 0)) b))"
proof -
  let ?h = "snd (m_poiHeaders md ! 0)"
  have s1: "s1 = s\<lparr>m_bChangedPoiIterator := True, m_pPoiDatasIterator := Some (s_epoch s, 0)\<rparr>" and ne: "m_poiHeaders md \<noteq> []"
    using assms(1,4) poi_datas_result [OF assms(1)] by (auto simp: Jni_MoveFirstPoiData_def holds_result_def)
  have "poi_current s1 = ret (m_poiHeaders md ! 0)"
    using assms(1) ne by (simp add: s1 poi_current_def holds_result_def)
  then obtain s3 where load: "load_poi ?h s1 = ret s3" and s2: "s2 = s3\<lparr>m_bChangedPoiIterator := False\<rparr>" and arr: "poi_array s2 = ret a"
    using assms(5) by (auto simp: Jni_GetPoiData_cur_def fetch_current_def bindc_eq_ret s1 split: prod.splits)
  obtain md1 where md1: "Module_GetSearchPoiResult ?h md = ret md1" and
    s3: "s3 = s1\<lparr>g_pSearchModule := Some md1, m_pPoiHeader := Some (s_epoch s, ?h), m_pPoiBody := Some (s_instance s, ())\<rparr>"
    using load assms(1) by (auto simp: load_poi_def bindc_eq_ret deref_eq_ret s1 holds_result_def)
  have "m_poiHeaders md1 = m_poiHeaders md"
    using md1 by (auto simp: Module_GetSearchPoiResult_def on_helper_def bindc_eq_ret)
  then have r: "poi_datas s2 = ret (m_poiHeaders md)" and p: "m_pPoiDatas s2 \<noteq> None"
    using assms(1) by (simp_all add: s2 s3 s1 poi_datas_def in_module_def holds_result_def)
  have "fetch_poi i s2 = ret s2"
    using assms(2) by (simp add: fetch_poi_def s2 s3 s1)
  then have "Jni_GetPoiData i s2 = ret (a, s2)"
    using r p arr ne assms(3) by (auto simp: Jni_GetPoiData_def)
  moreover have "\<exists>b. a = Some (poi_values ?h b)"
    using arr by (auto simp: poi_array_def poi_header_def bindc_eq_ret deref_eq_ret s2 s3 s1 split: if_splits)
  ultimately show ?thesis by blast
qed

lemma le_nat_zeros [simp]: "le_nat (replicate n 0) = 0"
  by (induction n) auto

lemma a_helper_poi: "\<exists>b h. Helper_GetSearchPoiResult (ph_info (a_poi 0)) a_helper t = ret (b, h, t)"
proof -
  let ?bs = "1 # replicate 15 0 :: u8 list"
  have "fread_into 16 dec_POI_BODY_F old (fseek_set 0 (fp a_helper)) = (Some (dec_POI_BODY_F ?bs), (fp a_helper)\<lparr>fpos := 16\<rparr>)" for old
    by (simp add: fread_into_def fseek_set_def a_helper_def fopen_rb_def Let_def)
  moreover have "pb_branch (dec_POI_BODY_F ?bs) = 0" "pb_tel_cnt (dec_POI_BODY_F ?bs) = 0"
    by (simp_all add: dec_POI_BODY_F_def field_def le_word_def bits_def Let_def)
  ultimately show ?thesis
    by (simp add: Helper_GetSearchPoiResult_def poi_info_def a_poi_def Let_def)
qed

lemma a_module_poi: "\<exists>md b. Module_GetSearchPoiResult (a_poi 0) a_module = ret md \<and> m_poiBody md = Some b"
  using a_helper_poi [of CTextMng_new]
  by (auto simp: Module_GetSearchPoiResult_def on_helper_def a_module_def CUmSearchModule_new_def) (auto simp: a_poi_def)

lemma a_session_holds: "holds_result a_session a_module"
  by (simp add: holds_result_def a_session_def Session_new_def)

theorem indexed_details_witness:
  "\<exists>v s1 b. Jni_GetPoiData 0 a_session = ret (v, s1) \<and> Jni_GetPoiData 0 s1 = ret (v, s1) \<and> v = Some (poi_values (a_poi 0) b) \<and>
     loaded_for a_session s1 a_module (a_poi 0) (Some b)"
proof -
  let ?s = a_session
  obtain md b where m: "Module_GetSearchPoiResult (a_poi 0) a_module = ret md" "m_poiBody md = Some b"
    using a_module_poi by blast
  let ?s1 = "?s\<lparr>g_pSearchModule := Some md, m_pPoiHeader := Some (0, a_poi 0), m_pPoiBody := Some (0, ()), g_poiHeaderIdx := 0\<rparr>"
  have st: "s_epoch ?s = 0" "s_instance ?s = 0" "g_pSearchModule ?s = Some a_module" "m_pPoiDatas ?s = Some (0, ())" "m_pPoiBody ?s = None"
    "m_poiHeaders a_module = [([65], a_poi 0), ([66], a_poi 16)]" "nothing_cached ?s"
    by (simp_all add: a_session_def Session_new_def a_module_def nothing_cached_def)
  have "m_poiHeaders md = m_poiHeaders a_module"
    using m(1) by (auto simp: Module_GetSearchPoiResult_def bindc_eq_ret dest: on_helper_keeps)
  then have read: "Jni_GetPoiData 0 ?s = ret (Some (poi_values (a_poi 0) b), ?s1)" "Jni_GetPoiData 0 ?s1 = ret (Some (poi_values (a_poi 0) b), ?s1)"
    using m st by (simp_all add: Jni_GetPoiData_def poi_datas_def in_module_def fetch_poi_def poi_entry_def load_poi_def poi_array_def
        poi_header_def poi_body_def)
  from indexed_details [OF st(7) _ a_session_holds _ _ read(1)] st(6) obtain b' where
    "loaded_for ?s ?s1 a_module (a_poi 0) (Some b')" "Some (poi_values (a_poi 0) b) = Some (poi_values (a_poi 0) b')" by auto
  with read show ?thesis by metis
qed

theorem stale_details_witness:
  "\<exists>s1 a s2. Jni_MoveFirstPoiData (a_session\<lparr>g_poiHeaderIdx := 1, m_pPoiBody := Some (0, ())\<rparr>) = ret (True, s1) \<and>
     Jni_GetPoiData_cur s1 = ret (a, s2) \<and> Jni_GetPoiData 1 s2 = ret (a, s2)"
proof -
  let ?s = "a_session\<lparr>g_poiHeaderIdx := 1, m_pPoiBody := Some (0, ())\<rparr>"
  let ?s1 = "?s\<lparr>m_bChangedPoiIterator := True, m_pPoiDatasIterator := Some (0, 0)\<rparr>"
  have h: "holds_result ?s a_module" using a_session_holds by (simp add: holds_result_def)
  have first: "Jni_MoveFirstPoiData ?s = ret (True, ?s1)"
    using poi_datas_result [OF h] by (simp add: Jni_MoveFirstPoiData_def a_module_def) (simp add: a_session_def Session_new_def)
  obtain b md where m: "Module_GetSearchPoiResult (a_poi 0) a_module = ret md" "m_poiBody md = Some b"
    using a_module_poi by blast
  have "poi_current ?s1 = ret ([65], a_poi 0)" "g_pSearchModule ?s1 = Some a_module" "m_bChangedPoiIterator ?s1"
    by (simp_all add: poi_current_def a_session_def Session_new_def a_module_def)
  then have "\<exists>a s2. Jni_GetPoiData_cur ?s1 = ret (a, s2)"
    using m by (simp add: Jni_GetPoiData_cur_def fetch_current_def load_poi_def poi_array_def poi_header_def poi_body_def in_module_def)
  then obtain a s2 where "Jni_GetPoiData_cur ?s1 = ret (a, s2)" by blast
  with stale_details [OF h _ _ first this] first show ?thesis by (auto simp: a_module_def)
qed

section \<open>Reports of the position\<close>

lemma sido_index_bounds: "0 \<le> sido_index is c \<and> sido_index is c \<le> int (length is)"
  by (induction "is") auto

lemma HCODE_ok_bounds:
  assumes "HCODE_ok c"
  shows "uint (hc_gugun c) < 4096" "uint (hc_dong c) < 1048576"
proof -
  have "uint (take_bit 12 (hc_gugun c)) < 2 ^ 12" "uint (take_bit 20 (hc_dong c)) < 2 ^ 20"
    unfolding unsigned_take_bit_eq by (rule take_bit_int_less_exp)+
  with assms show "uint (hc_gugun c) < 4096" "uint (hc_dong c) < 1048576" by (simp_all add: HCODE_ok_def)
qed

lemma int_op_in: "- 2147483648 \<le> n \<Longrightarrow> n < 2147483648 \<Longrightarrow> int_op n = ret n"
  by (simp add: int_op_def)

lemma changed_code_value:
  assumes "g_pAdminBound s = Some ab" and "m_tmpHCode ab = c" and "HCODE_ok c" and "\<not> isNull c" and "c \<noteq> m_hCode ab"
  shows "\<exists>fl. Jni_ChangedLocationCode s =
     ret (Some (Some (sido_index g_sido_info (hc_sido c) * 100000000 + uint (hc_gugun c) * 100000 + uint (hc_dong c)) # fl),
          s\<lparr>g_pAdminBound := Some (ab\<lparr>m_hCode := c\<rparr>)\<rparr>)"
proof -
  let ?i = "sido_index g_sido_info (hc_sido c)"
  have b: "0 \<le> uint (hc_gugun c)" "uint (hc_gugun c) < 4096" "0 \<le> uint (hc_dong c)" "uint (hc_dong c) < 1048576"
    using HCODE_ok_bounds [OF assms(3)] by simp_all
  have i: "0 \<le> ?i" "?i \<le> 16"
    using sido_index_bounds [of g_sido_info "hc_sido c"] by (simp_all add: g_sido_info_def)
  have ops: "int_op (uint (hc_gugun c) * 100000) = ret (uint (hc_gugun c) * 100000)" "int_op (?i * 100000000) = ret (?i * 100000000)"
    "int_op (?i * 100000000 + uint (hc_gugun c) * 100000) = ret (?i * 100000000 + uint (hc_gugun c) * 100000)"
    "int_op (?i * 100000000 + uint (hc_gugun c) * 100000 + uint (hc_dong c)) = ret (?i * 100000000 + uint (hc_gugun c) * 100000 + uint (hc_dong c))"
    by (rule int_op_in; use b i in linarith)+
  obtain fl where ch: "if_changed_hcode ab = (fl, ab\<lparr>m_hCode := c\<rparr>)"
    using if_changed_hcode_state [of ab] assms(2) by (metis prod.collapse)
  then have "fl \<noteq> 0" using if_changed_hcode_flag [of ab] assms(2,5) by simp
  then show ?thesis
    using ops assms(1) by (simp add: Jni_ChangedLocationCode_def ch getHCode_def)
qed

text \<open>C11: when the position moves into a district whose code was not reported last, the next report
  returns the code, composed of the index of the province and the numbers of the city and of the district,
  without overflow; the report after that returns zero.\<close>

theorem position_reported_once:
  assumes "g_pAdminBound s = Some ab" and "m_pFile ab = Some f" and "all_outlines (fdata f) poly (m_AdminBoundaryMap ab)"
    and "c = code_at poly (word_of_int lat) (word_of_int lon) (m_AdminBoundaryMap ab)"
    and "HCODE_ok c" and "\<not> isNull c" and "c \<noteq> m_hCode ab"
  shows "\<exists>s1 s2 fl. Jni_SetLocationPos lon lat s = ret s1 \<and>
           Jni_ChangedLocationCode s1 =
             ret (Some (Some (sido_index g_sido_info (hc_sido c) * 100000000 + uint (hc_gugun c) * 100000 + uint (hc_dong c)) # fl), s2) \<and>
           Jni_ChangedLocationCode s2 = ret (Some (Some 0 # replicate 3 None), s2)"
proof -
  let ?ab = "\<lambda>f'. ab\<lparr>m_pFile := Some f', m_tmpHCode := c\<rparr>"
  obtain f' where "findBound (word_of_int lat) (word_of_int lon) ab = ret (False, ?ab f')"
    using findBound_code_finds [OF assms(2,3), of "word_of_int lat" "word_of_int lon" "m_tmpHCode ab"] assms(4)
    by (force simp: findBound_def)
  then have set: "Jni_SetLocationPos lon lat s = ret (s\<lparr>g_pAdminBound := Some (?ab f')\<rparr>)"
    using assms(1) by (simp add: Jni_SetLocationPos_def)
  let ?s1 = "s\<lparr>g_pAdminBound := Some (?ab f')\<rparr>" and ?ab2 = "(?ab f')\<lparr>m_hCode := c\<rparr>"
  obtain fl where first: "Jni_ChangedLocationCode ?s1 =
     ret (Some (Some (sido_index g_sido_info (hc_sido c) * 100000000 + uint (hc_gugun c) * 100000 + uint (hc_dong c)) # fl),
          ?s1\<lparr>g_pAdminBound := Some ?ab2\<rparr>)"
    using changed_code_value [of ?s1 "?ab f'" c] assms(5-7) by auto
  have "if_changed_hcode ?ab2 = (0, ?ab2)"
    using if_changed_hcode_flag [of ?ab2] if_changed_hcode_state [of ?ab2] assms(6) by (simp add: prod_eq_iff)
  then have "Jni_ChangedLocationCode (?s1\<lparr>g_pAdminBound := Some ?ab2\<rparr>) =
      ret (Some (Some 0 # replicate 3 None), ?s1\<lparr>g_pAdminBound := Some ?ab2\<rparr>)"
    by (simp add: Jni_ChangedLocationCode_def)
  with set first show ?thesis by blast
qed

definition a_located :: Session where
  "a_located = Session_new\<lparr>g_pAdminBound := Some
     (CAdminBoundManager_new\<lparr>m_AdminBoundaryMap := sido_map [a_sido], m_pFile := Some (fopen_rb a_file)\<rparr>)\<rparr>"

theorem position_reported_once_witness:
  "\<exists>s1 s2 fl. Jni_SetLocationPos 105 105 a_located = ret s1 \<and>
     Jni_ChangedLocationCode s1 = ret (Some (Some 11000101 # fl), s2) \<and>
     Jni_ChangedLocationCode s2 = ret (Some (Some 0 # replicate 3 None), s2)"
proof -
  have "HCODE_ok (HCODE 11 110 101)" "\<not> isNull (HCODE 11 110 101)" "HCODE 11 110 101 \<noteq> HCODE_new"
    by (simp_all add: HCODE_ok_def isNull_def HCODE_new_def)
  then show ?thesis
    using position_reported_once [of a_located _ "fopen_rb a_file" "\<lambda>_. square" "HCODE 11 110 101" 105 105]
      a_outlines a_code
    by (simp add: a_located_def CAdminBoundManager_new_def g_sido_info_def sido_info_def)
qed


section \<open>Faults\<close>

text \<open>The pointers survive the module: after \<^verbatim>\<open>ExitModule\<close> a read of a city that was listed before
  uses a deleted object.\<close>

lemma exit_leaves_dangling:
  assumes "Jni_GetSigunguCount i s = ret (n, s1)" and "g_pSearchModule s \<noteq> None"
  shows "Jni_GetSigunguName j (Jni_ExitModule s1) = fail FreedObject"
  using assms
  by (auto simp: Jni_GetSigunguCount_def bindc_eq_ret Let_def Jni_GetSigunguName_def Jni_ExitModule_def sigungu_datas_def in_module_def)

text \<open>The search for a category in a district never returns: the district it is given is a null
  pointer.\<close>

theorem GetCatePoiCount_dong_faults: "Jni_GetCatePoiCount code 1 addData s \<noteq> ret r"
  by (auto simp: Jni_GetCatePoiCount_def bindc_eq_ret Let_def)

end
