(* ===== verification/Range_Map.thy ===== *)
theory Range_Map
  imports Std_Map
begin

text \<open>
  The maps of the symbol resolver of google-breakpad that are keyed by addresses
  (\<^verbatim>\<open>src/google-breakpad/src/processor\<close>): \<^verbatim>\<open>AddressMap\<close> of \<^verbatim>\<open>address_map-inl.h\<close>, which finds the
  entry at or below an address, and \<^verbatim>\<open>RangeMap\<close> of \<^verbatim>\<open>range_map-inl.h\<close>, which holds disjoint
  ranges under their last address.  The template parameter \<^verbatim>\<open>AddressType\<close> is a word of any
  width, so that the end of a range wraps around as in the code.  The output parameters of a
  retrieval are the value of an option; the logging has no effect on the maps.
\<close>

section \<open>AddressMap\<close>

type_synonym ('w, 'e) AddressMap = "('w word, 'e) std_map"

definition AddressMap_Store ::
    "'w::len word \<Rightarrow> 'e \<Rightarrow> ('w, 'e) AddressMap \<Rightarrow> bool \<times> ('w, 'e) AddressMap" where
  "AddressMap_Store address entry m =
     (if map_find address m \<noteq> None then (False, m) else (True, map_insert address entry m))"

definition AddressMap_Retrieve :: "'w::len word \<Rightarrow> ('w, 'e) AddressMap \<Rightarrow> ('e \<times> 'w word) option" where
  "AddressMap_Retrieve address m =
     (let iterator = upper_bound address m in
      if iterator = 0 then None
      else let entry = m ! (iterator - 1) in Some (snd entry, fst entry))"

definition AddressMap_Clear :: "('w::len, 'e) AddressMap \<Rightarrow> ('w, 'e) AddressMap" where
  "AddressMap_Clear m = []"

section \<open>RangeMap\<close>

record ('a, 'e) Range =
  range_base :: 'a
  range_entry :: 'e

type_synonym ('w, 'e) RangeMap = "('w word, ('w word, 'e) Range) std_map"

definition RangeMap_StoreRange ::
    "'w::len word \<Rightarrow> 'w word \<Rightarrow> 'e \<Rightarrow> ('w, 'e) RangeMap \<Rightarrow> bool \<times> ('w, 'e) RangeMap" where
  "RangeMap_StoreRange base sz entry m =
     (let high = base + sz - 1 in
      if sz \<le> 0 \<or> high < base then (False, m)
      else
        let iterator_base = lower_bound base m;
            iterator_high = lower_bound high m in
        if iterator_base \<noteq> iterator_high then (False, m)
        else if iterator_high \<noteq> length m \<and> range_base (snd (m ! iterator_high)) \<le> high then (False, m)
        else (True, map_insert high \<lparr>range_base = base, range_entry = entry\<rparr> m))"

text \<open>The entry, the base and the size an iterator stands for.\<close>

definition range_out :: "'w::len word \<times> ('w word, 'e) Range \<Rightarrow> 'e \<times> 'w word \<times> 'w word" where
  "range_out it = (range_entry (snd it), range_base (snd it), fst it - range_base (snd it) + 1)"

definition RangeMap_RetrieveRange ::
    "'w::len word \<Rightarrow> ('w, 'e) RangeMap \<Rightarrow> ('e \<times> 'w word \<times> 'w word) option" where
  "RangeMap_RetrieveRange address m =
     (let iterator = lower_bound address m in
      if iterator = length m then None
      else if address < range_base (snd (m ! iterator)) then None
      else Some (range_out (m ! iterator)))"

definition RangeMap_RetrieveNearestRange ::
    "'w::len word \<Rightarrow> ('w, 'e) RangeMap \<Rightarrow> ('e \<times> 'w word \<times> 'w word) option" where
  "RangeMap_RetrieveNearestRange address m =
     (case RangeMap_RetrieveRange address m of
        Some r \<Rightarrow> Some r
      | None \<Rightarrow>
          (let iterator = upper_bound address m in
           if iterator = 0 then None else Some (range_out (m ! (iterator - 1)))))"

definition RangeMap_GetCount :: "('w::len, 'e) RangeMap \<Rightarrow> int" where
  "RangeMap_GetCount m = int (length m)"

text \<open>The walk to an index starts at the first range and makes no step for a negative index.\<close>

definition RangeMap_RetrieveRangeAtIndex ::
    "int \<Rightarrow> ('w::len, 'e) RangeMap \<Rightarrow> ('e \<times> 'w word \<times> 'w word) option comp" where
  "RangeMap_RetrieveRangeAtIndex index m =
     (if index \<ge> RangeMap_GetCount m then ret None
      else bindc (at m (nat index)) (\<lambda>it. ret (Some (range_out it))))"

definition RangeMap_Clear :: "('w::len, 'e) RangeMap \<Rightarrow> ('w, 'e) RangeMap" where
  "RangeMap_Clear m = []"

section \<open>Laws of AddressMap\<close>

text \<open>The greatest stored address at or below the given one is the one that is retrieved.\<close>

lemma AddressMap_Retrieve_floor:
  assumes "map_ok m" "AddressMap_Retrieve a m = Some (e, b)"
  shows "(b, e) \<in> set m" "b \<le> a" "\<forall>(k, v) \<in> set m. k \<le> a \<longrightarrow> k \<le> b"
proof -
  let ?i = "upper_bound a m - 1"
  have ne: "upper_bound a m \<noteq> 0" and it: "m ! ?i = (b, e)"
    using assms(2) by (auto simp: AddressMap_Retrieve_def Let_def prod_eq_iff split: if_splits)
  note floor = std.upper_floor [OF assms(1) ne]
  show "(b, e) \<in> set m" using floor(1) it by (metis nth_mem)
  show "b \<le> a" using floor(2) it by (simp add: key_of_def)
  show "\<forall>(k, v) \<in> set m. k \<le> a \<longrightarrow> k \<le> b"
    using floor(3) it by (auto simp: key_of_def in_set_conv_nth) (metis fst_conv)
qed

lemma AddressMap_Retrieve_None:
  assumes "map_ok m"
  shows "AddressMap_Retrieve a m = None \<longleftrightarrow> (\<forall>(k, v) \<in> set m. a < k)"
  unfolding AddressMap_Retrieve_def Let_def
  using std.upper_zero_iff [OF assms, of a] by (auto simp: key_of_def in_set_conv_nth all_set_conv_all_nth split_beta)

lemma AddressMap_Store_ok:
  "map_ok m \<Longrightarrow> map_ok (snd (AddressMap_Store a e m))"
  by (simp add: AddressMap_Store_def)

section \<open>Entries that span disjoint intervals\<close>

text \<open>
  Both kinds of range maps file an interval under its last address, here \<open>fst\<close> of the entry; \<open>lo\<close>
  gives its first address.  The intervals are not empty and lie one above the other.
\<close>

definition span_ok :: "('v \<Rightarrow> 'k::linorder) \<Rightarrow> ('k, 'v) std_map \<Rightarrow> bool" where
  "span_ok lo m \<longleftrightarrow> (\<forall>r \<in> set m. lo (snd r) \<le> fst r) \<and> sorted_wrt (\<lambda>x y. fst x < lo (snd y)) m"

lemma span_ok_Nil [simp]: "span_ok lo []"
  by (simp add: span_ok_def)

lemma span_ok_Cons:
  "span_ok lo (r # m) \<longleftrightarrow> lo (snd r) \<le> fst r \<and> (\<forall>s \<in> set m. fst r < lo (snd s)) \<and> span_ok lo m"
  by (auto simp: span_ok_def)

lemma span_ok_append:
  "span_ok lo (xs @ ys) \<longleftrightarrow> span_ok lo xs \<and> span_ok lo ys \<and> (\<forall>x \<in> set xs. \<forall>y \<in> set ys. fst x < lo (snd y))"
  by (auto simp: span_ok_def sorted_wrt_append)

lemma span_map_ok: "span_ok lo m \<Longrightarrow> map_ok m"
proof -
  assume ok: "span_ok lo m"
  then have "sorted_wrt (\<lambda>x y. fst x < lo (snd y)) m" by (simp add: span_ok_def)
  then have "sorted_wrt (\<lambda>x y. fst x < fst y) m"
    using ok by (elim sorted_wrt_mono_rel [rotated]) (auto simp: span_ok_def)
  then show ?thesis by (simp add: map_ok_def sorted_wrt_map)
qed

lemma span_order: "span_ok lo m \<Longrightarrow> i < j \<Longrightarrow> j < length m \<Longrightarrow> fst (m ! i) < lo (snd (m ! j))"
  using sorted_wrt_nth_less [of "\<lambda>x y. fst x < lo (snd y)" m i j] by (simp add: span_ok_def)

lemma span_base: "span_ok lo m \<Longrightarrow> i < length m \<Longrightarrow> lo (snd (m ! i)) \<le> fst (m ! i)"
  by (simp add: span_ok_def)

lemma span_lo_mono:
  assumes "span_ok lo m" "i \<le> j" "j < length m"
  shows "lo (snd (m ! i)) \<le> lo (snd (m ! j))"
  using span_order [OF assms(1), of i j] span_base [OF assms(1), of i] assms(2,3)
  by (cases "i = j") auto

text \<open>The lower bound of an address inside an interval is that interval.\<close>

lemma span_hit:
  assumes "span_ok lo m" "i < length m" "lo (snd (m ! i)) \<le> a" "a \<le> fst (m ! i)"
  shows "lower_bound a m = i"
proof (rule std.lower_unique [OF span_map_ok [OF assms(1)]])
  show "key_of m j < a" if "j < i" for j
    using span_order [OF assms(1) that assms(2)] assms(3) by (auto simp: key_of_def)
  show "a \<le> key_of m j" if "i \<le> j" "j < length m" for j
    using std.increasing [OF span_map_ok [OF assms(1)] _ that(2), of i] that assms(4)
    by (cases "i = j") (auto simp: key_of_def)
qed (use assms in simp)

section \<open>Laws of RangeMap\<close>

text \<open>
  The invariant, and the ranges of a map as triples of base, last address and entry.
\<close>

definition range_ok :: "('w::len, 'e) RangeMap \<Rightarrow> bool" where
  "range_ok m \<longleftrightarrow> span_ok range_base m"

definition ranges :: "('w::len, 'e) RangeMap \<Rightarrow> ('w word \<times> 'w word \<times> 'e) set" where
  "ranges m = (\<lambda>r. (range_base (snd r), fst r, range_entry (snd r))) ` set m"

definition apart :: "'w::len word \<Rightarrow> 'w word \<Rightarrow> 'w word \<Rightarrow> 'w word \<Rightarrow> bool" where
  "apart base high b h \<longleftrightarrow> h < base \<or> high < b"

lemma range_ok_Nil [simp]: "range_ok []"
  by (simp add: range_ok_def)

lemma range_ok_Cons:
  "range_ok (r # m) \<longleftrightarrow>
     range_base (snd r) \<le> fst r \<and> (\<forall>s \<in> set m. fst r < range_base (snd s)) \<and> range_ok m"
  by (simp add: range_ok_def span_ok_Cons)

lemma range_ok_map_ok: "range_ok m \<Longrightarrow> map_ok m"
  unfolding range_ok_def by (rule span_map_ok)

lemma range_ok_base: "range_ok m \<Longrightarrow> i < length m \<Longrightarrow> range_base (snd (m ! i)) \<le> fst (m ! i)"
  unfolding range_ok_def by (rule span_base)

lemma map_insert_append:
  assumes "map_ok m" "k \<notin> fst ` set m"
  shows "map_insert k v m = take (lower_bound k m) m @ (k, v) # drop (lower_bound k m) m"
  using assms
proof (induction k v m rule: map_insert.induct)
  case (2 k v k' v' m)
  consider "k < k'" | "k' < k" using 2(3) by fastforce
  then show ?case
  proof cases
    case 1
    then have "lower_bound k ((k', v') # m) = 0" by (simp add: lower_bound_def)
    with 1 show ?thesis by simp
  next
    case b: 2
    then have "lower_bound k ((k', v') # m) = Suc (lower_bound k m)" by (simp add: lower_bound_def)
    with 2 b show ?thesis by auto
  qed
qed (simp add: lower_bound_def)

text \<open>The two tests of \<^verbatim>\<open>StoreRange\<close> succeed exactly for a range that is apart from all others.\<close>

lemma store_tests:
  assumes ok: "range_ok m" and "base \<le> high"
  shows "lower_bound base m = lower_bound high m \<and>
           \<not> (lower_bound high m \<noteq> length m \<and> range_base (snd (m ! lower_bound high m)) \<le> high) \<longleftrightarrow>
         (\<forall>i < length m. apart base high (range_base (snd (m ! i))) (fst (m ! i)))"
    (is "?L \<longleftrightarrow> ?R")
proof
  note mok = range_ok_map_ok [OF ok]
  assume L: ?L
  show ?R
  proof (intro allI impI)
    fix i assume i: "i < length m"
    show "apart base high (range_base (snd (m ! i))) (fst (m ! i))"
    proof (cases "i < lower_bound base m")
      case True
      then show ?thesis using std.lower_below [OF mok] by (simp add: apart_def key_of_def)
    next
      case False
      with L i have "high < range_base (snd (m ! lower_bound high m))" "lower_bound high m \<le> i"
        by auto
      moreover have "range_base (snd (m ! lower_bound high m)) \<le> range_base (snd (m ! i))"
        using span_lo_mono [OF ok [unfolded range_ok_def] _ i] \<open>lower_bound high m \<le> i\<close> by blast
      ultimately show ?thesis by (auto simp: apart_def)
    qed
  qed
next
  note mok = range_ok_map_ok [OF ok]
  assume R: ?R
  have "fst (m ! i) < base \<or> high \<le> fst (m ! i)" if "i < length m" for i
    using R that range_ok_base [OF ok that] by (fastforce simp: apart_def)
  then have eq: "lower_bound base m = lower_bound high m"
    using std.lower_eq_iff [OF mok assms(2)] by (simp add: key_of_def)
  moreover have "high < range_base (snd (m ! lower_bound high m))" if "lower_bound high m < length m"
    using R that std.lower_above [OF mok, of base "lower_bound high m"] eq
    by (auto simp: apart_def key_of_def)
  ultimately show ?L
    using std.lower_le [OF mok, of high] by fastforce
qed

lemma range_ok_insert:
  assumes "range_ok m" "base \<le> high"
    and far: "\<forall>i < length m. apart base high (range_base (snd (m ! i))) (fst (m ! i))"
  shows "range_ok (map_insert high \<lparr>range_base = base, range_entry = e\<rparr> m)"
    and "ranges (map_insert high \<lparr>range_base = base, range_entry = e\<rparr> m) = insert (base, high, e) (ranges m)"
proof -
  have far': "apart base high (range_base (snd r)) (fst r)" if "r \<in> set m" for r
    using far that by (auto simp: in_set_conv_nth)
  have fresh: "high \<notin> fst ` set m"
    using far' assms by (force simp: apart_def range_ok_def span_ok_def)
  show "range_ok (map_insert high \<lparr>range_base = base, range_entry = e\<rparr> m)"
    using assms(1,2) far'
  proof (induction m)
    case (Cons r m)
    obtain k v where r: "r = (k, v)" by (cases r)
    have kv: "k < base \<or> high < range_base v" "range_base v \<le> k"
      using Cons.prems(1) Cons.prems(3) [of r] r by (auto simp: apart_def range_ok_Cons)
    show ?case
    proof (cases "high < k")
      case True
      with kv Cons.prems(2) have "high < range_base v" by auto
      with True Cons.prems r show ?thesis
        by (fastforce simp: range_ok_Cons)
    next
      case False
      with kv Cons.prems(2) have "k < base" "high \<noteq> k" by auto
      with False Cons r show ?thesis
        by (auto simp: range_ok_Cons dest!: map_insert_set)
    qed
  qed (simp add: range_ok_Cons)
  have "set (map_insert high \<lparr>range_base = base, range_entry = e\<rparr> m) =
          insert (high, \<lparr>range_base = base, range_entry = e\<rparr>) (set m)"
    unfolding map_insert_append [OF range_ok_map_ok [OF assms(1)] fresh]
    by simp (metis append_take_drop_id set_append)
  then show "ranges (map_insert high \<lparr>range_base = base, range_entry = e\<rparr> m) = insert (base, high, e) (ranges m)"
    by (simp add: ranges_def)
qed

text \<open>Retrieval is the search for the one range around the address.\<close>

lemma RetrieveRange_iff:
  assumes ok: "range_ok m"
  shows "RangeMap_RetrieveRange a m = Some (e, b, s) \<longleftrightarrow>
           (\<exists>h. (b, h, e) \<in> ranges m \<and> b \<le> a \<and> a \<le> h \<and> s = h - b + 1)" (is "?L \<longleftrightarrow> ?R")
proof
  note mok = range_ok_map_ok [OF ok]
  let ?i = "lower_bound a m"
  {
    assume L: ?L
    then have i: "?i \<noteq> length m" "\<not> a < range_base (snd (m ! ?i))" "range_out (m ! ?i) = (e, b, s)"
      by (auto simp: RangeMap_RetrieveRange_def Let_def split: if_splits)
    then have lt: "?i < length m" using std.lower_le [OF mok, of a] by simp
    then have "m ! ?i \<in> set m" by simp
    moreover have "a \<le> fst (m ! ?i)" using std.lower_above [OF mok, of a ?i] lt by (simp add: key_of_def)
    ultimately show ?R using i by (force simp: ranges_def range_out_def)
  }
  assume ?R
  then obtain h where h: "(b, h, e) \<in> ranges m" "b \<le> a" "a \<le> h" "s = h - b + 1" by blast
  then obtain i where i: "i < length m" "b = range_base (snd (m ! i))" "h = fst (m ! i)" "e = range_entry (snd (m ! i))"
    by (auto simp: ranges_def in_set_conv_nth)
  have "?i = i" using span_hit [OF ok [unfolded range_ok_def]] h i by blast
  then show ?L
    using h i by (auto simp: RangeMap_RetrieveRange_def range_out_def)
qed

text \<open>Nearest retrieval outside of all ranges: the last range that ends below the address.\<close>

lemma RetrieveNearestRange_below:
  assumes ok: "range_ok m" and none: "RangeMap_RetrieveRange a m = None"
    and some: "RangeMap_RetrieveNearestRange a m = Some (e, b, s)"
  shows "\<exists>h. (b, h, e) \<in> ranges m \<and> h < a \<and> s = h - b + 1 \<and>
             (\<forall>(b', h', e') \<in> ranges m. h' < a \<longrightarrow> h' \<le> h)"
proof -
  note mok = range_ok_map_ok [OF ok]
  let ?i = "upper_bound a m - 1"
  have ne: "upper_bound a m \<noteq> 0" and it: "range_out (m ! ?i) = (e, b, s)"
    using none some by (auto simp: RangeMap_RetrieveNearestRange_def Let_def split: if_splits)
  note floor = std.upper_floor [OF mok ne]
  let ?h = "fst (m ! ?i)"
  have mem: "(b, ?h, e) \<in> ranges m"
    using floor(1) it by (force simp: ranges_def range_out_def)
  have "?h \<le> a" using floor(2) by (simp add: key_of_def)
  moreover have "?h \<noteq> a"
    using RetrieveRange_iff [OF ok, of a e b "a - b + 1"] none mem floor(1) range_ok_base [OF ok, of ?i] it
    by (auto simp: range_out_def)
  ultimately have "?h < a" by simp
  moreover have "\<forall>(b', h', e') \<in> ranges m. h' < a \<longrightarrow> h' \<le> ?h"
    using floor(3) by (fastforce simp: ranges_def in_set_conv_nth key_of_def)
  ultimately show ?thesis using mem it by (auto simp: range_out_def)
qed

lemma StoreRange_cases:
  assumes ok: "range_ok m"
  shows "RangeMap_StoreRange base sz e m =
    (if sz \<noteq> 0 \<and> base \<le> base + sz - 1 \<and> (\<forall>(b, h, e') \<in> ranges m. apart base (base + sz - 1) b h)
     then (True, map_insert (base + sz - 1) \<lparr>range_base = base, range_entry = e\<rparr> m) else (False, m))"
proof (cases "sz = 0 \<or> base + sz - 1 < base")
  case True
  then show ?thesis by (auto simp: RangeMap_StoreRange_def Let_def)
next
  case False
  then have le: "base \<le> base + sz - 1" and pos: "\<not> sz \<le> 0" by (auto simp: word_le_0_iff)
  have "(\<forall>i < length m. apart base (base + sz - 1) (range_base (snd (m ! i))) (fst (m ! i))) \<longleftrightarrow>
          (\<forall>(b, h, e') \<in> ranges m. apart base (base + sz - 1) b h)"
    by (simp add: ranges_def all_set_conv_all_nth)
  note far = trans [OF store_tests [OF ok le] this]
  have "RangeMap_StoreRange base sz e m =
      (if lower_bound base m = lower_bound (base + sz - 1) m \<and>
          \<not> (lower_bound (base + sz - 1) m \<noteq> length m \<and>
             range_base (snd (m ! lower_bound (base + sz - 1) m)) \<le> base + sz - 1)
       then (True, map_insert (base + sz - 1) \<lparr>range_base = base, range_entry = e\<rparr> m) else (False, m))"
    using False pos unfolding RangeMap_StoreRange_def Let_def by (simp del: not_less)
  then show ?thesis unfolding far using le pos by simp
qed

lemma no_wrap_iff:
  fixes base sz :: "'w::len word"
  assumes "sz \<noteq> 0"
  shows "base \<le> base + sz - 1 \<longleftrightarrow> uint base + uint sz \<le> 2 ^ LENGTH('w)"
proof -
  have "1 \<le> sz" using word_le_sub1 [OF assms] by simp
  then have "uint (sz - 1) = uint sz - 1" using uint_sub_lem [of 1 sz] by (simp add: word_le_def)
  then show ?thesis using no_olen_add [of base "sz - 1"] by (auto simp: algebra_simps)
qed

lemma StoreRange_effect:
  assumes "range_ok m" "RangeMap_StoreRange base sz e m = (True, m')"
  shows "range_ok m'" "ranges m' = insert (base, base + sz - 1, e) (ranges m)" "base \<le> base + sz - 1"
    and "\<And>b h e'. (b, h, e') \<in> ranges m \<Longrightarrow> h < base \<or> base + sz - 1 < b"
proof -
  have far: "base \<le> base + sz - 1" "\<forall>(b, h, e') \<in> ranges m. apart base (base + sz - 1) b h"
    and m': "m' = map_insert (base + sz - 1) \<lparr>range_base = base, range_entry = e\<rparr> m"
    using assms(2) StoreRange_cases [OF assms(1), of base sz e] by (auto split: if_splits)
  have far': "\<forall>i < length m. apart base (base + sz - 1) (range_base (snd (m ! i))) (fst (m ! i))"
    using far(2) by (simp add: ranges_def all_set_conv_all_nth)
  show "range_ok m'" "ranges m' = insert (base, base + sz - 1, e) (ranges m)" "base \<le> base + sz - 1"
    using range_ok_insert [OF assms(1) far(1) far'] far(1) unfolding m' by auto
  show "h < base \<or> base + sz - 1 < b" if "(b, h, e') \<in> ranges m" for b h e'
    using far(2) that by (auto simp: apart_def)
qed

section \<open>Properties\<close>

text \<open>C25: StoreRange of a consistent map accepts a range exactly when it is not empty, does not wrap
  around the end of the address space and is apart from every stored range.  The accepted range joins
  the set of ranges and the map stays consistent; a refused one leaves the map as it was.\<close>

theorem StoreRange_refines:
  fixes base sz :: "'w::len word"
  assumes "range_ok m"
  shows "let (r, m') = RangeMap_StoreRange base sz e m; high = base + sz - 1 in
    range_ok m' \<and>
    (r \<longleftrightarrow> sz \<noteq> 0 \<and> uint base + uint sz \<le> 2 ^ LENGTH('w) \<and> (\<forall>(b, h, e') \<in> ranges m. h < base \<or> high < b)) \<and>
    (r \<longrightarrow> ranges m' = insert (base, high, e) (ranges m)) \<and> (\<not> r \<longrightarrow> m' = m)"
  using StoreRange_cases [OF assms, of base sz e] range_ok_insert [OF assms, of base "base + sz - 1" e]
    no_wrap_iff [of sz base] assms
  by (auto simp: Let_def apart_def ranges_def all_set_conv_all_nth split: if_splits)

definition two_ranges :: "(64, nat) RangeMap" where
  "two_ranges = [(0x1FFF, \<lparr>range_base = 0x1000, range_entry = 1\<rparr>), (0x4FFF, \<lparr>range_base = 0x4000, range_entry = 2\<rparr>)]"

lemma two_ranges_ok: "range_ok two_ranges"
  by (simp add: two_ranges_def range_ok_Cons)

lemma ranges_two_ranges: "ranges two_ranges = {(0x1000, 0x1FFF, 1), (0x4000, 0x4FFF, 2)}"
  by (simp add: two_ranges_def ranges_def)

theorem StoreRange_refines_witness:
  "range_ok two_ranges \<and>
   fst (RangeMap_StoreRange 0x2000 0x2000 7 two_ranges) \<and>
   ranges (snd (RangeMap_StoreRange 0x2000 0x2000 7 two_ranges)) =
     {(0x2000, 0x3FFF, 7), (0x1000, 0x1FFF, 1), (0x4000, 0x4FFF, 2)} \<and>
   \<not> fst (RangeMap_StoreRange 0x2000 0x2001 7 two_ranges)"
  using StoreRange_refines [OF two_ranges_ok, of "0x2000" "0x2000" 7]
    StoreRange_refines [OF two_ranges_ok, of "0x2000" "0x2001" 7] two_ranges_ok
  by (simp add: Let_def split_beta ranges_two_ranges)

text \<open>C26: After a range was stored, RetrieveRange of an address inside it returns its entry, its base
  and its size, and every other address is retrieved as before.\<close>

theorem RetrieveRange_stored:
  assumes "range_ok m" "RangeMap_StoreRange base sz e m = (True, m')"
  shows "RangeMap_RetrieveRange a m' =
           (if base \<le> a \<and> a \<le> base + sz - 1 then Some (e, base, sz) else RangeMap_RetrieveRange a m)"
proof -
  note eff = StoreRange_effect [OF assms]
  note iff' = RetrieveRange_iff [OF eff(1), unfolded eff(2)] and iff = RetrieveRange_iff [OF assms(1)]
  show ?thesis
  proof (cases "base \<le> a \<and> a \<le> base + sz - 1")
    case True
    then show ?thesis using iff' [of a e base sz] by auto
  next
    case False
    have "RangeMap_RetrieveRange a m' = Some (e', b, s) \<longleftrightarrow> RangeMap_RetrieveRange a m = Some (e', b, s)" for e' b s
      unfolding iff iff' using False by auto
    then have "RangeMap_RetrieveRange a m' = RangeMap_RetrieveRange a m"
      by (metis option.exhaust prod_cases3)
    with False show ?thesis by auto
  qed
qed

theorem RetrieveRange_stored_witness:
  "RangeMap_RetrieveRange 0x2ABC (snd (RangeMap_StoreRange 0x2000 0x2000 7 two_ranges)) = Some (7, 0x2000, 0x2000) \<and>
   RangeMap_RetrieveRange 0x4ABC (snd (RangeMap_StoreRange 0x2000 0x2000 7 two_ranges)) = Some (2, 0x4000, 0x1000)"
proof -
  have st: "RangeMap_StoreRange 0x2000 0x2000 7 two_ranges =
              (True, snd (RangeMap_StoreRange 0x2000 0x2000 7 two_ranges))"
    by (simp add: RangeMap_StoreRange_def two_ranges_def lower_bound_def)
  show ?thesis
    using RetrieveRange_stored [OF two_ranges_ok st, of "0x2ABC"]
      RetrieveRange_stored [OF two_ranges_ok st, of "0x4ABC"]
    by (simp add: RangeMap_RetrieveRange_def two_ranges_def lower_bound_def range_out_def)
qed

end
