(* ===== verification/Static_Map.thy ===== *)
theory Static_Map
  imports Range_Map
begin

text \<open>
  The read-only maps of google-breakpad in one block of memory: \<^verbatim>\<open>StaticMap\<close> and its iterator
  (\<^verbatim>\<open>static_map.h\<close>, \<^verbatim>\<open>static_map-inl.h\<close>, \<^verbatim>\<open>static_map_iterator.h\<close>, \<^verbatim>\<open>static_map_iterator-inl.h\<close>),
  \<^verbatim>\<open>StaticAddressMap\<close> and \<^verbatim>\<open>StaticRangeMap\<close>.  A map is the number of its entries, the offsets of
  their values, the keys and the values, one after the other.

  The block is a list of bytes and a pointer a position in it; a read outside of it is a fault.
  The keys are addresses (\<^verbatim>\<open>MemAddr\<close>) in the default order.  The 32-bit integers of the code are
  \<^typ>\<open>int\<close>; the one operation on them that may leave the range is checked.
\<close>

type_synonym MemAddr = u64

definition peek :: "u8 list \<Rightarrow> nat \<Rightarrow> nat \<Rightarrow> 'a::len word comp" where
  "peek mem n p = (if p + n \<le> length mem then ret (le_word (take n (drop p mem))) else fail OutOfRange)"

section \<open>The iterator\<close>

record StaticMapIterator =
  it_index :: int
  it_base :: "nat option"
  it_num_nodes :: int
  it_offsets :: nat
  it_keys :: int

definition StaticMapIterator_new :: "u8 list \<Rightarrow> nat option \<Rightarrow> int \<Rightarrow> StaticMapIterator comp" where
  "StaticMapIterator_new mem base index =
     bindc (deref base) (\<lambda>p.
     bindc (peek mem 4 p) (\<lambda>n :: u32.
     ret \<lparr>it_index = index, it_base = base, it_num_nodes = sint n, it_offsets = p + 4,
          it_keys = int p + (1 + sint n) * 4\<rparr>))"

definition it_IsValid :: "StaticMapIterator \<Rightarrow> bool" where
  "it_IsValid it \<longleftrightarrow> \<not> (it_base it = None \<or> it_index it < 0 \<or> it_index it > it_num_nodes it)"

definition it_incr :: "StaticMapIterator \<Rightarrow> StaticMapIterator comp" where
  "it_incr it =
     (if \<not> it_IsValid it then ret it
      else if it_index it + 1 \<ge> 2 ^ 31 then fail IntOverflow
      else if it_index it + 1 > it_num_nodes it then ret (it\<lparr>it_index := it_num_nodes it\<rparr>)
      else ret (it\<lparr>it_index := it_index it + 1\<rparr>))"

text \<open>The postfix operators return the iterator as it was, together with the changed one.\<close>

definition it_incr_post :: "StaticMapIterator \<Rightarrow> (StaticMapIterator \<times> StaticMapIterator) comp" where
  "it_incr_post it =
     (if \<not> it_IsValid it then ret (it, it)
      else bindc (it_incr it) (\<lambda>it'. ret (it, it')))"

definition it_decr :: "StaticMapIterator \<Rightarrow> StaticMapIterator" where
  "it_decr it =
     (if \<not> it_IsValid it then it
      else if it_index it - 1 < 0 then it\<lparr>it_index := 0\<rparr>
      else it\<lparr>it_index := it_index it - 1\<rparr>)"

definition it_decr_post :: "StaticMapIterator \<Rightarrow> StaticMapIterator \<times> StaticMapIterator" where
  "it_decr_post it = (if \<not> it_IsValid it then (it, it) else (it, it_decr it))"

definition it_GetKeyPtr :: "StaticMapIterator \<Rightarrow> int option" where
  "it_GetKeyPtr it = (if \<not> it_IsValid it then None else Some (it_keys it + 8 * it_index it))"

definition it_GetKey :: "u8 list \<Rightarrow> StaticMapIterator \<Rightarrow> MemAddr comp" where
  "it_GetKey mem it = bindc (deref (it_GetKeyPtr it)) (\<lambda>p. peek mem 8 (nat p))"

definition it_GetValueRawPtr :: "u8 list \<Rightarrow> StaticMapIterator \<Rightarrow> nat option comp" where
  "it_GetValueRawPtr mem it =
     (if \<not> it_IsValid it then ret None
      else bindc (deref (it_base it)) (\<lambda>base.
           bindc (peek mem 4 (it_offsets it + 4 * nat (it_index it))) (\<lambda>ofs :: u32.
           ret (Some (base + unat ofs)))))"

definition it_equal :: "StaticMapIterator \<Rightarrow> StaticMapIterator \<Rightarrow> bool" where
  "it_equal it x \<longleftrightarrow> it_base it = it_base x \<and> it_index it = it_index x"

section \<open>The map\<close>

record StaticMap =
  raw_data :: "nat option"
  num_nodes :: int
  offsets :: nat
  keys :: int

definition StaticMap_new :: "u8 list \<Rightarrow> nat \<Rightarrow> StaticMap comp" where
  "StaticMap_new mem p =
     bindc (peek mem 4 p) (\<lambda>n :: u32.
     ret \<lparr>raw_data = Some p, num_nodes = sint n, offsets = p + 4, keys = int p + (1 + sint n) * 4\<rparr>)"

definition StaticMap_default :: StaticMap where
  "StaticMap_default = \<lparr>raw_data = None, num_nodes = 0, offsets = 0, keys = 0\<rparr>"

definition IteratorAtIndex :: "u8 list \<Rightarrow> StaticMap \<Rightarrow> int \<Rightarrow> StaticMapIterator comp" where
  "IteratorAtIndex mem s index = StaticMapIterator_new mem (raw_data s) index"

definition DefaultCompare :: "'k::linorder \<Rightarrow> 'k \<Rightarrow> int" where
  "DefaultCompare k1 k2 = (if k1 < k2 then -1 else if k1 = k2 then 0 else 1)"

definition GetKeyAtIndex :: "u8 list \<Rightarrow> StaticMap \<Rightarrow> int \<Rightarrow> MemAddr comp" where
  "GetKeyAtIndex mem s index =
     (if index < 0 \<or> index \<ge> num_nodes s then ret 0
      else peek mem 8 (nat (keys s + 8 * index)))"

text \<open>The loop the three searches share, for the keys \<open>get_key\<close> reads: \<open>Inl\<close> the position of the key,
  or \<open>Inr\<close> the position where it would stand.\<close>

function StaticMap_loop :: "(int \<Rightarrow> 'k::linorder comp) \<Rightarrow> 'k \<Rightarrow> int \<Rightarrow> int \<Rightarrow> (int + int) comp" where
  "StaticMap_loop get_key key begin end =
     (if begin < end
      then let middle = begin + (end - begin) div 2 in
           bindc (get_key middle) (\<lambda>k.
           let compare_result = DefaultCompare key k in
           if compare_result = 0 then ret (Inl middle)
           else if compare_result < 0 then StaticMap_loop get_key key begin middle
           else StaticMap_loop get_key key (middle + 1) end)
      else ret (Inr begin))"
  by pat_completeness auto
termination
  by (relation "measure (\<lambda>(get_key, key, begin, end). nat (end - begin))") auto

declare StaticMap_loop.simps [simp del]

definition StaticMap_find :: "u8 list \<Rightarrow> StaticMap \<Rightarrow> MemAddr \<Rightarrow> StaticMapIterator comp" where
  "StaticMap_find mem s key =
     bindc (StaticMap_loop (GetKeyAtIndex mem s) key 0 (num_nodes s)) (\<lambda>r.
     case r of Inl middle \<Rightarrow> IteratorAtIndex mem s middle
             | Inr _ \<Rightarrow> IteratorAtIndex mem s (num_nodes s))"

definition StaticMap_lower_bound :: "u8 list \<Rightarrow> StaticMap \<Rightarrow> MemAddr \<Rightarrow> StaticMapIterator comp" where
  "StaticMap_lower_bound mem s key =
     bindc (StaticMap_loop (GetKeyAtIndex mem s) key 0 (num_nodes s)) (\<lambda>r.
     case r of Inl middle \<Rightarrow> IteratorAtIndex mem s middle
             | Inr begin \<Rightarrow> IteratorAtIndex mem s begin)"

definition StaticMap_upper_bound :: "u8 list \<Rightarrow> StaticMap \<Rightarrow> MemAddr \<Rightarrow> StaticMapIterator comp" where
  "StaticMap_upper_bound mem s key =
     bindc (StaticMap_loop (GetKeyAtIndex mem s) key 0 (num_nodes s)) (\<lambda>r.
     case r of Inl middle \<Rightarrow> IteratorAtIndex mem s (middle + 1)
             | Inr begin \<Rightarrow> IteratorAtIndex mem s begin)"

text \<open>The checks of the nodes from \<open>i\<close> on.\<close>

function Validate_loop :: "u8 list \<Rightarrow> StaticMap \<Rightarrow> int \<Rightarrow> bool comp" where
  "Validate_loop mem s node_index =
     (if node_index < num_nodes s
      then bindc (peek mem 4 (offsets s + 4 * nat node_index)) (\<lambda>ofs :: u32.
           bindc (peek mem 4 (offsets s + 4 * nat (node_index - 1))) (\<lambda>before :: u32.
           if ofs \<le> before then ret False
           else bindc (GetKeyAtIndex mem s node_index) (\<lambda>k.
                bindc (GetKeyAtIndex mem s (node_index - 1)) (\<lambda>k'.
                if DefaultCompare k k' \<le> 0 then ret False
                else Validate_loop mem s (node_index + 1)))))
      else ret True)"
  by pat_completeness auto
termination
  by (relation "measure (\<lambda>(mem, s, i). nat (num_nodes s - i))") auto

declare Validate_loop.simps [simp del]

definition ValidateInMemoryStructure :: "u8 list \<Rightarrow> StaticMap \<Rightarrow> bool comp" where
  "ValidateInMemoryStructure mem s =
     (case raw_data s of
        None \<Rightarrow> ret False
      | Some p \<Rightarrow>
          bindc (peek mem 4 p) (\<lambda>n :: u32.
          if sint n < 0 then ret False
          else
            let first_offset = 4 * (num_nodes s + 1) + 8 * num_nodes s in
            if num_nodes s \<noteq> 0 \<and> first_offset > 0xffffffff then ret False
            else if num_nodes s \<noteq> 0
            then bindc (peek mem 4 (offsets s)) (\<lambda>ofs :: u32.
                 if ofs \<noteq> of_int first_offset then ret False else Validate_loop mem s 1)
            else Validate_loop mem s 1))"

section \<open>The maps keyed by addresses\<close>

text \<open>The entry is returned as a pointer into the block.\<close>

definition StaticAddressMap_Retrieve :: "u8 list \<Rightarrow> StaticMap \<Rightarrow> MemAddr \<Rightarrow> (nat option \<times> MemAddr) option comp" where
  "StaticAddressMap_Retrieve mem s address =
     bindc (StaticMap_upper_bound mem s address) (\<lambda>iterator.
     bindc (IteratorAtIndex mem s 0) (\<lambda>begin.
     if it_equal iterator begin then ret None
     else
       let iterator = it_decr iterator in
       bindc (it_GetValueRawPtr mem iterator) (\<lambda>entry.
       bindc (it_GetKey mem iterator) (\<lambda>entry_address.
       ret (Some (entry, entry_address))))))"

text \<open>A \<^verbatim>\<open>Range\<close> in the block is its base followed by the entry.\<close>

definition Range_base :: "u8 list \<Rightarrow> nat option \<Rightarrow> MemAddr comp" where
  "Range_base mem r = bindc (deref r) (peek mem 8)"

definition Range_entryptr :: "nat option \<Rightarrow> nat comp" where
  "Range_entryptr r = bindc (deref r) (\<lambda>p. ret (p + 8))"

text \<open>The results a retrieval sets from an iterator and its range.\<close>

definition static_range_out ::
    "u8 list \<Rightarrow> StaticMapIterator \<Rightarrow> nat option \<Rightarrow> (nat \<times> MemAddr \<times> MemAddr) comp" where
  "static_range_out mem it r =
     bindc (Range_entryptr r) (\<lambda>entry.
     bindc (Range_base mem r) (\<lambda>base.
     bindc (it_GetKey mem it) (\<lambda>k.
     ret (entry, base, k - base + 1))))"

definition StaticRangeMap_RetrieveRange ::
    "u8 list \<Rightarrow> StaticMap \<Rightarrow> MemAddr \<Rightarrow> (nat \<times> MemAddr \<times> MemAddr) option comp" where
  "StaticRangeMap_RetrieveRange mem s address =
     bindc (StaticMap_lower_bound mem s address) (\<lambda>iterator.
     bindc (IteratorAtIndex mem s (num_nodes s)) (\<lambda>end.
     if it_equal iterator end then ret None
     else
       bindc (it_GetValueRawPtr mem iterator) (\<lambda>range.
       bindc (Range_base mem range) (\<lambda>base.
       if address < base then ret None
       else bindc (static_range_out mem iterator range) (\<lambda>r. ret (Some r))))))"

definition StaticRangeMap_RetrieveNearestRange ::
    "u8 list \<Rightarrow> StaticMap \<Rightarrow> MemAddr \<Rightarrow> (nat \<times> MemAddr \<times> MemAddr) option comp" where
  "StaticRangeMap_RetrieveNearestRange mem s address =
     bindc (StaticRangeMap_RetrieveRange mem s address) (\<lambda>found.
     case found of
       Some r \<Rightarrow> ret (Some r)
     | None \<Rightarrow>
         bindc (StaticMap_upper_bound mem s address) (\<lambda>iterator.
         bindc (IteratorAtIndex mem s 0) (\<lambda>begin.
         if it_equal iterator begin then ret None
         else
           let iterator = it_decr iterator in
           bindc (it_GetValueRawPtr mem iterator) (\<lambda>range.
           bindc (static_range_out mem iterator range) (\<lambda>r. ret (Some r))))))"

definition StaticRangeMap_GetCount :: "StaticMap \<Rightarrow> int" where
  "StaticRangeMap_GetCount s = num_nodes s"

definition StaticRangeMap_RetrieveRangeAtIndex ::
    "u8 list \<Rightarrow> StaticMap \<Rightarrow> int \<Rightarrow> (nat \<times> MemAddr \<times> MemAddr) option comp" where
  "StaticRangeMap_RetrieveRangeAtIndex mem s index =
     (if index \<ge> StaticRangeMap_GetCount s then ret None
      else
        bindc (IteratorAtIndex mem s index) (\<lambda>iterator.
        bindc (it_GetValueRawPtr mem iterator) (\<lambda>range.
        bindc (static_range_out mem iterator range) (\<lambda>r. ret (Some r)))))"

section \<open>Blocks that hold a map\<close>

text \<open>What the code reads from a block at a position: the number of nodes, the offset and the key of a
  node.  The block is well formed when it holds all of them and the keys increase.\<close>

definition static_count :: "u8 list \<times> nat \<Rightarrow> nat" where
  "static_count x = unat (le_word (take 4 (drop (snd x) (fst x))) :: u32)"

definition static_offset :: "u8 list \<times> nat \<Rightarrow> nat \<Rightarrow> u32" where
  "static_offset x i = le_word (take 4 (drop (snd x + 4 + 4 * i) (fst x)))"

definition static_key :: "u8 list \<times> nat \<Rightarrow> nat \<Rightarrow> MemAddr" where
  "static_key x i = le_word (take 8 (drop (snd x + 4 + 4 * static_count x + 8 * i) (fst x)))"

definition static_held :: "u8 list \<times> nat \<Rightarrow> bool" where
  "static_held x \<longleftrightarrow> static_count x < 2 ^ 31 \<and> snd x + 4 + 12 * static_count x \<le> length (fst x)"

text \<open>The number of nodes and the offsets, which do not depend on the type of the keys.\<close>

definition count_held :: "u8 list \<times> nat \<Rightarrow> bool" where
  "count_held x \<longleftrightarrow> static_count x < 2 ^ 31 \<and> snd x + 4 + 4 * static_count x \<le> length (fst x)"

lemma held_count: "static_held x \<Longrightarrow> count_held x"
  by (simp add: static_held_def count_held_def)

definition static_ok :: "u8 list \<times> nat \<Rightarrow> bool" where
  "static_ok x \<longleftrightarrow> static_held x \<and> (\<forall>i. Suc i < static_count x \<longrightarrow> static_key x i < static_key x (Suc i))"

definition static_view :: "u8 list \<times> nat \<Rightarrow> StaticMap" where
  "static_view x = \<lparr>raw_data = Some (snd x), num_nodes = int (static_count x), offsets = snd x + 4,
     keys = int (snd x) + (1 + int (static_count x)) * 4\<rparr>"

definition static_iter :: "u8 list \<times> nat \<Rightarrow> nat \<Rightarrow> StaticMapIterator" where
  "static_iter x i = \<lparr>it_index = int i, it_base = Some (snd x), it_num_nodes = int (static_count x),
     it_offsets = snd x + 4, it_keys = int (snd x) + (1 + int (static_count x)) * 4\<rparr>"

lemma sint_small:
  assumes "unat (n :: u32) < 2 ^ 31"
  shows "sint n = int (unat n)"
proof -
  have "int (unat n) < int (2 ^ 31)" using assms by (subst of_nat_less_iff)
  then have "uint n < 2 ^ 31" by simp
  moreover have "- (2 ^ 31) \<le> uint n" by (rule order_trans [OF _ uint_nonnegative]) simp
  ultimately have "sint n = uint n" by (simp add: sint_uint signed_take_bit_int_eq_self)
  then show ?thesis by simp
qed

lemma peek_count:
  "count_held x \<Longrightarrow> \<exists>n :: u32. peek (fst x) 4 (snd x) = ret n \<and> sint n = int (static_count x)"
  by (auto simp: peek_def count_held_def static_count_def sint_small)

lemma StaticMap_new_count: "count_held x \<Longrightarrow> StaticMap_new (fst x) (snd x) = ret (static_view x)"
  using peek_count [of x] by (auto simp: StaticMap_new_def static_view_def)

lemma IteratorAtIndex_count:
  "count_held x \<Longrightarrow> IteratorAtIndex (fst x) (static_view x) (int i) = ret (static_iter x i)"
  using peek_count [of x]
  by (auto simp: IteratorAtIndex_def StaticMapIterator_new_def static_view_def static_iter_def)

lemmas StaticMap_new_view = StaticMap_new_count [OF held_count]
lemmas IteratorAtIndex_iter = IteratorAtIndex_count [OF held_count]

lemma GetKeyAtIndex_key:
  assumes "static_held x" "i < static_count x"
  shows "GetKeyAtIndex (fst x) (static_view x) (int i) = ret (static_key x i)"
proof -
  have pos: "nat (int (snd x) + (1 + int (static_count x)) * 4 + 8 * int i) = snd x + 4 + 4 * static_count x + 8 * i"
    by (simp add: algebra_simps nat_add_distrib nat_mult_distrib)
  show ?thesis
    using assms unfolding GetKeyAtIndex_def static_view_def StaticMap.simps pos
    by (simp add: peek_def static_held_def static_key_def)
qed

lemma static_held_ok: "static_ok x \<Longrightarrow> static_held x"
  by (simp add: static_ok_def)

lemma static_increasing:
  assumes "static_ok x" "i < j" "j < static_count x"
  shows "static_key x i < static_key x j"
  using assms(2,3)
proof (induction j)
  case (Suc j)
  then have "static_key x j < static_key x (Suc j)" using assms(1) by (simp add: static_ok_def)
  with Suc show ?case by (cases "i = j") (auto intro: less_trans)
qed simp

text \<open>The binary search ends at the key, or at the border between the smaller and the greater keys.\<close>

lemma StaticMap_loop_spec:
  fixes k :: "'k::linorder"
  assumes keys: "\<And>i. i < n \<Longrightarrow> get_key (int i) = ret (key i)" and incr: "\<And>i j. i < j \<Longrightarrow> j < n \<Longrightarrow> key i < key j"
    and "b \<le> e" "e \<le> n"
    and "\<And>i. i < b \<Longrightarrow> key i < k" and "\<And>i. e \<le> i \<Longrightarrow> i < n \<Longrightarrow> k < key i"
  shows "(\<exists>i < n. StaticMap_loop get_key k (int b) (int e) = ret (Inl (int i)) \<and> key i = k) \<or>
    (\<exists>i \<le> n. StaticMap_loop get_key k (int b) (int e) = ret (Inr (int i)) \<and>
       (\<forall>j < i. key j < k) \<and> (\<forall>j. i \<le> j \<longrightarrow> j < n \<longrightarrow> k < key j))"
  using assms(3-)
proof (induction "e - b" arbitrary: b e rule: less_induct)
  case less
  note unfold = StaticMap_loop.simps [of get_key k "int b" "int e"]
  show ?case
  proof (cases "b < e")
    case True
    define mid where "mid = b + (e - b) div 2"
    have m: "b \<le> mid" "mid < e" using True by (auto simp: mid_def)
    have mid_int: "int b + (int e - int b) div 2 = int mid" using True by (simp add: mid_def zdiv_int of_nat_diff)
    have key: "get_key (int mid) = ret (key mid)" using m less(3) by (intro keys) simp
    have step: "StaticMap_loop get_key k (int b) (int e) =
      (if k = key mid then ret (Inl (int mid))
       else if k < key mid then StaticMap_loop get_key k (int b) (int mid)
       else StaticMap_loop get_key k (int (Suc mid)) (int e))"
      using True unfolding unfold mid_int Let_def key by (auto simp: DefaultCompare_def add.commute)
    consider "k = key mid" | "k < key mid" | "key mid < k" by fastforce
    then show ?thesis
    proof cases
      case 1
      with m less(3) show ?thesis unfolding step by auto
    next
      case 2
      have above: "k < key i" if "mid \<le> i" "i < n" for i
        using 2 incr [of mid i] that by (cases "mid = i") (auto intro: less_trans)
      have "mid - b < e - b" "mid \<le> n" using m less(3) by auto
      from less(1) [OF this(1) m(1) this(2) less(4) above] 2 show ?thesis unfolding step by auto
    next
      case 3
      have below: "key i < k" if "i < Suc mid" for i
        using 3 incr [of i mid] that m less(3) by (cases "i = mid") (auto intro: less_trans)
      have "e - Suc mid < e - b" "Suc mid \<le> e" using m by auto
      from less(1) [OF this less(3) below less(5)] 3 show ?thesis unfolding step by auto
    qed
  next
    case False
    then show ?thesis unfolding unfold using less(2-) by auto
  qed
qed

lemma StaticMap_loop_cases [consumes 1, case_names found border]:
  assumes "static_ok x"
  obtains i where "i < static_count x" "static_key x i = k"
      "StaticMap_loop (GetKeyAtIndex (fst x) (static_view x)) k 0 (int (static_count x)) = ret (Inl (int i))"
    | i where "i \<le> static_count x"
      "StaticMap_loop (GetKeyAtIndex (fst x) (static_view x)) k 0 (int (static_count x)) = ret (Inr (int i))"
      "\<forall>j < i. static_key x j < k" "\<forall>j. i \<le> j \<longrightarrow> j < static_count x \<longrightarrow> k < static_key x j"
proof -
  have "(\<exists>i < static_count x. StaticMap_loop (GetKeyAtIndex (fst x) (static_view x)) k (int 0) (int (static_count x)) = ret (Inl (int i)) \<and> static_key x i = k) \<or>
    (\<exists>i \<le> static_count x. StaticMap_loop (GetKeyAtIndex (fst x) (static_view x)) k (int 0) (int (static_count x)) = ret (Inr (int i)) \<and>
       (\<forall>j < i. static_key x j < k) \<and> (\<forall>j. i \<le> j \<longrightarrow> j < static_count x \<longrightarrow> k < static_key x j))"
    using static_held_ok [OF assms] by (intro StaticMap_loop_spec) (auto intro: GetKeyAtIndex_key static_increasing [OF assms])
  then show thesis
  proof
    assume "\<exists>i < static_count x. StaticMap_loop (GetKeyAtIndex (fst x) (static_view x)) k (int 0) (int (static_count x)) = ret (Inl (int i)) \<and> static_key x i = k"
    then show thesis using that(1) by auto
  next
    assume "\<exists>i \<le> static_count x. StaticMap_loop (GetKeyAtIndex (fst x) (static_view x)) k (int 0) (int (static_count x)) = ret (Inr (int i)) \<and>
       (\<forall>j < i. static_key x j < k) \<and> (\<forall>j. i \<le> j \<longrightarrow> j < static_count x \<longrightarrow> k < static_key x j)"
    then obtain i where "i \<le> static_count x" "StaticMap_loop (GetKeyAtIndex (fst x) (static_view x)) k (int 0) (int (static_count x)) = ret (Inr (int i))"
       "\<forall>j < i. static_key x j < k" "\<forall>j. i \<le> j \<longrightarrow> j < static_count x \<longrightarrow> k < static_key x j" by blast
    then show thesis using that(2) [of i] by simp
  qed
qed

text \<open>The positions the searches return.\<close>

definition static_lower :: "MemAddr \<Rightarrow> u8 list \<times> nat \<Rightarrow> nat" where
  "static_lower k x =
     (case bindc (StaticMap_new (fst x) (snd x)) (\<lambda>s. StaticMap_lower_bound (fst x) s k) of
        Some (Inr it) \<Rightarrow> nat (it_index it) | _ \<Rightarrow> 0)"

definition static_upper :: "MemAddr \<Rightarrow> u8 list \<times> nat \<Rightarrow> nat" where
  "static_upper k x =
     (case bindc (StaticMap_new (fst x) (snd x)) (\<lambda>s. StaticMap_upper_bound (fst x) s k) of
        Some (Inr it) \<Rightarrow> nat (it_index it) | _ \<Rightarrow> 0)"

lemma StaticMap_lower_bound_spec:
  assumes ok: "static_ok x"
  shows "\<exists>i \<le> static_count x. StaticMap_lower_bound (fst x) (static_view x) k = ret (static_iter x i) \<and>
    (\<forall>j < i. static_key x j < k) \<and> (\<forall>j. i \<le> j \<longrightarrow> j < static_count x \<longrightarrow> k \<le> static_key x j)"
proof -
  have n: "num_nodes (static_view x) = int (static_count x)" by (simp add: static_view_def)
  note it = IteratorAtIndex_iter [OF static_held_ok [OF ok]]
  from ok show ?thesis
  proof (cases rule: StaticMap_loop_cases [where k = k])
    case i: (found i)
    have "k \<le> static_key x j" if "i \<le> j" "j < static_count x" for j
      using static_increasing [OF ok, of i j] that i(2) by (cases "i = j") auto
    moreover have "static_key x j < k" if "j < i" for j
      using static_increasing [OF ok that i(1)] i(2) by simp
    ultimately show ?thesis using i(1,3) n by (intro exI [of _ i]) (auto simp: StaticMap_lower_bound_def it)
  next
    case (border i)
    then show ?thesis using n by (intro exI [of _ i]) (auto simp: StaticMap_lower_bound_def it less_imp_le)
  qed
qed

lemma StaticMap_upper_bound_spec:
  assumes ok: "static_ok x"
  shows "\<exists>i \<le> static_count x. StaticMap_upper_bound (fst x) (static_view x) k = ret (static_iter x i) \<and>
    (\<forall>j < i. static_key x j \<le> k) \<and> (\<forall>j. i \<le> j \<longrightarrow> j < static_count x \<longrightarrow> k < static_key x j)"
proof -
  have n: "num_nodes (static_view x) = int (static_count x)" by (simp add: static_view_def)
  note it = IteratorAtIndex_iter [OF static_held_ok [OF ok]]
  from ok show ?thesis
  proof (cases rule: StaticMap_loop_cases [where k = k])
    case i: (found i)
    have "k < static_key x j" if "Suc i \<le> j" "j < static_count x" for j
      using static_increasing [OF ok, of i j] that i(2) by auto
    moreover have "static_key x j \<le> k" if "j < Suc i" for j
      using static_increasing [OF ok _ i(1), of j] that i(2) by (cases "j = i") auto
    ultimately show ?thesis
      using i(1,3) n it [of "Suc i"] by (intro exI [of _ "Suc i"]) (auto simp: StaticMap_upper_bound_def add.commute)
  next
    case (border i)
    then show ?thesis using n by (intro exI [of _ i]) (auto simp: StaticMap_upper_bound_def it less_imp_le)
  qed
qed

lemma static_lower_iter:
  assumes "static_ok x"
  shows "StaticMap_lower_bound (fst x) (static_view x) k = ret (static_iter x (static_lower k x))"
  using StaticMap_lower_bound_spec [OF assms, of k]
  by (auto simp: static_lower_def StaticMap_new_view [OF static_held_ok [OF assms]] ret_def static_iter_def bindc_def)

lemma static_upper_iter:
  assumes "static_ok x"
  shows "StaticMap_upper_bound (fst x) (static_view x) k = ret (static_iter x (static_upper k x))"
  using StaticMap_upper_bound_spec [OF assms, of k]
  by (auto simp: static_upper_def StaticMap_new_view [OF static_held_ok [OF assms]] ret_def static_iter_def bindc_def)

lemma static_iter_inject [simp]: "static_iter x i = static_iter x j \<longleftrightarrow> i = j"
  by (auto simp: static_iter_def)

interpretation static: ordered_index static_ok static_count static_key static_lower static_upper
proof (unfold_locales, goal_cases)
  case (1 m i j)
  then show ?case by (rule static_increasing)
qed (use StaticMap_lower_bound_spec StaticMap_upper_bound_spec static_lower_iter static_upper_iter
     in \<open>fastforce+\<close>)

section \<open>Validation\<close>

lemma offset_reads:
  assumes "count_held x" "i < static_count x"
  shows "peek (fst x) 4 (snd x + 4 + 4 * i) = ret (static_offset x i)"
  using assms by (simp add: peek_def count_held_def static_offset_def)

lemmas static_reads = offset_reads [OF held_count]

lemma static_view_simps [simp]:
  "num_nodes (static_view x) = int (static_count x)" "offsets (static_view x) = snd x + 4"
  "raw_data (static_view x) = Some (snd x)"
  by (simp_all add: static_view_def)

lemma DefaultCompare_le: "DefaultCompare a b \<le> 0 \<longleftrightarrow> a \<le> b"
  by (auto simp: DefaultCompare_def)

lemma all_from:
  assumes "i < n"
  shows "(\<forall>j. i \<le> j \<longrightarrow> j < n \<longrightarrow> P j) \<longleftrightarrow> P i \<and> (\<forall>j. Suc i \<le> j \<longrightarrow> j < n \<longrightarrow> P j)"
  using assms by (metis Suc_leI Suc_leD le_neq_implies_less order_refl)

lemma Validate_loop_spec:
  assumes "static_held x" "0 < i"
  shows "Validate_loop (fst x) (static_view x) (int i) =
    ret (\<forall>j. i \<le> j \<longrightarrow> j < static_count x \<longrightarrow>
           static_offset x (j - 1) < static_offset x j \<and> static_key x (j - 1) < static_key x j)"
  using assms(2)
proof (induction "static_count x - i" arbitrary: i)
  case 0
  then show ?case by (subst Validate_loop.simps) simp
next
  case (Suc d)
  then have i: "i < static_count x" "i - 1 < static_count x" "int i - 1 = int (i - 1)" by auto
  have succ: "int i + 1 = int (Suc i)" by simp
  note rest = Suc(1) [of "Suc i"]
  have "Validate_loop (fst x) (static_view x) (int i) =
    (if static_offset x i \<le> static_offset x (i - 1) then ret False
     else if static_key x i \<le> static_key x (i - 1) then ret False
     else Validate_loop (fst x) (static_view x) (int (Suc i)))"
    unfolding Validate_loop.simps [of _ _ "int i"] i(3) succ
    using i(1,2) by (simp add: nat_int static_reads [OF assms(1)] GetKeyAtIndex_key [OF assms(1)] DefaultCompare_le)
  also have "\<dots> = ret (static_offset x (i - 1) < static_offset x i \<and> static_key x (i - 1) < static_key x i \<and>
     (\<forall>j. Suc i \<le> j \<longrightarrow> j < static_count x \<longrightarrow>
           static_offset x (j - 1) < static_offset x j \<and> static_key x (j - 1) < static_key x j))"
    using rest Suc(2) by auto
  also have "\<dots> = ret (\<forall>j. i \<le> j \<longrightarrow> j < static_count x \<longrightarrow>
           static_offset x (j - 1) < static_offset x j \<and> static_key x (j - 1) < static_key x j)"
    unfolding all_from [OF i(1)] by simp
  finally show ?case .
qed

text \<open>What the validation accepts, of a block that holds the whole header.\<close>

lemma Validate_spec:
  assumes "static_held x"
  shows "ValidateInMemoryStructure (fst x) (static_view x) =
    ret ((static_count x \<noteq> 0 \<longrightarrow> 4 + 12 * static_count x \<le> 0xffffffff \<and>
            unat (static_offset x 0) = 4 + 12 * static_count x) \<and>
         (\<forall>j. 1 \<le> j \<longrightarrow> j < static_count x \<longrightarrow>
           static_offset x (j - 1) < static_offset x j \<and> static_key x (j - 1) < static_key x j))"
proof -
  obtain n :: u32 where n: "peek (fst x) 4 (snd x) = ret n" "sint n = int (static_count x)"
    using peek_count [OF held_count [OF assms]] by blast
  have first: "4 * (int (static_count x) + 1) + 8 * int (static_count x) = int (4 + 12 * static_count x)" by simp
  have loop: "Validate_loop (fst x) (static_view x) 1 =
    ret (\<forall>j. 1 \<le> j \<longrightarrow> j < static_count x \<longrightarrow>
           static_offset x (j - 1) < static_offset x j \<and> static_key x (j - 1) < static_key x j)"
    using Validate_loop_spec [OF assms, of 1] by simp
  have ofs: "peek (fst x) 4 (snd x + 4) = ret (static_offset x 0)" if "static_count x \<noteq> 0"
    using static_reads [OF assms, of 0] that by simp
  have word: "static_offset x 0 = of_int (int m) \<longleftrightarrow> unat (static_offset x 0) = m" if "m \<le> 0xffffffff" for m
    using that by (simp add: word_unat_eq_iff unat_of_nat)
  show ?thesis
    unfolding ValidateInMemoryStructure_def static_view_simps first Let_def option.case n(1) bindc_ret n(2)
    using loop ofs word [of "4 + 12 * static_count x"] by (cases "static_count x = 0") auto
qed

section \<open>Retrieval from a block\<close>

text \<open>The block read as an ordinary map: the values of an address map are the pointers to the entries,
  the values of a range map the bases with the pointers behind them.\<close>

definition static_value :: "u8 list \<times> nat \<Rightarrow> nat \<Rightarrow> nat" where
  "static_value x i = snd x + unat (static_offset x i)"

definition static_base :: "u8 list \<times> nat \<Rightarrow> nat \<Rightarrow> MemAddr" where
  "static_base x i = le_word (take 8 (drop (static_value x i) (fst x)))"

definition block_addresses :: "u8 list \<times> nat \<Rightarrow> (64, nat) AddressMap" where
  "block_addresses x = map (\<lambda>i. (static_key x i, static_value x i)) [0..<static_count x]"

definition block_ranges :: "u8 list \<times> nat \<Rightarrow> (64, nat) RangeMap" where
  "block_ranges x =
     map (\<lambda>i. (static_key x i, \<lparr>range_base = static_base x i, range_entry = static_value x i + 8\<rparr>))
       [0..<static_count x]"

definition bases_held :: "u8 list \<times> nat \<Rightarrow> bool" where
  "bases_held x \<longleftrightarrow> (\<forall>i < static_count x. static_value x i + 8 \<le> length (fst x))"

lemma map_ok_upt:
  "static_ok x \<Longrightarrow> map_ok (map (\<lambda>i. (static_key x i, f i)) [0..<static_count x])"
  by (auto simp: map_ok_def sorted_wrt_iff_nth_less intro: static_increasing)

lemma bounds_upt:
  assumes "static_ok x"
  shows "lower_bound a (map (\<lambda>i. (static_key x i, f i)) [0..<static_count x]) = static_lower a x"
    and "upper_bound a (map (\<lambda>i. (static_key x i, f i)) [0..<static_count x]) = static_upper a x"
proof -
  let ?m = "map (\<lambda>i. (static_key x i, f i)) [0..<static_count x]"
  have key: "key_of ?m i = static_key x i" if "i < static_count x" for i using that by (simp add: key_of_def)
  note lt = less_le_trans [OF _ static.lower_le [OF assms]] less_le_trans [OF _ static.upper_le [OF assms]]
  show "lower_bound a ?m = static_lower a x"
    using static.lower_below [OF assms] static.lower_above [OF assms] static.lower_le [OF assms] lt(1)
    by (intro std.lower_unique [OF map_ok_upt [OF assms]]) (auto simp: key)
  show "upper_bound a ?m = static_upper a x"
    using static.upper_below [OF assms] static.upper_above [OF assms] static.upper_le [OF assms] lt(2)
    by (intro std.upper_unique [OF map_ok_upt [OF assms]]) (auto simp: key)
qed

lemma iter_valid: "i \<le> static_count x \<Longrightarrow> it_IsValid (static_iter x i)"
  by (simp add: it_IsValid_def static_iter_def)

lemma iter_equal: "it_equal (static_iter x i) (static_iter x j) \<longleftrightarrow> i = j"
  by (simp add: it_equal_def static_iter_def)

lemma iter_decr: "i \<le> static_count x \<Longrightarrow> i \<noteq> 0 \<Longrightarrow> it_decr (static_iter x i) = static_iter x (i - 1)"
  by (simp add: it_decr_def iter_valid) (simp add: static_iter_def of_nat_diff)

lemma iter_value_count:
  assumes "count_held x" "i < static_count x"
  shows "it_GetValueRawPtr (fst x) (static_iter x i) = ret (Some (static_value x i))"
  using offset_reads [OF assms] assms(2) unfolding it_GetValueRawPtr_def
  by (simp add: iter_valid) (simp add: static_iter_def static_value_def)

lemmas iter_value = iter_value_count [OF held_count]

lemma iter_key:
  assumes "static_held x" "i < static_count x"
  shows "it_GetKey (fst x) (static_iter x i) = ret (static_key x i)"
  using GetKeyAtIndex_key [OF assms] assms(2) unfolding it_GetKey_def it_GetKeyPtr_def GetKeyAtIndex_def
  by (simp add: iter_valid) (simp add: static_iter_def static_view_def)

lemma range_reads:
  assumes "static_held x" "bases_held x" "i < static_count x"
  shows "Range_base (fst x) (Some (static_value x i)) = ret (static_base x i)"
    and "static_range_out (fst x) (static_iter x i) (Some (static_value x i)) = ret (range_out (block_ranges x ! i))"
  using assms iter_key [OF assms(1,3)]
  by (simp_all add: static_range_out_def Range_base_def Range_entryptr_def peek_def bases_held_def static_base_def
      block_ranges_def range_out_def)

lemmas static_iterators = iter_valid iter_equal iter_decr iter_value iter_key range_reads

lemma iterator_ends:
  assumes "static_held x"
  shows "IteratorAtIndex (fst x) (static_view x) (num_nodes (static_view x)) = ret (static_iter x (static_count x))"
    and "IteratorAtIndex (fst x) (static_view x) 0 = ret (static_iter x 0)"
  using IteratorAtIndex_iter [OF assms, of "static_count x"] IteratorAtIndex_iter [OF assms, of 0] by simp_all

lemma StaticAddressMap_Retrieve_block:
  assumes "static_ok x"
  shows "StaticAddressMap_Retrieve (fst x) (static_view x) a =
           ret (map_option (\<lambda>(p, k). (Some p, k)) (AddressMap_Retrieve a (block_addresses x)))"
proof -
  note held = static_held_ok [OF assms]
  have "static_upper a x \<le> static_count x" by (rule static.upper_le [OF assms])
  then show ?thesis
    unfolding StaticAddressMap_Retrieve_def AddressMap_Retrieve_def static_upper_iter [OF assms]
      iterator_ends [OF held] bindc_ret block_addresses_def bounds_upt [OF assms] Let_def
    by (cases "static_upper a x") (simp_all add: static_iterators held)
qed

lemma StaticRangeMap_RetrieveRange_block:
  assumes "static_ok x" "bases_held x"
  shows "StaticRangeMap_RetrieveRange (fst x) (static_view x) a = ret (RangeMap_RetrieveRange a (block_ranges x))"
proof -
  note held = static_held_ok [OF assms(1)]
  have len: "length (block_ranges x) = static_count x" by (simp add: block_ranges_def)
  have low: "lower_bound a (block_ranges x) = static_lower a x"
    unfolding block_ranges_def by (rule bounds_upt [OF assms(1)])
  have "static_lower a x \<le> static_count x" by (rule static.lower_le [OF assms(1)])
  moreover have "range_base (snd (block_ranges x ! i)) = static_base x i" if "i < static_count x" for i
    using that by (simp add: block_ranges_def)
  ultimately show ?thesis
    unfolding StaticRangeMap_RetrieveRange_def RangeMap_RetrieveRange_def static_lower_iter [OF assms(1)]
      iterator_ends [OF held] bindc_ret len low Let_def
    by (cases "static_lower a x = static_count x") (simp_all add: static_iterators held assms(2))
qed

lemma StaticRangeMap_RetrieveNearestRange_block:
  assumes "static_ok x" "bases_held x"
  shows "StaticRangeMap_RetrieveNearestRange (fst x) (static_view x) a =
           ret (RangeMap_RetrieveNearestRange a (block_ranges x))"
proof -
  note held = static_held_ok [OF assms(1)]
  have up: "upper_bound a (block_ranges x) = static_upper a x"
    unfolding block_ranges_def by (rule bounds_upt [OF assms(1)])
  have "static_upper a x \<le> static_count x" by (rule static.upper_le [OF assms(1)])
  then show ?thesis
    unfolding StaticRangeMap_RetrieveNearestRange_def RangeMap_RetrieveNearestRange_def
      StaticRangeMap_RetrieveRange_block [OF assms] static_upper_iter [OF assms(1)]
      iterator_ends [OF held] bindc_ret up Let_def
    by (cases "static_upper a x") (simp_all add: static_iterators held assms(2) split: option.split)
qed

lemma StaticRangeMap_RetrieveRangeAtIndex_block:
  assumes "static_ok x" "bases_held x" "0 \<le> i"
  shows "StaticRangeMap_RetrieveRangeAtIndex (fst x) (static_view x) i =
           RangeMap_RetrieveRangeAtIndex i (block_ranges x)"
proof -
  note held = static_held_ok [OF assms(1)]
  have len: "length (block_ranges x) = static_count x" by (simp add: block_ranges_def)
  obtain n where n: "i = int n" using assms(3) nonneg_int_cases by blast
  show ?thesis
    by (cases "n < static_count x")
      (simp_all add: StaticRangeMap_RetrieveRangeAtIndex_def RangeMap_RetrieveRangeAtIndex_def StaticRangeMap_GetCount_def
        RangeMap_GetCount_def len n IteratorAtIndex_iter held static_iterators assms(2))
qed

section \<open>Properties\<close>

lemma validated_ok:
  assumes "static_held x" "ValidateInMemoryStructure (fst x) (static_view x) = ret True"
  shows "static_ok x"
proof -
  have "\<forall>j. 1 \<le> j \<longrightarrow> j < static_count x \<longrightarrow> static_key x (j - 1) < static_key x j"
    using Validate_spec [OF assms(1)] assms(2) by simp
  then have "static_key x i < static_key x (Suc i)" if "Suc i < static_count x" for i
    using that by (metis Suc_eq_plus1 diff_Suc_1 le_add2)
  with assms(1) show ?thesis by (simp add: static_ok_def)
qed

text \<open>C28: In a block that passes ValidateInMemoryStructure the binary searches answer as an ordered map
  would: the three retrievals of StaticRangeMap return what RangeMap returns for the ranges read off
  the block, each with the pointer to its entry.\<close>

theorem validated_block_retrieves:
  assumes "static_held x" "bases_held x" "ValidateInMemoryStructure (fst x) (static_view x) = ret True"
  shows "StaticRangeMap_RetrieveRange (fst x) (static_view x) a = ret (RangeMap_RetrieveRange a (block_ranges x)) \<and>
    StaticRangeMap_RetrieveNearestRange (fst x) (static_view x) a = ret (RangeMap_RetrieveNearestRange a (block_ranges x)) \<and>
    StaticRangeMap_RetrieveRangeAtIndex (fst x) (static_view x) (int i) = RangeMap_RetrieveRangeAtIndex (int i) (block_ranges x)"
  using validated_ok [OF assms(1,3)] assms(2)
  by (simp add: StaticRangeMap_RetrieveRange_block StaticRangeMap_RetrieveNearestRange_block
      StaticRangeMap_RetrieveRangeAtIndex_block)

text \<open>One range from 0x1000 to 0x1FFF with the entry 7.\<close>

definition one_block :: "u8 list \<times> nat" where
  "one_block = ([1, 0, 0, 0, 16, 0, 0, 0, 0xFF, 0x1F, 0, 0, 0, 0, 0, 0, 0, 0x10, 0, 0, 0, 0, 0, 0, 7], 0)"

lemma one_block_simps:
  "static_count one_block = 1" "static_offset one_block 0 = 16" "static_key one_block 0 = 0x1FFF"
  "static_value one_block 0 = 16" "static_base one_block 0 = 0x1000"
proof -
  show "static_count one_block = 1" by (simp add: static_count_def one_block_def le_word_def)
  then show "static_key one_block 0 = 0x1FFF" by (simp add: static_key_def) (simp add: one_block_def le_word_def)
  show "static_offset one_block 0 = 16" by (simp add: static_offset_def one_block_def le_word_def)
  then show "static_value one_block 0 = 16" by (simp add: static_value_def) (simp add: one_block_def)
  then show "static_base one_block 0 = 0x1000" by (simp add: static_base_def) (simp add: one_block_def le_word_def)
qed

theorem validated_block_retrieves_witness:
  "StaticRangeMap_RetrieveRange (fst one_block) (static_view one_block) 0x1ABC = ret (Some (24, 0x1000, 0x1000))"
proof -
  have held: "static_held one_block" "bases_held one_block"
    by (simp_all add: static_held_def bases_held_def one_block_simps) (simp_all add: one_block_def)
  have "ValidateInMemoryStructure (fst one_block) (static_view one_block) = ret True"
    using Validate_spec [OF held(1)] by (simp add: one_block_simps)
  from validated_block_retrieves [OF held this, of "0x1ABC"] show ?thesis
    by (simp add: block_ranges_def one_block_simps RangeMap_RetrieveRange_def lower_bound_def range_out_def)
qed

end
