(* ===== verification/Contained_Range_Map.thy ===== *)
theory Contained_Range_Map
  imports Range_Map
begin

text \<open>
  \<^verbatim>\<open>ContainedRangeMap\<close> of google-breakpad (\<^verbatim>\<open>contained_range_map.h\<close> and
  \<^verbatim>\<open>contained_range_map-inl.h\<close>): ranges that may contain one another, as a tree.  A node owns its
  children, so the pointers to them are the subtrees themselves; \<open>None\<close> is the map pointer
  \<^verbatim>\<open>NULL\<close> of a leaf.  The children are filed under the last address of their range.
\<close>

datatype ('a, 'e) ContainedRangeMap =
  CRMap (crm_base: 'a) (crm_entry: 'e) (crm_map: "('a \<times> ('a, 'e) ContainedRangeMap) list option")

text \<open>The root has no range of its own; \<open>e0\<close> is the default value of the entries.\<close>

definition ContainedRangeMap_new :: "'e \<Rightarrow> ('w::len word, 'e) ContainedRangeMap" where
  "ContainedRangeMap_new e0 = CRMap 0 e0 None"

text \<open>\<^verbatim>\<open>if (!map_) map_ = new AddressToRangeMap()\<close>\<close>

definition crm_children :: "('a, 'e) ContainedRangeMap \<Rightarrow> ('a \<times> ('a, 'e) ContainedRangeMap) list" where
  "crm_children t = (case crm_map t of None \<Rightarrow> [] | Some m \<Rightarrow> m)"

lemma lower_bound_le: "lower_bound k m \<le> length m"
  by (simp add: lower_bound_def length_takeWhile_le)

lemma size_child:
  assumes "i < length (crm_children t)"
  shows "size (snd (crm_children t ! i)) < size t"
proof (cases t)
  case (CRMap b e mp)
  with assms obtain m where m: "t = CRMap b e (Some m)" "i < length m" "crm_children t = m"
    by (cases mp) (auto simp: crm_children_def)
  have "size (snd (m ! i)) \<le> size_prod (\<lambda>_. 0) size (m ! i)" by (cases "m ! i") simp
  also have "\<dots> \<le> size_list (size_prod (\<lambda>_. 0) size) m"
    using m(2) by (intro size_list_estimation') auto
  finally show ?thesis using m by simp
qed

function ContainedRangeMap_StoreRange ::
    "'w::len word \<Rightarrow> 'w word \<Rightarrow> 'e \<Rightarrow> ('w word, 'e) ContainedRangeMap \<Rightarrow> bool \<times> ('w word, 'e) ContainedRangeMap" where
  "ContainedRangeMap_StoreRange base sz entry t =
     (let high = base + sz - 1 in
      if sz \<le> 0 \<or> high < base then (False, t)
      else
        let m = crm_children t;
            this = CRMap (crm_base t) (crm_entry t);
            iterator_base = lower_bound base m;
            iterator_high = lower_bound high m;
            iterator_end = length m in
        if iterator_base = iterator_high \<and> iterator_base \<noteq> iterator_end \<and>
           base \<ge> crm_base (snd (m ! iterator_base))
        then
          (if crm_base (snd (m ! iterator_base)) = base \<and> fst (m ! iterator_base) = high
           then (False, this (Some m))
           else
             let (r, child) = ContainedRangeMap_StoreRange base sz entry (snd (m ! iterator_base)) in
             (r, this (Some (m[iterator_base := (fst (m ! iterator_base), child)]))))
        else
          let contains_high = (iterator_high \<noteq> iterator_end \<and> high \<ge> crm_base (snd (m ! iterator_high))) in
          if (iterator_base \<noteq> iterator_end \<and> base > crm_base (snd (m ! iterator_base))) \<or>
             (contains_high \<and> high < fst (m ! iterator_high))
          then (False, this (Some m))
          else
            let iterator_high = (if contains_high then Suc iterator_high else iterator_high);
                child_map = (if iterator_base \<noteq> iterator_high
                             then Some (drop iterator_base (take iterator_high m)) else None);
                m' = take iterator_base m @ drop iterator_high m in
            (True, this (Some (map_insert high (CRMap base entry child_map) m'))))"
  by pat_completeness auto
termination
proof (relation "measure (\<lambda>(base, sz, entry, t). size t)", goal_cases)
  case (2 base sz entry t high m this ib ih e)
  then have "ib < length m" using lower_bound_le [of base m] by simp
  with 2 show ?case using size_child [of ib t] by simp
qed simp

function ContainedRangeMap_RetrieveRange :: "'w::len word \<Rightarrow> ('w word, 'e) ContainedRangeMap \<Rightarrow> 'e option" where
  "ContainedRangeMap_RetrieveRange address t =
     (let m = crm_children t; iterator = lower_bound address m in
      if iterator = length m \<or> address < crm_base (snd (m ! iterator)) then None
      else
        case ContainedRangeMap_RetrieveRange address (snd (m ! iterator)) of
          Some e \<Rightarrow> Some e
        | None \<Rightarrow> Some (crm_entry (snd (m ! iterator))))"
  by pat_completeness auto
termination
proof (relation "measure (\<lambda>(address, t). size t)", goal_cases)
  case (2 address t m i)
  then have "i < length m" using lower_bound_le [of address m] by simp
  with 2 show ?case using size_child [of i t] by simp
qed simp

definition ContainedRangeMap_Clear :: "('a, 'e) ContainedRangeMap \<Rightarrow> ('a, 'e) ContainedRangeMap" where
  "ContainedRangeMap_Clear t = CRMap (crm_base t) (crm_entry t) None"

declare ContainedRangeMap_StoreRange.simps [simp del] ContainedRangeMap_RetrieveRange.simps [simp del]

section \<open>The ranges of a tree\<close>

text \<open>The descendants of a node as triples of base, last address and entry.\<close>

fun desc :: "('a, 'e) ContainedRangeMap \<Rightarrow> ('a \<times> 'a \<times> 'e) set" where
  "desc (CRMap b e None) = {}"
| "desc (CRMap b e (Some m)) =
     (\<Union>c \<in> set m. insert (crm_base (snd c), fst c, crm_entry (snd c)) (desc (snd c)))"

text \<open>The ranges a node and its descendants stand for, given the last address of the node.\<close>

definition family :: "'a \<times> ('a, 'e) ContainedRangeMap \<Rightarrow> ('a \<times> 'a \<times> 'e) set" where
  "family c = insert (crm_base (snd c), fst c, crm_entry (snd c)) (desc (snd c))"

definition encloses :: "'a::linorder \<Rightarrow> 'a \<Rightarrow> 'a \<Rightarrow> 'a \<Rightarrow> bool" where
  "encloses b h b' h' \<longleftrightarrow> b \<le> b' \<and> h' \<le> h"

text \<open>Two ranges may stand together in a tree: they are apart, or one encloses the other properly.\<close>

definition nests :: "'a::linorder \<Rightarrow> 'a \<Rightarrow> 'a \<Rightarrow> 'a \<Rightarrow> bool" where
  "nests b h b' h' \<longleftrightarrow>
     h' < b \<or> h < b' \<or> (encloses b h b' h' \<or> encloses b' h' b h) \<and> (b, h) \<noteq> (b', h')"

text \<open>The invariant: children lie one above the other, and all descendants of a child lie properly
  inside its range.\<close>

fun crm_ok :: "('a::linorder, 'e) ContainedRangeMap \<Rightarrow> bool" where
  "crm_ok (CRMap b e None) = True"
| "crm_ok (CRMap b e (Some m)) \<longleftrightarrow>
     span_ok crm_base m \<and>
     (\<forall>c \<in> set m. crm_ok (snd c) \<and>
        (\<forall>(b', h', e') \<in> desc (snd c).
           b' \<le> h' \<and> encloses (crm_base (snd c)) (fst c) b' h' \<and> (b', h') \<noteq> (crm_base (snd c), fst c)))"

definition child_ok :: "'a::linorder \<times> ('a, 'e) ContainedRangeMap \<Rightarrow> bool" where
  "child_ok c \<longleftrightarrow> crm_ok (snd c) \<and>
     (\<forall>(b', h', e') \<in> desc (snd c).
        b' \<le> h' \<and> encloses (crm_base (snd c)) (fst c) b' h' \<and> (b', h') \<noteq> (crm_base (snd c), fst c))"

lemma children_CRMap [simp]: "crm_children (CRMap b e None) = []" "crm_children (CRMap b e (Some m)) = m"
  by (simp_all add: crm_children_def)

lemma desc_children: "desc t = (\<Union>c \<in> set (crm_children t). family c)"
  by (cases t rule: desc.cases) (auto simp: family_def)

lemma family_desc: "c \<in> set (crm_children t) \<Longrightarrow> family c \<subseteq> desc t"
  by (auto simp: desc_children)

lemma crm_ok_children:
  "crm_ok t \<longleftrightarrow> span_ok crm_base (crm_children t) \<and> (\<forall>c \<in> set (crm_children t). child_ok c)"
  by (cases t rule: desc.cases) (auto simp: child_ok_def)

lemma child_ok_desc:
  assumes "child_ok c" "(b, h, e) \<in> desc (snd c)"
  shows "b \<le> h" "crm_base (snd c) \<le> b" "h \<le> fst c" "(b, h) \<noteq> (crm_base (snd c), fst c)"
  using assms by (auto simp: child_ok_def encloses_def)

lemma family_cases:
  assumes "(b, h, e) \<in> family c"
  obtains "b = crm_base (snd c)" "h = fst c" "e = crm_entry (snd c)" | "(b, h, e) \<in> desc (snd c)"
  using assms by (auto simp: family_def)

lemma family_within:
  assumes "child_ok c" "(b, h, e) \<in> family c"
  shows "crm_base (snd c) \<le> b" "h \<le> fst c"
  using assms(2) by (auto elim!: family_cases dest: child_ok_desc [OF assms(1)])

section \<open>Retrieval\<close>

lemma lower_bound_child:
  assumes ok: "crm_ok t" and mem: "(b, h, e) \<in> desc t" "b \<le> a" "a \<le> h"
  defines "m \<equiv> crm_children t" and "i \<equiv> lower_bound a (crm_children t)"
  shows "i < length m" "crm_base (snd (m ! i)) \<le> a" "a \<le> fst (m ! i)" "(b, h, e) \<in> family (m ! i)"
proof -
  have span: "span_ok crm_base m" and good: "\<forall>c \<in> set m. child_ok c"
    using ok by (auto simp: m_def crm_ok_children)
  obtain j where j: "j < length m" "(b, h, e) \<in> family (m ! j)"
    using mem(1) by (auto simp: desc_children m_def in_set_conv_nth)
  then have "child_ok (m ! j)" using good by simp
  then have inside: "crm_base (snd (m ! j)) \<le> a" "a \<le> fst (m ! j)"
    using family_within [OF _ j(2)] mem(2,3) by auto
  then have "i = j" using span_hit [OF span j(1)] by (simp add: i_def m_def)
  then show "i < length m" "crm_base (snd (m ! i)) \<le> a" "a \<le> fst (m ! i)" "(b, h, e) \<in> family (m ! i)"
    using j inside by auto
qed

lemma lower_bound_inside:
  assumes "crm_ok t" "lower_bound a (crm_children t) \<noteq> length (crm_children t)"
  shows "lower_bound a (crm_children t) < length (crm_children t)"
    and "a \<le> fst (crm_children t ! lower_bound a (crm_children t))"
    and "child_ok (crm_children t ! lower_bound a (crm_children t))"
proof -
  have span: "span_ok crm_base (crm_children t)" using assms(1) by (simp add: crm_ok_children)
  show lt: "lower_bound a (crm_children t) < length (crm_children t)"
    using assms(2) lower_bound_le [of a "crm_children t"] by simp
  show "a \<le> fst (crm_children t ! lower_bound a (crm_children t))"
    using std.lower_above [OF span_map_ok [OF span], of a "lower_bound a (crm_children t)"] lt
    by (simp add: key_of_def)
  show "child_ok (crm_children t ! lower_bound a (crm_children t))"
    using lt assms(1) by (simp add: crm_ok_children)
qed

text \<open>The smallest range around an address: every other range around it encloses it.\<close>

definition smallest_at :: "'a::linorder \<Rightarrow> ('a \<times> 'a \<times> 'e) set \<Rightarrow> 'a \<Rightarrow> 'a \<Rightarrow> 'e \<Rightarrow> bool" where
  "smallest_at a S b h e \<longleftrightarrow> (b, h, e) \<in> S \<and> b \<le> a \<and> a \<le> h \<and>
     (\<forall>(b', h', e') \<in> S. b' \<le> a \<and> a \<le> h' \<longrightarrow> encloses b' h' b h)"

lemma Retrieve_None_iff:
  assumes "crm_ok t"
  shows "ContainedRangeMap_RetrieveRange a t = None \<longleftrightarrow> (\<forall>(b, h, e) \<in> desc t. \<not> (b \<le> a \<and> a \<le> h))"
proof -
  let ?m = "crm_children t" and ?i = "lower_bound a (crm_children t)"
  have "ContainedRangeMap_RetrieveRange a t = None \<longleftrightarrow> ?i = length ?m \<or> a < crm_base (snd (?m ! ?i))"
    by (subst ContainedRangeMap_RetrieveRange.simps) (simp add: Let_def split: option.split)
  also have "\<dots> \<longleftrightarrow> (\<forall>(b, h, e) \<in> desc t. \<not> (b \<le> a \<and> a \<le> h))" (is "?N \<longleftrightarrow> ?R")
  proof
    assume ?N
    then show ?R using lower_bound_child [OF assms, of _ _ _ a] by fastforce
  next
    assume R: ?R
    show ?N
    proof (rule ccontr)
      assume "\<not> ?N"
      then have ne: "?i \<noteq> length ?m" and le: "crm_base (snd (?m ! ?i)) \<le> a" by auto
      note ins = lower_bound_inside [OF assms ne]
      have "(crm_base (snd (?m ! ?i)), fst (?m ! ?i), crm_entry (snd (?m ! ?i))) \<in> desc t"
        using family_desc [OF nth_mem [OF ins(1)]] by (auto simp: family_def)
      with R le ins(2) show False by blast
    qed
  qed
  finally show ?thesis .
qed

lemma Retrieve_SomeD:
  assumes "ContainedRangeMap_RetrieveRange a t = Some e"
  defines "m \<equiv> crm_children t" and "i \<equiv> lower_bound a (crm_children t)"
  shows "i \<noteq> length m" "\<not> a < crm_base (snd (m ! i))"
    and "e = (case ContainedRangeMap_RetrieveRange a (snd (m ! i)) of
                Some e \<Rightarrow> e | None \<Rightarrow> crm_entry (snd (m ! i)))"
proof -
  have "(if i = length m \<or> a < crm_base (snd (m ! i)) then None
         else case ContainedRangeMap_RetrieveRange a (snd (m ! i)) of
           Some e \<Rightarrow> Some e | None \<Rightarrow> Some (crm_entry (snd (m ! i)))) = Some e"
    using trans [OF ContainedRangeMap_RetrieveRange.simps [of a t, symmetric] assms(1)]
    unfolding Let_def m_def i_def .
  then show "i \<noteq> length m" "\<not> a < crm_base (snd (m ! i))"
    and "e = (case ContainedRangeMap_RetrieveRange a (snd (m ! i)) of
                Some e \<Rightarrow> e | None \<Rightarrow> crm_entry (snd (m ! i)))"
    by (auto split: if_splits option.splits)
qed

lemma Retrieve_smallest:
  assumes "crm_ok t" "ContainedRangeMap_RetrieveRange a t = Some e"
  shows "\<exists>b h. smallest_at a (desc t) b h e"
  using assms
proof (induction a t rule: ContainedRangeMap_RetrieveRange.induct)
  case (1 a t)
  let ?m = "crm_children t" and ?i = "lower_bound a (crm_children t)"
  let ?c = "?m ! ?i"
  have ne: "?i \<noteq> length ?m" "\<not> a < crm_base (snd ?c)"
    and res: "e = (case ContainedRangeMap_RetrieveRange a (snd ?c) of Some e \<Rightarrow> e | None \<Rightarrow> crm_entry (snd ?c))"
    using Retrieve_SomeD [OF 1(3)] by simp_all
  note ins = lower_bound_inside [OF 1(2) ne(1)]
  note sub = family_desc [OF nth_mem [OF ins(1)]]
  have only: "(b', h', e') \<in> family ?c" if "(b', h', e') \<in> desc t" "b' \<le> a" "a \<le> h'" for b' h' e'
    using lower_bound_child(4) [OF 1(2) that] .
  have okc: "crm_ok (snd ?c)" using ins(3) by (simp add: child_ok_def)
  show ?case
  proof (cases "ContainedRangeMap_RetrieveRange a (snd ?c)")
    case None
    have "smallest_at a (desc t) (crm_base (snd ?c)) (fst ?c) e"
      unfolding smallest_at_def
    proof (intro conjI)
      show "(crm_base (snd ?c), fst ?c, e) \<in> desc t" using sub res None by (auto simp: family_def)
      show "crm_base (snd ?c) \<le> a" "a \<le> fst ?c" using ne(2) ins(2) by auto
      show "\<forall>(b', h', e') \<in> desc t. b' \<le> a \<and> a \<le> h' \<longrightarrow> encloses b' h' (crm_base (snd ?c)) (fst ?c)"
      proof (clarify)
        fix b' h' e'
        assume "(b', h', e') \<in> desc t" "b' \<le> a" "a \<le> h'"
        with only have "(b', h', e') \<in> family ?c" by blast
        then show "encloses b' h' (crm_base (snd ?c)) (fst ?c)"
          using Retrieve_None_iff [OF okc, of a] None \<open>b' \<le> a\<close> \<open>a \<le> h'\<close>
          by (cases rule: family_cases) (auto simp: encloses_def)
      qed
    qed
    then show ?thesis by blast
  next
    case (Some e')
    then have "e' = e" using res by simp
    with 1(1) [OF refl refl _ okc] ne Some obtain b h where bh: "smallest_at a (desc (snd ?c)) b h e" by auto
    then have mem: "(b, h, e) \<in> desc (snd ?c)" by (simp add: smallest_at_def)
    have "smallest_at a (desc t) b h e"
      unfolding smallest_at_def
    proof (intro conjI)
      show "(b, h, e) \<in> desc t" using sub mem by (auto simp: family_def)
      show "b \<le> a" "a \<le> h" using bh by (auto simp: smallest_at_def)
      show "\<forall>(b', h', e') \<in> desc t. b' \<le> a \<and> a \<le> h' \<longrightarrow> encloses b' h' b h"
      proof (clarify)
        fix b' h' e'
        assume "(b', h', e') \<in> desc t" "b' \<le> a" "a \<le> h'"
        with only have "(b', h', e') \<in> family ?c" by blast
        then show "encloses b' h' b h"
          using bh child_ok_desc(2,3) [OF ins(3) mem] \<open>b' \<le> a\<close> \<open>a \<le> h'\<close>
          by (cases rule: family_cases) (auto simp: smallest_at_def encloses_def)
      qed
    qed
    then show ?thesis by blast
  qed
qed

section \<open>Storing\<close>

text \<open>Where a new range lies among disjoint intervals, when it is not inside one of them.\<close>

lemma span_split:
  fixes lo :: "'v \<Rightarrow> 'k::linorder"
  assumes span: "span_ok lo m" and "base \<le> high"
    and notin: "\<not> (lower_bound base m = lower_bound high m \<and> lower_bound base m \<noteq> length m \<and>
                     lo (snd (m ! lower_bound base m)) \<le> base)"
    and pass: "\<not> (lower_bound base m \<noteq> length m \<and> lo (snd (m ! lower_bound base m)) < base)"
      "\<not> (ch \<and> high < fst (m ! lower_bound high m))"
    and ch: "ch \<longleftrightarrow> lower_bound high m \<noteq> length m \<and> lo (snd (m ! lower_bound high m)) \<le> high"
    and n: "n = (if ch then Suc (lower_bound high m) else lower_bound high m)"
  shows "lower_bound base m \<le> n" "n \<le> length m"
    and "x \<in> set (take (lower_bound base m) m) \<Longrightarrow> fst x < base"
    and "x \<in> set (drop (lower_bound base m) (take n m)) \<Longrightarrow>
           base \<le> lo (snd x) \<and> fst x \<le> high \<and> (lo (snd x), fst x) \<noteq> (base, high)"
    and "x \<in> set (drop n m) \<Longrightarrow> high < lo (snd x)"
proof -
  note mok = span_map_ok [OF span]
  let ?b = "lower_bound base m" and ?h = "lower_bound high m"
  have "?b \<le> ?h"
    using std.lower_above [OF mok, of high ?h] std.lower_below [OF mok, of ?h base] lower_bound_le [of base m] assms(2)
    by (metis leD leI less_le_trans order_trans order_refl)
  then show "?b \<le> n" by (simp add: n)
  show nlen: "n \<le> length m" using lower_bound_le [of high m] ch by (auto simp: n)
  show "fst x < base" if "x \<in> set (take ?b m)"
    using that std.lower_below [OF mok, of _ base] by (auto simp: in_set_conv_nth key_of_def)
  show "base \<le> lo (snd x) \<and> fst x \<le> high \<and> (lo (snd x), fst x) \<noteq> (base, high)"
    if x: "x \<in> set (drop ?b (take n m))"
  proof -
    obtain i where i: "?b \<le> i" "i < n" "i < length m" "x = m ! i"
      using x nlen by (auto simp: in_set_conv_nth) (metis le_add1 add.commute less_diff_conv order_less_le_trans)
    have lo: "base \<le> lo (snd x)"
      using span_lo_mono [OF span i(1,3)] pass(1) i by auto
    moreover have "fst x \<le> high"
    proof (cases "i < ?h")
      case True
      then show ?thesis using std.lower_below [OF mok True] i(4) by (simp add: key_of_def)
    next
      case False
      then have "ch" "i = ?h" using i(2) by (auto simp: n split: if_splits)
      then show ?thesis using pass(2) i(4) by auto
    qed
    moreover have "(lo (snd x), fst x) \<noteq> (base, high)"
    proof
      assume "(lo (snd x), fst x) = (base, high)"
      then have "?b = i" "?h = i"
        using span_hit [OF span i(3), of base] span_hit [OF span i(3), of high] assms(2) i(4) by auto
      with notin i lo \<open>(lo (snd x), fst x) = (base, high)\<close> show False by auto
    qed
    ultimately show ?thesis by blast
  qed
  show "high < lo (snd x)" if x: "x \<in> set (drop n m)"
  proof -
    obtain i where i: "n \<le> i" "i < length m" "x = m ! i"
      using x by (auto simp: in_set_conv_nth) (metis le_add1 add.commute less_diff_conv)
    show ?thesis
    proof (cases ch)
      case True
      then have "?h < i" using i(1) by (simp add: n)
      then have "fst (m ! ?h) < lo (snd x)" using span_order [OF span _ i(2)] i(3) by simp
      moreover have "high \<le> fst (m ! ?h)"
        using std.lower_above [OF mok, of high ?h] True ch lower_bound_le [of high m] by (simp add: key_of_def)
      ultimately show ?thesis by simp
    next
      case False
      then have "?h \<le> i" "?h \<noteq> length m" using i(1,2) by (auto simp: n)
      then show ?thesis using False ch span_lo_mono [OF span _ i(2), of ?h] i(3) by auto
    qed
  qed
qed

lemma span_crosses:
  fixes lo :: "'v \<Rightarrow> 'k::linorder"
  assumes span: "span_ok lo m" and "base \<le> high"
    and notin: "\<not> (lower_bound base m = lower_bound high m \<and> lower_bound base m \<noteq> length m \<and>
                     lo (snd (m ! lower_bound base m)) \<le> base)"
    and cross: "lower_bound base m \<noteq> length m \<and> lo (snd (m ! lower_bound base m)) < base \<or>
      lower_bound high m \<noteq> length m \<and> lo (snd (m ! lower_bound high m)) \<le> high \<and> high < fst (m ! lower_bound high m)"
  shows "\<exists>x \<in> set m. \<not> nests base high (lo (snd x)) (fst x)"
proof -
  note mok = span_map_ok [OF span]
  let ?b = "lower_bound base m" and ?h = "lower_bound high m"
  have in_m: "m ! lower_bound k m \<in> set m" "k \<le> fst (m ! lower_bound k m)" if "lower_bound k m \<noteq> length m" for k
    using that lower_bound_le [of k m] std.lower_above [OF mok, of k "lower_bound k m"]
    by (auto simp: key_of_def)
  have order: "?b \<le> ?h"
    using std.lower_above [OF mok, of high ?h] std.lower_below [OF mok, of ?h base] lower_bound_le [of base m] assms(2)
    by (metis leD leI less_le_trans order_trans order_refl)
  from cross show ?thesis
  proof
    assume b: "?b \<noteq> length m \<and> lo (snd (m ! ?b)) < base"
    then have "?b < ?h" using notin order by (cases "?b = ?h") auto
    then have "fst (m ! ?b) < high" using std.lower_below [OF mok, of ?b high] by (simp add: key_of_def)
    with b in_m [of base] show ?thesis
      by (intro bexI [of _ "m ! ?b"]) (auto simp: nests_def encloses_def)
  next
    assume h: "?h \<noteq> length m \<and> lo (snd (m ! ?h)) \<le> high \<and> high < fst (m ! ?h)"
    have "base < lo (snd (m ! ?h))"
    proof (cases "?b = ?h")
      case True
      then show ?thesis using notin h by auto
    next
      case False
      then have "fst (m ! ?b) < lo (snd (m ! ?h))"
        using span_order [OF span, of ?b ?h] order h lower_bound_le [of high m] by simp
      then show ?thesis using in_m(2) [of base] False order lower_bound_le [of high m] by fastforce
    qed
    with h in_m [of high] show ?thesis
      by (intro bexI [of _ "m ! ?h"]) (auto simp: nests_def encloses_def)
  qed
qed

lemma map_insert_between:
  assumes "\<And>x. x \<in> set xs \<Longrightarrow> fst x < k" "\<And>y. y \<in> set ys \<Longrightarrow> k < fst y"
  shows "map_insert k v (xs @ ys) = xs @ (k, v) # ys"
  using assms
proof (induction xs)
  case Nil
  then have "\<forall>y \<in> set ys. k < fst y" by blast
  then show ?case by (cases ys) auto
next
  case (Cons x xs)
  then have "fst x < k" by simp
  with Cons show ?case by (cases x) auto
qed

lemma nests_apart: "h' < b \<or> h < b' \<Longrightarrow> nests b h b' h'"
  by (auto simp: nests_def)

lemma span_ok_same:
  assumes "map (\<lambda>r. (fst r, lo (snd r))) m = map (\<lambda>r. (fst r, lo (snd r))) m'"
  shows "span_ok lo m \<longleftrightarrow> span_ok lo m'"
proof -
  have "span_ok lo m \<longleftrightarrow> span_ok id (map (\<lambda>r. (fst r, lo (snd r))) m)" for m
    by (auto simp: span_ok_def sorted_wrt_map)
  with assms show ?thesis by metis
qed

text \<open>The four outcomes of \<^verbatim>\<open>StoreRange\<close> on a valid range.\<close>

definition store_deeper :: "'w::len word \<Rightarrow> 'w word \<Rightarrow> ('w word, 'e) ContainedRangeMap \<Rightarrow> bool" where
  "store_deeper base high t \<longleftrightarrow>
     (let m = crm_children t in
      lower_bound base m = lower_bound high m \<and> lower_bound base m \<noteq> length m \<and>
      crm_base (snd (m ! lower_bound base m)) \<le> base)"

lemma Store_invalid:
  "sz = 0 \<or> base + sz - 1 < base \<Longrightarrow> ContainedRangeMap_StoreRange base sz e t = (False, t)"
  by (subst ContainedRangeMap_StoreRange.simps) (auto simp: Let_def)

lemma Store_deeper:
  fixes base sz :: "'w::len word"
  assumes "sz \<noteq> 0" "base \<le> base + sz - 1" "store_deeper base (base + sz - 1) t"
  defines "c \<equiv> crm_children t ! lower_bound base (crm_children t)"
  shows "ContainedRangeMap_StoreRange base sz e t =
    (if crm_base (snd c) = base \<and> fst c = base + sz - 1
     then (False, CRMap (crm_base t) (crm_entry t) (Some (crm_children t)))
     else (fst (ContainedRangeMap_StoreRange base sz e (snd c)),
           CRMap (crm_base t) (crm_entry t) (Some ((crm_children t)[lower_bound base (crm_children t) :=
             (fst c, snd (ContainedRangeMap_StoreRange base sz e (snd c)))]))))"
proof -
  have valid: "(sz \<le> 0 \<or> base + sz - 1 < base) = False" using assms(1,2) by auto
  have deeper: "(lower_bound base (crm_children t) = lower_bound (base + sz - 1) (crm_children t) \<and>
      lower_bound base (crm_children t) \<noteq> length (crm_children t) \<and>
      crm_base (snd (crm_children t ! lower_bound base (crm_children t))) \<le> base) = True"
    using assms(3) unfolding store_deeper_def Let_def by blast
  show ?thesis
    unfolding c_def
    by (subst ContainedRangeMap_StoreRange.simps) (simp only: Let_def valid deeper if_False if_True split_beta)
qed

lemma Store_here:
  fixes base sz :: "'w::len word"
  assumes "sz \<noteq> 0" "base \<le> base + sz - 1" "\<not> store_deeper base (base + sz - 1) t"
  defines "m \<equiv> crm_children t" and "high \<equiv> base + sz - 1"
  defines "ch \<equiv> lower_bound high m \<noteq> length m \<and> crm_base (snd (m ! lower_bound high m)) \<le> high"
  defines "n \<equiv> (if ch then Suc (lower_bound high m) else lower_bound high m)"
  shows "ContainedRangeMap_StoreRange base sz e t =
    (if (lower_bound base m \<noteq> length m \<and> crm_base (snd (m ! lower_bound base m)) < base) \<or>
        (ch \<and> high < fst (m ! lower_bound high m))
     then (False, CRMap (crm_base t) (crm_entry t) (Some m))
     else (True, CRMap (crm_base t) (crm_entry t)
            (Some (map_insert high
              (CRMap base e (if lower_bound base m \<noteq> n then Some (drop (lower_bound base m) (take n m)) else None))
              (take (lower_bound base m) m @ drop n m)))))"
proof -
  have valid: "(sz \<le> 0 \<or> base + sz - 1 < base) = False" using assms(1,2) by auto
  have here: "(lower_bound base (crm_children t) = lower_bound (base + sz - 1) (crm_children t) \<and>
      lower_bound base (crm_children t) \<noteq> length (crm_children t) \<and>
      crm_base (snd (crm_children t ! lower_bound base (crm_children t))) \<le> base) = False"
    using assms(3) by (simp add: store_deeper_def Let_def)
  show ?thesis
    unfolding n_def ch_def high_def m_def
    by (subst ContainedRangeMap_StoreRange.simps) (simp only: Let_def valid here if_False)
qed

lemma Store_keeps:
  "crm_base (snd (ContainedRangeMap_StoreRange base sz e t)) = crm_base t"
  "crm_entry (snd (ContainedRangeMap_StoreRange base sz e t)) = crm_entry t"
proof -
  consider "sz = 0 \<or> base + sz - 1 < base"
    | "sz \<noteq> 0" "base \<le> base + sz - 1" "store_deeper base (base + sz - 1) t"
    | "sz \<noteq> 0" "base \<le> base + sz - 1" "\<not> store_deeper base (base + sz - 1) t"
    by fastforce
  then have "crm_base (snd (ContainedRangeMap_StoreRange base sz e t)) = crm_base t \<and>
    crm_entry (snd (ContainedRangeMap_StoreRange base sz e t)) = crm_entry t"
  proof cases
    case 1
    then show ?thesis by (simp add: Store_invalid)
  next
    case 2
    then show ?thesis unfolding Store_deeper [OF 2] by simp
  next
    case 3
    then show ?thesis unfolding Store_here [OF 3] by simp
  qed
  then show "crm_base (snd (ContainedRangeMap_StoreRange base sz e t)) = crm_base t"
    "crm_entry (snd (ContainedRangeMap_StoreRange base sz e t)) = crm_entry t" by auto
qed

definition store_spec ::
    "'a::linorder \<Rightarrow> 'a \<Rightarrow> 'e \<Rightarrow> ('a, 'e) ContainedRangeMap \<Rightarrow> bool \<Rightarrow> ('a, 'e) ContainedRangeMap \<Rightarrow> bool" where
  "store_spec base high e t r t' \<longleftrightarrow>
     crm_ok t' \<and> (r \<longleftrightarrow> (\<forall>(b, h, e') \<in> desc t. nests base high b h)) \<and>
     desc t' = (if r then insert (base, high, e) (desc t) else desc t)"

lemma deeper_spec:
  assumes ok: "crm_ok t" and i: "i < length (crm_children t)"
  defines "c \<equiv> crm_children t ! i"
  assumes inside: "crm_base (snd c) \<le> base" "high \<le> fst c" "base \<le> high" "\<not> (crm_base (snd c) = base \<and> fst c = high)"
    and rec: "store_spec base high e (snd c) r c'" and keep: "crm_base c' = crm_base (snd c)" "crm_entry c' = crm_entry (snd c)"
  shows "store_spec base high e t r (CRMap (crm_base t) (crm_entry t) (Some ((crm_children t)[i := (fst c, c')])))"
proof -
  let ?m = "crm_children t" and ?c' = "(fst c, c')"
  let ?t = "CRMap (crm_base t) (crm_entry t) (Some (?m[i := ?c']))"
  have span: "span_ok crm_base ?m" and good: "child_ok d" if "d \<in> set ?m" for d
    using ok that by (auto simp: crm_ok_children)
  have m: "?m = take i ?m @ c # drop (Suc i) ?m" using i by (simp add: c_def id_take_nth_drop)
  have m': "?m[i := ?c'] = take i ?m @ ?c' # drop (Suc i) ?m" using i by (simp add: upd_conv_take_nth_drop)
  have cin: "c \<in> set ?m" using i by (simp add: c_def)
  have fam: "family ?c' = (if r then insert (base, high, e) (family c) else family c)"
    using rec keep by (auto simp: family_def store_spec_def)
  have rest: "desc t = (\<Union>d \<in> set (take i ?m) \<union> set (drop (Suc i) ?m). family d) \<union> family c"
    unfolding desc_children by (subst m) auto
  have desc': "desc ?t = (if r then insert (base, high, e) (desc t) else desc t)"
    unfolding desc_children [of ?t] rest by (simp add: m' fam) blast
  have far: "nests base high b h" if "d \<in> set (take i ?m) \<union> set (drop (Suc i) ?m)" "(b, h, e') \<in> family d" for d b h e'
  proof -
    have "span_ok crm_base (take i ?m @ c # drop (Suc i) ?m)" using span [OF cin] m by simp
    then have d: "fst d < crm_base (snd c) \<or> fst c < crm_base (snd d)"
      using that(1) by (auto simp: span_ok_append span_ok_Cons)
    have d': "d \<in> set ?m" using that(1) by (auto dest: in_set_takeD in_set_dropD)
    show ?thesis
      using family_within [OF good [OF d'] that(2)] inside d by (intro nests_apart) auto
  qed
  have self: "nests base high (crm_base (snd c)) (fst c)"
    using inside by (auto simp: nests_def encloses_def)
  have r: "r \<longleftrightarrow> (\<forall>(b, h, e') \<in> desc t. nests base high b h)"
    using rec far self unfolding rest by (fastforce simp: store_spec_def family_def)
  have "span_ok crm_base (?m[i := ?c'])"
    using span [OF cin] by (subst span_ok_same [of _ _ ?m]) (auto simp: map_update keep c_def i list_update_same_conv)
  moreover have "child_ok ?c'"
    using good [OF cin] rec keep inside by (auto simp: child_ok_def store_spec_def encloses_def split: if_splits)
  then have "\<forall>d \<in> set (?m[i := ?c']). child_ok d"
    using good by (auto dest!: set_update_subset_insert [THEN subsetD])
  ultimately have "crm_ok ?t" by (simp add: crm_ok_children)
  with r desc' show ?thesis by (simp add: store_spec_def)
qed

lemma here_spec:
  assumes ok: "crm_ok t" and m: "crm_children t = xs @ ys @ zs" and "base \<le> high"
    and xs: "\<And>x. x \<in> set xs \<Longrightarrow> fst x < base"
    and ys: "\<And>x. x \<in> set ys \<Longrightarrow> base \<le> crm_base (snd x) \<and> fst x \<le> high \<and> (crm_base (snd x), fst x) \<noteq> (base, high)"
    and zs: "\<And>x. x \<in> set zs \<Longrightarrow> high < crm_base (snd x)"
    and cm: "cm = (if ys = [] then None else Some ys)"
  shows "store_spec base high e t True (CRMap b0 e0 (Some (map_insert high (CRMap base e cm) (xs @ zs))))"
proof -
  let ?new = "CRMap base e cm"
  have span: "span_ok crm_base (xs @ ys @ zs)" and good: "\<And>c. c \<in> set xs \<union> set ys \<union> set zs \<Longrightarrow> child_ok c"
    using ok by (auto simp: crm_ok_children m)
  have zs': "high < fst x" if "x \<in> set zs" for x
  proof -
    have "crm_base (snd x) \<le> fst x" using span that by (auto simp: span_ok_def)
    with zs [OF that] show ?thesis by simp
  qed
  have ins: "map_insert high ?new (xs @ zs) = xs @ (high, ?new) # zs"
    using xs zs' assms(3) by (intro map_insert_between) force+
  have ch: "crm_children ?new = ys" by (simp add: cm)
  have new: "desc ?new = (\<Union>c \<in> set ys. family c)" by (simp add: desc_children ch)
  have inner: "b \<le> h \<and> encloses base high b h \<and> (b, h) \<noteq> (base, high)"
    if "c \<in> set ys" "(b, h, e') \<in> family c" for c b h e'
  proof -
    have "child_ok c" using good that(1) by blast
    note within = family_within [OF this that(2)]
    have "b \<le> h" using that(2) span that(1) child_ok_desc(1) [OF \<open>child_ok c\<close>]
      by (auto simp: span_ok_append span_ok_def elim!: family_cases)
    moreover have "encloses base high b h" using within ys [OF that(1)] by (auto simp: encloses_def)
    moreover have "(b, h) \<noteq> (base, high)" using within ys [OF that(1)] by auto
    ultimately show ?thesis by blast
  qed
  have "span_ok crm_base (xs @ (high, ?new) # zs)"
    using span xs zs assms(3) by (auto simp: span_ok_append span_ok_Cons)
  moreover have "crm_ok ?new"
    using span good by (auto simp: crm_ok_children ch span_ok_append)
  then have "child_ok (high, ?new)" using inner by (fastforce simp: child_ok_def new)
  ultimately have "crm_ok (CRMap b0 e0 (Some (xs @ (high, ?new) # zs)))"
    using good by (auto simp: crm_ok_children)
  moreover have "desc (CRMap b0 e0 (Some (xs @ (high, ?new) # zs))) = insert (base, high, e) (desc t)"
    by (auto simp: desc_children m family_def [of "(high, ?new)"] ch)
  moreover have "nests base high b h" if bh: "(b, h, e') \<in> desc t" for b h e'
  proof -
    obtain c where c: "c \<in> set xs \<union> set ys \<union> set zs" "(b, h, e') \<in> family c"
      using bh by (auto simp: desc_children m)
    note within = family_within [OF good [OF c(1)] c(2)]
    from c(1) consider "c \<in> set xs" | "c \<in> set ys" | "c \<in> set zs" by blast
    then show ?thesis
    proof cases
      case 1
      then show ?thesis using xs within by (fastforce intro: nests_apart)
    next
      case 2
      then show ?thesis using inner [OF 2 c(2)] by (auto simp: nests_def)
    next
      case 3
      then show ?thesis using zs within by (fastforce intro: nests_apart)
    qed
  qed
  ultimately show ?thesis unfolding store_spec_def ins by auto
qed

lemma Store_spec:
  fixes base sz :: "'w::len word"
  assumes "crm_ok t" "sz \<noteq> 0" "base \<le> base + sz - 1"
  shows "store_spec base (base + sz - 1) e t
           (fst (ContainedRangeMap_StoreRange base sz e t)) (snd (ContainedRangeMap_StoreRange base sz e t))"
  using assms
proof (induction "size t" arbitrary: t rule: less_induct)
  case less
  note ok = less(2) and valid = less(3,4)
  let ?m = "crm_children t" and ?high = "base + sz - 1"
  let ?b = "lower_bound base ?m" and ?h = "lower_bound ?high ?m"
  have span: "span_ok crm_base ?m" and good: "\<forall>c \<in> set ?m. child_ok c" using ok by (auto simp: crm_ok_children)
  have same: "store_spec base ?high e t False (CRMap (crm_base t) (crm_entry t) (Some ?m))"
    if crossed: "\<exists>c \<in> set ?m. \<not> nests base ?high (crm_base (snd c)) (fst c)"
  proof -
    obtain c where "c \<in> set ?m" "\<not> nests base ?high (crm_base (snd c)) (fst c)" using crossed by blast
    moreover from this(1) have "(crm_base (snd c), fst c, crm_entry (snd c)) \<in> desc t"
      using family_desc by (fastforce simp: family_def)
    ultimately have "\<not> (\<forall>(b, h, e') \<in> desc t. nests base ?high b h)" by blast
    moreover have "desc (CRMap (crm_base t) (crm_entry t) (Some ?m)) = desc t"
      "crm_ok (CRMap (crm_base t) (crm_entry t) (Some ?m)) \<longleftrightarrow> crm_ok t"
      unfolding desc_children crm_ok_children by simp_all
    ultimately show ?thesis using ok unfolding store_spec_def by simp
  qed
  show ?case
  proof (cases "store_deeper base ?high t")
    case True
    let ?c = "?m ! ?b"
    have i: "?b < length ?m" and eq: "?b = ?h" and le: "crm_base (snd ?c) \<le> base"
      using True lower_bound_le [of base ?m] by (auto simp: store_deeper_def Let_def)
    have hi: "?high \<le> fst ?c"
      using std.lower_above [OF span_map_ok [OF span], of ?high ?h] i eq by (simp add: key_of_def)
    show ?thesis
    proof (cases "crm_base (snd ?c) = base \<and> fst ?c = ?high")
      case same_range: True
      then have "\<not> nests base ?high (crm_base (snd ?c)) (fst ?c)"
        using valid(2) by (auto simp: nests_def)
      then have "\<exists>c \<in> set ?m. \<not> nests base ?high (crm_base (snd c)) (fst c)"
        using nth_mem [OF i] by blast
      from same [OF this] same_range show ?thesis unfolding Store_deeper [OF valid True] by simp
    next
      case False
      have okc: "crm_ok (snd ?c)" using good nth_mem [OF i] by (auto simp: child_ok_def)
      note rec = less(1) [OF size_child [OF i] okc valid]
      show ?thesis
        using deeper_spec [OF ok i le hi valid(2) False rec Store_keeps]
        unfolding Store_deeper [OF valid True] if_not_P [OF False] fst_conv snd_conv .
    qed
  next
    case False
    define ch where "ch \<longleftrightarrow> ?h \<noteq> length ?m \<and> crm_base (snd (?m ! ?h)) \<le> ?high"
    define n where "n = (if ch then Suc ?h else ?h)"
    let ?fails = "(?b \<noteq> length ?m \<and> crm_base (snd (?m ! ?b)) < base) \<or> (ch \<and> ?high < fst (?m ! ?h))"
    have notin: "\<not> (?b = ?h \<and> ?b \<noteq> length ?m \<and> crm_base (snd (?m ! ?b)) \<le> base)"
      using False unfolding store_deeper_def Let_def .
    note here = Store_here [OF valid False, folded ch_def, folded n_def]
    show ?thesis
    proof (cases ?fails)
      case True
      then show ?thesis
        using same [OF span_crosses [OF span valid(2) notin]]
        unfolding here if_P [OF True] fst_conv snd_conv by (auto simp: ch_def)
    next
      case pass: False
      then have p: "\<not> (?b \<noteq> length ?m \<and> crm_base (snd (?m ! ?b)) < base)" "\<not> (ch \<and> ?high < fst (?m ! ?h))"
        by auto
      note split = span_split [OF span valid(2) notin p ch_def n_def]
      have m: "?m = take ?b ?m @ drop ?b (take n ?m) @ drop n ?m"
        using split(1) by (metis append_take_drop_id append.assoc min.absorb1 take_take)
      have "(drop ?b (take n ?m) = []) \<longleftrightarrow> ?b = n" using split(1,2) by auto
      then have "store_spec base ?high e t True (CRMap (crm_base t) (crm_entry t)
          (Some (map_insert ?high (CRMap base e (if ?b \<noteq> n then Some (drop ?b (take n ?m)) else None))
            (take ?b ?m @ drop n ?m))))"
        by (intro here_spec [OF ok m valid(2) split(3-5)]) auto
      then show ?thesis unfolding here if_not_P [OF pass] fst_conv snd_conv .
    qed
  qed
qed

section \<open>Properties\<close>

text \<open>C23: StoreRange of a consistent tree accepts a range exactly when it is valid and, for every range
  of the tree, is apart from it, properly inside it or properly around it.  The accepted range joins
  the ranges of the tree, a refused one changes none of them, and the tree stays consistent.\<close>

theorem ContainedRangeMap_StoreRange_refines:
  fixes base sz :: "'w::len word"
  assumes "crm_ok t"
  shows "let (r, t') = ContainedRangeMap_StoreRange base sz e t; high = base + sz - 1 in
    crm_ok t' \<and>
    (r \<longleftrightarrow> sz \<noteq> 0 \<and> uint base + uint sz \<le> 2 ^ LENGTH('w) \<and> (\<forall>(b, h, e') \<in> desc t. nests base high b h)) \<and>
    desc t' = (if r then insert (base, high, e) (desc t) else desc t)"
proof (cases "sz \<noteq> 0 \<and> base \<le> base + sz - 1")
  case True
  then show ?thesis
    using Store_spec [OF assms, of sz base e] no_wrap_iff [of sz base]
    by (simp add: store_spec_def Let_def split_beta)
next
  case False
  then show ?thesis
    using Store_invalid [of sz base e t] no_wrap_iff [of sz base] assms
    by (auto simp: Let_def not_le)
qed

text \<open>A function with an inlined call, and a second function behind it.\<close>

definition nested_ranges :: "(64 word, nat) ContainedRangeMap" where
  "nested_ranges = CRMap 0 0 (Some
     [(0x1FFF, CRMap 0x1000 1 (Some [(0x14FF, CRMap 0x1400 2 None)])), (0x4FFF, CRMap 0x4000 3 None)])"

lemma nested_ranges_ok: "crm_ok nested_ranges"
  by (simp add: nested_ranges_def span_ok_Cons encloses_def)

lemma desc_nested_ranges:
  "desc nested_ranges = {(0x1000, 0x1FFF, 1), (0x1400, 0x14FF, 2), (0x4000, 0x4FFF, 3)}"
  by (auto simp: nested_ranges_def)

theorem ContainedRangeMap_StoreRange_refines_witness:
  "crm_ok nested_ranges \<and>
   desc (snd (ContainedRangeMap_StoreRange 0x1380 0x200 9 nested_ranges)) =
     {(0x1380, 0x157F, 9), (0x1000, 0x1FFF, 1), (0x1400, 0x14FF, 2), (0x4000, 0x4FFF, 3)} \<and>
   \<not> fst (ContainedRangeMap_StoreRange 0x1F00 0x200 9 nested_ranges)"
  using ContainedRangeMap_StoreRange_refines [OF nested_ranges_ok, of "0x1380" "0x200" 9]
    ContainedRangeMap_StoreRange_refines [OF nested_ranges_ok, of "0x1F00" "0x200" 9] nested_ranges_ok
  by (simp add: Let_def split_beta desc_nested_ranges nests_def encloses_def)

text \<open>C24: RetrieveRange of a consistent tree returns the entry of the smallest range around the
  address, which every other range around it encloses; it fails only when no range holds the address.\<close>

theorem ContainedRangeMap_RetrieveRange_smallest:
  assumes "crm_ok t"
  shows "case ContainedRangeMap_RetrieveRange a t of
      None \<Rightarrow> \<forall>(b, h, e) \<in> desc t. \<not> (b \<le> a \<and> a \<le> h)
    | Some e \<Rightarrow> \<exists>b h. smallest_at a (desc t) b h e"
  using Retrieve_None_iff [OF assms, of a] Retrieve_smallest [OF assms, of a]
  by (simp split: option.split)

theorem ContainedRangeMap_RetrieveRange_smallest_witness:
  "ContainedRangeMap_RetrieveRange 0x1410 nested_ranges = Some 2 \<and>
   (\<exists>b h. smallest_at 0x1410 (desc nested_ranges) b h 2)"
proof -
  have "ContainedRangeMap_RetrieveRange 0x1410 nested_ranges = Some 2"
    by (simp add: nested_ranges_def ContainedRangeMap_RetrieveRange.simps lower_bound_def)
  with ContainedRangeMap_RetrieveRange_smallest [OF nested_ranges_ok, of "0x1410"] show ?thesis by simp
qed

end
