(* ===== verification/Map_Serializer.thy ===== *)
theory Map_Serializer
  imports Static_Map Contained_Range_Map
begin

text \<open>
  Writing the maps of a symbol module into one block of memory: \<^verbatim>\<open>simple_serializer.h\<close> and
  \<^verbatim>\<open>simple_serializer-inl.h\<close> for the entries, \<^verbatim>\<open>map_serializers-inl.h\<close> for the maps, and the
  readers \<^verbatim>\<open>CopyFrom\<close> of \<^verbatim>\<open>fast_source_line_resolver_types.h\<close>.

  A pointer is a position in the block, or \<open>None\<close> for \<^verbatim>\<open>NULL\<close>.  A serializer is a pair of a size
  and a write function, as the template parameter \<^verbatim>\<open>SimpleSerializer<Type>\<close> is in the code; the
  serializers of the maps take the ones of their entries as arguments.
\<close>

type_synonym ptr = "nat option"
type_synonym 'e writer = "'e \<Rightarrow> ptr \<Rightarrow> u8 list \<Rightarrow> (ptr \<times> u8 list) comp"

definition patch :: "u8 list \<Rightarrow> nat \<Rightarrow> u8 list \<Rightarrow> u8 list" where
  "patch mem d bs = take d mem @ bs @ drop (d + length bs) mem"

definition poke :: "u8 list \<Rightarrow> ptr \<Rightarrow> u8 list \<Rightarrow> u8 list comp" where
  "poke bs p mem =
     bindc (deref p) (\<lambda>d. if d + length bs \<le> length mem then ret (patch mem d bs) else fail OutOfRange)"

definition advance :: "nat \<Rightarrow> ptr \<Rightarrow> ptr" where
  "advance n p = map_option (\<lambda>d. d + n) p"

section \<open>Serializers of the entries\<close>

text \<open>Numbers of \<open>n\<close> bytes.\<close>

definition Simple_SizeOf :: "nat \<Rightarrow> 'a::len word \<Rightarrow> nat" where
  "Simple_SizeOf n item = n"

definition Simple_Write :: "nat \<Rightarrow> 'a::len word writer" where
  "Simple_Write n item dest mem =
     bindc (poke (le_bytes n (unat item)) dest mem) (\<lambda>mem. ret (advance n dest, mem))"

definition bool_Write :: "bool writer" where
  "bool_Write b dest mem = bindc (poke [if b then 255 else 0] dest mem) (\<lambda>mem. ret (advance 1 dest, mem))"

definition bool_Read :: "u8 list \<Rightarrow> nat \<Rightarrow> (bool \<times> nat) comp" where
  "bool_Read mem source = bindc (peek mem 1 source) (\<lambda>c :: u8. ret (c \<noteq> 0, source + 1))"

text \<open>A \<^verbatim>\<open>std::string\<close> is its bytes; \<^verbatim>\<open>strcpy\<close> stops at the first zero.\<close>

definition string_SizeOf :: "u8 list \<Rightarrow> nat" where
  "string_SizeOf str = length str + 1"

definition string_Write :: "u8 list writer" where
  "string_Write str dest mem =
     bindc (poke (takeWhile (\<lambda>c. c \<noteq> 0) str @ [0]) dest mem) (\<lambda>mem. ret (advance (string_SizeOf str) dest, mem))"

record Line =
  line_address :: MemAddr
  line_size :: MemAddr
  source_file_id :: u32
  line_number :: u32

definition Line_SizeOf :: "Line \<Rightarrow> nat" where
  "Line_SizeOf l = Simple_SizeOf 8 (line_address l) + Simple_SizeOf 8 (line_size l)
     + Simple_SizeOf 4 (source_file_id l) + Simple_SizeOf 4 (line_number l)"

definition Line_Write :: "Line writer" where
  "Line_Write l dest mem =
     bindc (Simple_Write 8 (line_address l) dest mem) (\<lambda>(dest, mem).
     bindc (Simple_Write 8 (line_size l) dest mem) (\<lambda>(dest, mem).
     bindc (Simple_Write 4 (source_file_id l) dest mem) (\<lambda>(dest, mem).
     Simple_Write 4 (line_number l) dest mem)))"

definition Line_CopyFrom :: "u8 list \<Rightarrow> nat \<Rightarrow> Line comp" where
  "Line_CopyFrom mem raw =
     bindc (peek mem 8 raw) (\<lambda>a.
     bindc (peek mem 8 (raw + 8)) (\<lambda>s.
     bindc (peek mem 4 (raw + 16)) (\<lambda>f.
     bindc (peek mem 4 (raw + 20)) (\<lambda>n.
     ret \<lparr>line_address = a, line_size = s, source_file_id = f, line_number = n\<rparr>))))"

record PublicSymbol =
  ps_name :: "u8 list"
  ps_address :: MemAddr
  ps_parameter_size :: u32

definition PublicSymbol_SizeOf :: "PublicSymbol \<Rightarrow> nat" where
  "PublicSymbol_SizeOf p =
     string_SizeOf (ps_name p) + Simple_SizeOf 8 (ps_address p) + Simple_SizeOf 4 (ps_parameter_size p)"

definition PublicSymbol_Write :: "PublicSymbol writer" where
  "PublicSymbol_Write p dest mem =
     bindc (string_Write (ps_name p) dest mem) (\<lambda>(dest, mem).
     bindc (Simple_Write 8 (ps_address p) dest mem) (\<lambda>(dest, mem).
     Simple_Write 4 (ps_parameter_size p) dest mem))"

text \<open>A C string in the block.\<close>

definition cstring :: "u8 list \<Rightarrow> nat \<Rightarrow> u8 list comp" where
  "cstring mem p =
     (let s = takeWhile (\<lambda>c. c \<noteq> 0) (drop p mem) in
      if p + length s < length mem then ret s else fail OutOfRange)"

definition PublicSymbol_CopyFrom :: "u8 list \<Rightarrow> nat \<Rightarrow> PublicSymbol comp" where
  "PublicSymbol_CopyFrom mem raw =
     bindc (cstring mem raw) (\<lambda>name.
     let name_size = length name + 1 in
     bindc (peek mem 8 (raw + name_size)) (\<lambda>a.
     bindc (peek mem 4 (raw + name_size + 8)) (\<lambda>n.
     ret \<lparr>ps_name = name, ps_address = a, ps_parameter_size = n\<rparr>)))"

text \<open>The entries of a module are \<^verbatim>\<open>linked_ptr\<close>s; a null pointer writes nothing.\<close>

definition linked_SizeOf :: "('e \<Rightarrow> nat) \<Rightarrow> 'e option \<Rightarrow> nat" where
  "linked_SizeOf szof p = (case p of None \<Rightarrow> 0 | Some e \<Rightarrow> szof e)"

definition linked_Write :: "'e writer \<Rightarrow> 'e option writer" where
  "linked_Write wr p dest mem = (case p of None \<Rightarrow> ret (dest, mem) | Some e \<Rightarrow> wr e dest mem)"

record WindowsFrameInfo =
  wfi_type :: u32
  wfi_valid :: u32
  prolog_size :: u32
  epilog_size :: u32
  wfi_parameter_size :: u32
  saved_register_size :: u32
  local_size :: u32
  max_stack_size :: u32
  allocates_base_pointer :: bool
  program_string :: "u8 list"

definition WFI_SizeOf :: "WindowsFrameInfo \<Rightarrow> nat" where
  "WFI_SizeOf w = 4 + Simple_SizeOf 4 (wfi_valid w) + Simple_SizeOf 4 (prolog_size w) + Simple_SizeOf 4 (epilog_size w)
     + Simple_SizeOf 4 (wfi_parameter_size w) + Simple_SizeOf 4 (saved_register_size w) + Simple_SizeOf 4 (local_size w)
     + Simple_SizeOf 4 (max_stack_size w) + 1 + string_SizeOf (program_string w)"

definition WFI_Write :: "WindowsFrameInfo writer" where
  "WFI_Write w dest mem =
     bindc (Simple_Write 4 (wfi_type w) dest mem) (\<lambda>(dest, mem).
     bindc (Simple_Write 4 (wfi_valid w) dest mem) (\<lambda>(dest, mem).
     bindc (Simple_Write 4 (prolog_size w) dest mem) (\<lambda>(dest, mem).
     bindc (Simple_Write 4 (epilog_size w) dest mem) (\<lambda>(dest, mem).
     bindc (Simple_Write 4 (wfi_parameter_size w) dest mem) (\<lambda>(dest, mem).
     bindc (Simple_Write 4 (saved_register_size w) dest mem) (\<lambda>(dest, mem).
     bindc (Simple_Write 4 (local_size w) dest mem) (\<lambda>(dest, mem).
     bindc (Simple_Write 4 (max_stack_size w) dest mem) (\<lambda>(dest, mem).
     bindc (bool_Write (allocates_base_pointer w) dest mem) (\<lambda>(dest, mem).
     string_Write (program_string w) dest mem)))))))))"

text \<open>The reader passes the type and the eight fields behind \<^verbatim>\<open>valid\<close> to the constructor, which marks
  all fields as valid.\<close>

definition CopyWFI :: "u8 list \<Rightarrow> nat \<Rightarrow> WindowsFrameInfo comp" where
  "CopyWFI mem raw =
     bindc (peek mem 4 raw) (\<lambda>t.
     bindc (peek mem 4 (raw + 8)) (\<lambda>p0.
     bindc (peek mem 4 (raw + 12)) (\<lambda>p1.
     bindc (peek mem 4 (raw + 16)) (\<lambda>p2.
     bindc (peek mem 4 (raw + 20)) (\<lambda>p3.
     bindc (peek mem 4 (raw + 24)) (\<lambda>p4.
     bindc (peek mem 4 (raw + 28)) (\<lambda>p5.
     bindc (peek mem 1 (raw + 32)) (\<lambda>b :: u8.
     bindc (cstring mem (raw + 33)) (\<lambda>str.
     ret \<lparr>wfi_type = t, wfi_valid = - 1, prolog_size = p0, epilog_size = p1, wfi_parameter_size = p2,
          saved_register_size = p3, local_size = p4, max_stack_size = p5,
          allocates_base_pointer = (b \<noteq> 0), program_string = str\<rparr>)))))))))"

section \<open>Serializers of the maps\<close>

text \<open>The keys are numbers of \<open>kn\<close> bytes, the template parameter \<^verbatim>\<open>Key\<close>: addresses or, in the map of
  the files, integers.\<close>

definition StdMapSerializer_SizeOf :: "nat \<Rightarrow> ('v \<Rightarrow> nat) \<Rightarrow> ('k::len word, 'v) std_map \<Rightarrow> nat" where
  "StdMapSerializer_SizeOf kn vsize m =
     (1 + length m) * 4 + sum_list (map (\<lambda>(k, v). Simple_SizeOf kn k + vsize v) m)"

fun StdMap_loop :: "nat \<Rightarrow> 'v writer \<Rightarrow> nat \<Rightarrow> ptr \<Rightarrow> ptr \<Rightarrow> ptr \<Rightarrow> u8 list \<Rightarrow> ('k::len word, 'v) std_map \<Rightarrow> (ptr \<times> u8 list) comp" where
  "StdMap_loop kn vwrite start slot key_address dest mem [] = ret (dest, mem)"
| "StdMap_loop kn vwrite start slot key_address dest mem ((k, v) # m) =
     bindc (deref dest) (\<lambda>d.
     bindc (Simple_Write 4 (of_nat (d - start) :: u32) slot mem) (\<lambda>(slot, mem).
     bindc (Simple_Write kn k key_address mem) (\<lambda>(key_address, mem).
     bindc (vwrite v dest mem) (\<lambda>(dest, mem).
     StdMap_loop kn vwrite start slot key_address dest mem m))))"

definition StdMapSerializer_Write :: "nat \<Rightarrow> 'v writer \<Rightarrow> ('k::len word, 'v) std_map writer" where
  "StdMapSerializer_Write kn vwrite m dest mem =
     (case dest of
        None \<Rightarrow> ret (None, mem)
      | Some start_address \<Rightarrow>
          bindc (Simple_Write 4 (of_nat (length m) :: u32) dest mem) (\<lambda>(dest, mem).
          let offsets = dest; dest = advance (4 * length m) dest;
              key_address = dest; dest = advance (kn * length m) dest in
          StdMap_loop kn vwrite start_address offsets key_address dest mem m))"

text \<open>A new array of indeterminate bytes \<open>fill\<close>; its size is an \<^verbatim>\<open>unsigned int\<close>.\<close>

definition alloc :: "(nat \<Rightarrow> u8) \<Rightarrow> nat \<Rightarrow> u8 list" where
  "alloc fill n = map fill [0..<n]"

definition StdMapSerializer_Serialize ::
    "nat \<Rightarrow> ('v \<Rightarrow> nat) \<Rightarrow> 'v writer \<Rightarrow> (nat \<Rightarrow> u8) \<Rightarrow> ('k::len word, 'v) std_map \<Rightarrow> (u8 list \<times> nat) comp" where
  "StdMapSerializer_Serialize kn vsize vwrite fill m =
     (let size_to_alloc = StdMapSerializer_SizeOf kn vsize m mod 2 ^ 32 in
      bindc (StdMapSerializer_Write kn vwrite m (Some 0) (alloc fill size_to_alloc)) (\<lambda>(_, mem).
      ret (mem, size_to_alloc)))"

text \<open>The serializer of a \<^verbatim>\<open>RangeMap\<close> writes the base of a range and then its entry.\<close>

definition RangeMapSerializer_SizeOf :: "('e \<Rightarrow> nat) \<Rightarrow> (64, 'e) RangeMap \<Rightarrow> nat" where
  "RangeMapSerializer_SizeOf esize m =
     (1 + length m) * 4 +
     sum_list (map (\<lambda>(k, r). Simple_SizeOf 8 k + Simple_SizeOf 8 (range_base r) + esize (range_entry r)) m)"

fun RangeMap_loop :: "'e writer \<Rightarrow> nat \<Rightarrow> ptr \<Rightarrow> ptr \<Rightarrow> ptr \<Rightarrow> u8 list \<Rightarrow> (64, 'e) RangeMap \<Rightarrow> (ptr \<times> u8 list) comp" where
  "RangeMap_loop ewrite start slot key_address dest mem [] = ret (dest, mem)"
| "RangeMap_loop ewrite start slot key_address dest mem ((k, r) # m) =
     bindc (deref dest) (\<lambda>d.
     bindc (Simple_Write 4 (of_nat (d - start) :: u32) slot mem) (\<lambda>(slot, mem).
     bindc (Simple_Write 8 k key_address mem) (\<lambda>(key_address, mem).
     bindc (Simple_Write 8 (range_base r) dest mem) (\<lambda>(dest, mem).
     bindc (ewrite (range_entry r) dest mem) (\<lambda>(dest, mem).
     RangeMap_loop ewrite start slot key_address dest mem m)))))"

definition RangeMapSerializer_Write :: "'e writer \<Rightarrow> (64, 'e) RangeMap writer" where
  "RangeMapSerializer_Write ewrite m dest mem =
     (case dest of
        None \<Rightarrow> ret (None, mem)
      | Some start_address \<Rightarrow>
          bindc (Simple_Write 4 (of_nat (length m) :: u32) dest mem) (\<lambda>(dest, mem).
          let offsets = dest; dest = advance (4 * length m) dest;
              key_address = dest; dest = advance (8 * length m) dest in
          RangeMap_loop ewrite start_address offsets key_address dest mem m))"

definition RangeMapSerializer_Serialize ::
    "('e \<Rightarrow> nat) \<Rightarrow> 'e writer \<Rightarrow> (nat \<Rightarrow> u8) \<Rightarrow> (64, 'e) RangeMap \<Rightarrow> (u8 list \<times> nat) comp" where
  "RangeMapSerializer_Serialize esize ewrite fill m =
     (let size_to_alloc = RangeMapSerializer_SizeOf esize m mod 2 ^ 32 in
      bindc (RangeMapSerializer_Write ewrite m (Some 0) (alloc fill size_to_alloc)) (\<lambda>(_, mem).
      ret (mem, size_to_alloc)))"

section \<open>Functions\<close>

text \<open>A function of a module with the range map of its lines; in the block the lines are a
  \<^verbatim>\<open>StaticRangeMap\<close>.\<close>

record 'l Function =
  fn_name :: "u8 list"
  fn_address :: MemAddr
  fn_size :: MemAddr
  fn_parameter_size :: u32
  fn_lines :: 'l

definition Function_SizeOf :: "(64, Line option) RangeMap Function \<Rightarrow> nat" where
  "Function_SizeOf f =
     string_SizeOf (fn_name f) + Simple_SizeOf 8 (fn_address f) + Simple_SizeOf 8 (fn_size f)
     + Simple_SizeOf 4 (fn_parameter_size f) + RangeMapSerializer_SizeOf (linked_SizeOf Line_SizeOf) (fn_lines f)"

definition Function_Write :: "(64, Line option) RangeMap Function writer" where
  "Function_Write f dest mem =
     bindc (string_Write (fn_name f) dest mem) (\<lambda>(dest, mem).
     bindc (Simple_Write 8 (fn_address f) dest mem) (\<lambda>(dest, mem).
     bindc (Simple_Write 8 (fn_size f) dest mem) (\<lambda>(dest, mem).
     bindc (Simple_Write 4 (fn_parameter_size f) dest mem) (\<lambda>(dest, mem).
     RangeMapSerializer_Write (linked_Write Line_Write) (fn_lines f) dest mem))))"

definition Function_CopyFrom :: "u8 list \<Rightarrow> nat \<Rightarrow> StaticMap Function comp" where
  "Function_CopyFrom mem raw =
     bindc (cstring mem raw) (\<lambda>name.
     let name_size = length name + 1 in
     bindc (peek mem 8 (raw + name_size)) (\<lambda>a.
     bindc (peek mem 8 (raw + name_size + 8)) (\<lambda>s.
     bindc (peek mem 4 (raw + name_size + 16)) (\<lambda>n.
     bindc (StaticMap_new mem (raw + name_size + 20)) (\<lambda>lines.
     ret \<lparr>fn_name = name, fn_address = a, fn_size = s, fn_parameter_size = n, fn_lines = lines\<rparr>)))))"

section \<open>What a writer leaves behind\<close>

text \<open>A writer puts its bytes in place of as many bytes and returns the position behind them.\<close>

definition writes :: "(ptr \<Rightarrow> u8 list \<Rightarrow> (ptr \<times> u8 list) comp) \<Rightarrow> u8 list \<Rightarrow> bool" where
  "writes w bs \<longleftrightarrow> (\<forall>A X R. length X = length bs \<longrightarrow>
     w (Some (length A)) (A @ X @ R) = ret (Some (length A + length bs), A @ bs @ R))"

lemma writesD:
  "writes w bs \<Longrightarrow> length X = length bs \<Longrightarrow>
     w (Some (length A)) (A @ X @ R) = ret (Some (length A + length bs), A @ bs @ R)"
  by (simp add: writes_def)

lemma writes_seq:
  assumes "writes w bs" "writes w' bs'"
  shows "writes (\<lambda>dest mem. bindc (w dest mem) (\<lambda>(dest, mem). w' dest mem)) (bs @ bs')"
  unfolding writes_def
proof (intro allI impI)
  fix A X R :: "u8 list"
  assume len: "length X = length (bs @ bs')"
  let ?X = "take (length bs) X" and ?X' = "drop (length bs) X"
  have "w (Some (length A)) (A @ ?X @ ?X' @ R) = ret (Some (length A + length bs), A @ bs @ ?X' @ R)"
    using writesD [OF assms(1), of ?X A "?X' @ R"] len by simp
  moreover have "A @ ?X @ ?X' @ R = A @ X @ R" by (metis append.assoc append_take_drop_id)
  ultimately have "w (Some (length A)) (A @ X @ R) = ret (Some (length A + length bs), A @ bs @ ?X' @ R)"
    by (simp only:)
  moreover have "w' (Some (length A + length bs)) (A @ bs @ ?X' @ R) =
      ret (Some (length A + length (bs @ bs')), A @ (bs @ bs') @ R)"
    using writesD [OF assms(2), of ?X' "A @ bs" R] len by simp
  ultimately show "bindc (w (Some (length A)) (A @ X @ R)) (\<lambda>(dest, mem). w' dest mem) =
      ret (Some (length A + length (bs @ bs')), A @ (bs @ bs') @ R)" by simp
qed

lemma writes_empty: "writes (\<lambda>dest mem. ret (dest, mem)) []"
  by (simp add: writes_def)

lemma poke_append:
  "length X = length bs \<Longrightarrow> poke bs (Some (length A)) (A @ X @ R) = ret (A @ bs @ R)"
  by (simp add: poke_def patch_def)

lemma writes_Simple: "writes (Simple_Write n v) (le_bytes n (unat v))"
  by (simp add: writes_def Simple_Write_def poke_append advance_def)

lemma writes_string: "0 \<notin> set str \<Longrightarrow> writes (string_Write str) (str @ [0])"
proof -
  assume "0 \<notin> set str"
  then have tw: "takeWhile (\<lambda>c. c \<noteq> 0) str = str" by (subst takeWhile_eq_all_conv) auto
  show ?thesis
    unfolding writes_def string_Write_def tw
    by (simp add: poke_append advance_def string_SizeOf_def)
qed

lemma writes_bool: "writes (bool_Write b) [if b then 255 else 0]"
  unfolding writes_def bool_Write_def by (simp add: poke_append advance_def)

text \<open>The contract of a serializer, for the entries it is used on: the size it announces is the size of
  what it writes.\<close>

locale serializer =
  fixes szof :: "'e \<Rightarrow> nat"
    and wr :: "'e writer"
    and bytes :: "'e \<Rightarrow> u8 list"
    and good :: "'e \<Rightarrow> bool"
  assumes size_bytes: "good e \<Longrightarrow> length (bytes e) = szof e"
    and write_bytes: "good e \<Longrightarrow> writes (wr e) (bytes e)"

section \<open>The layout of a map\<close>

text \<open>The offsets of the values, from the first one on, and the bytes of the whole map.\<close>

fun value_offsets :: "('v \<Rightarrow> nat) \<Rightarrow> nat \<Rightarrow> ('k::len word, 'v) std_map \<Rightarrow> nat list" where
  "value_offsets vsize d [] = []"
| "value_offsets vsize d ((k, v) # m) = d # value_offsets vsize (d + vsize v) m"

definition offset_bytes :: "('v \<Rightarrow> nat) \<Rightarrow> nat \<Rightarrow> ('k::len word, 'v) std_map \<Rightarrow> u8 list" where
  "offset_bytes vsize d m = concat (map (\<lambda>d. le_bytes 4 (unat (of_nat d :: u32))) (value_offsets vsize d m))"

definition key_bytes :: "nat \<Rightarrow> ('k::len word, 'v) std_map \<Rightarrow> u8 list" where
  "key_bytes kn m = concat (map (\<lambda>e. le_bytes kn (unat (fst e))) m)"

definition value_bytes :: "('v \<Rightarrow> u8 list) \<Rightarrow> ('k::len word, 'v) std_map \<Rightarrow> u8 list" where
  "value_bytes bytes m = concat (map (\<lambda>e. bytes (snd e)) m)"

definition map_bytes :: "nat \<Rightarrow> ('v \<Rightarrow> nat) \<Rightarrow> ('v \<Rightarrow> u8 list) \<Rightarrow> ('k::len word, 'v) std_map \<Rightarrow> u8 list" where
  "map_bytes kn vsize bytes m =
     le_bytes 4 (unat (of_nat (length m) :: u32)) @ offset_bytes vsize (4 + 4 * length m + kn * length m) m @ key_bytes kn m @
     value_bytes bytes m"

definition good_map :: "('v \<Rightarrow> bool) \<Rightarrow> ('k::len word, 'v) std_map \<Rightarrow> bool" where
  "good_map good m \<longleftrightarrow> (\<forall>e \<in> set m. good (snd e))"

lemma layout_Nil [simp]:
  "offset_bytes vsize d [] = []" "key_bytes kn [] = []" "value_bytes bytes [] = []"
  by (simp_all add: offset_bytes_def key_bytes_def value_bytes_def)

lemma layout_Cons [simp]:
  "offset_bytes vsize d ((k, v) # m) = le_bytes 4 (unat (of_nat d :: u32)) @ offset_bytes vsize (d + vsize v) m"
  "key_bytes kn (e # m) = le_bytes kn (unat (fst e)) @ key_bytes kn m"
  "value_bytes bytes (e # m) = bytes (snd e) @ value_bytes bytes m"
  by (simp_all add: offset_bytes_def key_bytes_def value_bytes_def)

lemma value_bytes_append [simp]: "value_bytes bytes (m @ m') = value_bytes bytes m @ value_bytes bytes m'"
  by (simp add: value_bytes_def)

lemma length_value_offsets [simp]: "length (value_offsets vsize d m) = length m"
  by (induction vsize d m rule: value_offsets.induct) auto

lemma length_offset_bytes [simp]: "length (offset_bytes vsize d m) = 4 * length m"
  by (induction vsize d m rule: value_offsets.induct) auto

lemma length_key_bytes [simp]: "length (key_bytes kn m) = kn * length m"
  by (induction m) auto

lemma sum_entries: "sum_list (map (\<lambda>(k, v). c + f v) m) = c * length m + sum_list (map (\<lambda>e. f (snd e)) m)" for c :: nat
  by (induction m) auto

context serializer
begin

lemma length_value_bytes: "good_map good m \<Longrightarrow> length (value_bytes bytes m) = sum_list (map (\<lambda>e. szof (snd e)) m)"
  by (induction m) (auto simp: good_map_def size_bytes)

lemma StdMap_loop_writes:
  assumes "good_map good m" "length Os = 4 * length m" "length Ks = kn * length m"
    and "length Vs = length (value_bytes bytes m)" "start \<le> length (A @ Os @ B @ Ks @ C)"
  shows "StdMap_loop kn wr start (Some (length A)) (Some (length (A @ Os @ B))) (Some (length (A @ Os @ B @ Ks @ C)))
           (A @ Os @ B @ Ks @ C @ Vs @ R) m =
         ret (Some (length (A @ Os @ B @ Ks @ C @ Vs)),
           A @ offset_bytes szof (length (A @ Os @ B @ Ks @ C) - start) m @ B @ key_bytes kn m @ C @ value_bytes bytes m @ R)"
  using assms
proof (induction m arbitrary: A B C Os Ks Vs)
  case Nil
  then show ?case by simp
next
  case (Cons e m)
  obtain k v where e: "e = (k, v)" by (cases e)
  let ?d = "length (A @ Os @ B @ Ks @ C)"
  define O1 O2 where "O1 = take 4 Os" and "O2 = drop 4 Os"
  define K1 K2 where "K1 = take kn Ks" and "K2 = drop kn Ks"
  define V1 V2 where "V1 = take (szof v) Vs" and "V2 = drop (szof v) Vs"
  define ofs where "ofs = le_bytes 4 (unat (of_nat (?d - start) :: u32))"
  define key where "key = le_bytes kn (unat k)"
  have good: "good v" "good_map good m" using Cons.prems(1) by (auto simp: good_map_def e)
  have split: "Os = O1 @ O2" "Ks = K1 @ K2" "Vs = V1 @ V2" by (simp_all add: O1_def O2_def K1_def K2_def V1_def V2_def)
  have len: "length O1 = length ofs" "length K1 = length key" "length V1 = length (bytes v)"
    "length O2 = 4 * length m" "length K2 = kn * length m" "length V2 = length (value_bytes bytes m)"
    "length ofs = 4" "length key = kn"
    using Cons.prems size_bytes [OF good(1)]
    by (simp_all add: O1_def O2_def K1_def K2_def V1_def V2_def ofs_def key_def e)
  have w1: "Simple_Write 4 (of_nat (?d - start) :: u32) (Some (length A)) (A @ Os @ B @ Ks @ C @ Vs @ R) =
      ret (Some (length A + 4), A @ ofs @ O2 @ B @ Ks @ C @ Vs @ R)"
    using writesD [OF writes_Simple [of 4 "of_nat (?d - start) :: u32", folded ofs_def] len(1), of A "O2 @ B @ Ks @ C @ Vs @ R"]
      len(7) by (simp add: split(1))
  have w2: "Simple_Write kn k (Some (length (A @ Os @ B))) (A @ ofs @ O2 @ B @ Ks @ C @ Vs @ R) =
      ret (Some (length (A @ Os @ B) + kn), A @ ofs @ O2 @ B @ key @ K2 @ C @ Vs @ R)"
    using writesD [OF writes_Simple [of kn k, folded key_def] len(2), of "A @ ofs @ O2 @ B" "K2 @ C @ Vs @ R"]
      len(1,7,8) by (simp add: split add.assoc)
  have w3: "wr v (Some ?d) (A @ ofs @ O2 @ B @ key @ K2 @ C @ Vs @ R) =
      ret (Some (?d + szof v), A @ ofs @ O2 @ B @ key @ K2 @ C @ bytes v @ V2 @ R)"
    using writesD [OF write_bytes [OF good(1)] len(3), of "A @ ofs @ O2 @ B @ key @ K2 @ C" "V2 @ R"]
      len(1,2) size_bytes [OF good(1)] by (simp add: split add.assoc)
  have ih: "StdMap_loop kn wr start (Some (length (A @ ofs))) (Some (length ((A @ ofs) @ O2 @ (B @ key))))
      (Some (length ((A @ ofs) @ O2 @ (B @ key) @ K2 @ (C @ bytes v))))
      ((A @ ofs) @ O2 @ (B @ key) @ K2 @ (C @ bytes v) @ V2 @ R) m =
    ret (Some (length ((A @ ofs) @ O2 @ (B @ key) @ K2 @ (C @ bytes v) @ V2)),
      (A @ ofs) @ offset_bytes szof (length ((A @ ofs) @ O2 @ (B @ key) @ K2 @ (C @ bytes v)) - start) m @
      (B @ key) @ key_bytes kn m @ (C @ bytes v) @ value_bytes bytes m @ R)"
    using Cons.prems(5) len by (intro Cons.IH [OF good(2) len(4-6)]) (simp add: split)
  have pos: "length A + 4 = length (A @ ofs)" "length (A @ Os @ B) + kn = length ((A @ ofs) @ O2 @ (B @ key))"
    "?d + szof v = length ((A @ ofs) @ O2 @ (B @ key) @ K2 @ (C @ bytes v))"
    using len size_bytes [OF good(1)] by (simp_all add: split)
  have d': "length ((A @ ofs) @ O2 @ (B @ key) @ K2 @ (C @ bytes v)) - start = (?d - start) + szof v"
    using Cons.prems(5) unfolding pos(3) [symmetric] by simp
  have total: "length ((A @ ofs) @ O2 @ (B @ key) @ K2 @ (C @ bytes v) @ V2) = length (A @ Os @ B @ Ks @ C @ Vs)"
    using len by (simp add: split)
  have "StdMap_loop kn wr start (Some (length A)) (Some (length (A @ Os @ B))) (Some ?d) (A @ Os @ B @ Ks @ C @ Vs @ R) (e # m) =
      StdMap_loop kn wr start (Some (length (A @ ofs))) (Some (length ((A @ ofs) @ O2 @ (B @ key))))
        (Some (length ((A @ ofs) @ O2 @ (B @ key) @ K2 @ (C @ bytes v))))
        ((A @ ofs) @ O2 @ (B @ key) @ K2 @ (C @ bytes v) @ V2 @ R) m"
    by (simp only: e StdMap_loop.simps deref_simps bindc_ret w1 w2 w3 prod.case pos append.assoc)
  also note ih [unfolded d' total]
  finally show ?case
    by (simp only: e layout_Cons fst_conv snd_conv append.assoc flip: ofs_def key_def)
qed

lemma StdMapSerializer_writes:
  assumes "good_map good m"
  shows "writes (StdMapSerializer_Write kn wr m) (map_bytes kn szof bytes m)"
  unfolding writes_def
proof (intro allI impI)
  fix A X R :: "u8 list"
  let ?n = "length m"
  let ?cnt = "le_bytes 4 (unat (of_nat ?n :: u32))"
  assume len: "length X = length (map_bytes kn szof bytes m)"
  define X1 Os Ks Vs where "X1 = take 4 X" and "Os = take (4 * ?n) (drop 4 X)"
    and "Ks = take (kn * ?n) (drop (4 + 4 * ?n) X)" and "Vs = drop (4 + 4 * ?n + kn * ?n) X"
  have rest: "Ks @ Vs = drop (4 + 4 * ?n) X"
  proof -
    have "Vs = drop (kn * ?n) (drop (4 + 4 * ?n) X)" by (simp add: Vs_def add.commute)
    then show ?thesis by (simp only: Ks_def append_take_drop_id)
  qed
  have X: "X = X1 @ Os @ Ks @ Vs"
    unfolding rest unfolding X1_def Os_def by (metis append_take_drop_id drop_drop add.commute)
  have lens: "length X1 = 4" "length Os = 4 * ?n" "length Ks = kn * ?n" "length Vs = length (value_bytes bytes m)"
    using len by (simp_all add: X1_def Os_def Ks_def Vs_def map_bytes_def)
  have cnt: "Simple_Write 4 (of_nat ?n :: u32) (Some (length A)) (A @ X @ R) =
      ret (Some (length A + 4), A @ ?cnt @ Os @ Ks @ Vs @ R)"
    using writesD [OF writes_Simple [of 4 "of_nat ?n :: u32"], of X1 A "Os @ Ks @ Vs @ R"] lens(1) by (simp add: X)
  have loop: "StdMap_loop kn wr (length A) (Some (length (A @ ?cnt))) (Some (length ((A @ ?cnt) @ Os @ [])))
      (Some (length ((A @ ?cnt) @ Os @ [] @ Ks @ []))) ((A @ ?cnt) @ Os @ [] @ Ks @ [] @ Vs @ R) m =
    ret (Some (length ((A @ ?cnt) @ Os @ [] @ Ks @ [] @ Vs)),
      (A @ ?cnt) @ offset_bytes szof (length ((A @ ?cnt) @ Os @ [] @ Ks @ []) - length A) m @ [] @ key_bytes kn m @ [] @
        value_bytes bytes m @ R)"
    using assms lens by (intro StdMap_loop_writes) auto
  have d: "length ((A @ ?cnt) @ Os @ [] @ Ks @ []) - length A = 4 + 4 * ?n + kn * ?n" using lens by simp
  have pos: "length (A @ ?cnt) = length A + 4" "length ((A @ ?cnt) @ Os @ []) = length A + 4 + 4 * ?n"
    "length ((A @ ?cnt) @ Os @ [] @ Ks @ []) = length A + 4 + 4 * ?n + kn * ?n"
    "length ((A @ ?cnt) @ Os @ [] @ Ks @ [] @ Vs) = length A + length (map_bytes kn szof bytes m)"
    using lens by (simp_all add: map_bytes_def)
  note loop' = loop [unfolded d, unfolded pos, unfolded append.assoc append_Nil]
  show "StdMapSerializer_Write kn wr m (Some (length A)) (A @ X @ R) =
      ret (Some (length A + length (map_bytes kn szof bytes m)), A @ map_bytes kn szof bytes m @ R)"
    unfolding StdMapSerializer_Write_def option.case cnt bindc_ret prod.case Let_def advance_def option.map loop'
    by (simp add: map_bytes_def)
qed

lemma length_map_bytes: "good_map good m \<Longrightarrow> length (map_bytes kn szof bytes m) = StdMapSerializer_SizeOf kn szof m"
  by (simp add: map_bytes_def length_value_bytes StdMapSerializer_SizeOf_def Simple_SizeOf_def sum_entries)

lemma std_map: "serializer (StdMapSerializer_SizeOf kn szof) (StdMapSerializer_Write kn wr) (map_bytes kn szof bytes) (good_map good)"
  using length_map_bytes StdMapSerializer_writes by unfold_locales

lemma linked: "serializer (linked_SizeOf szof) (linked_Write wr) (case_option [] bytes) (case_option True good)"
proof (unfold_locales, goal_cases)
  case (1 e)
  then show ?case by (cases e) (auto simp: linked_SizeOf_def size_bytes)
next
  case (2 e)
  then show ?case
    using writes_empty write_bytes by (cases e) (auto simp: linked_Write_def [abs_def] writes_def)
qed

end

section \<open>Reading a written map\<close>

lemma take_chunk:
  assumes "\<And>x. x \<in> set xs \<Longrightarrow> length (f x) = n" "i < length xs"
  shows "take n (drop (n * i) (concat (map f xs) @ R)) = f (xs ! i)"
  using assms
proof (induction xs arbitrary: i)
  case (Cons x xs)
  then show ?case by (cases i) auto
qed simp

lemma nth_value_offsets:
  "i < length m \<Longrightarrow> value_offsets vsize d m ! i = d + sum_list (map (\<lambda>e. vsize (snd e)) (take i m))"
proof (induction vsize d m arbitrary: i rule: value_offsets.induct)
  case (2 vsize d k v m)
  then show ?case by (cases i) auto
qed simp

context serializer
begin

lemma take_value:
  assumes "good_map good m" "i < length m"
  shows "sum_list (map (\<lambda>e. szof (snd e)) (take i m)) + szof (snd (m ! i)) \<le> length (value_bytes bytes m)"
    and "take (szof (snd (m ! i))) (drop (sum_list (map (\<lambda>e. szof (snd e)) (take i m))) (value_bytes bytes m @ R)) =
           bytes (snd (m ! i))"
proof -
  let ?k = "sum_list (map (\<lambda>e. szof (snd e)) (take i m))"
  have good: "good_map good (take i m)" "good (snd (m ! i))"
    using assms by (auto simp: good_map_def dest: in_set_takeD)
  have split: "value_bytes bytes m = value_bytes bytes (take i m) @ bytes (snd (m ! i)) @ value_bytes bytes (drop (Suc i) m)"
    by (subst id_take_nth_drop [OF assms(2)]) simp
  have len: "length (value_bytes bytes (take i m)) = ?k" by (rule length_value_bytes [OF good(1)])
  show "?k + szof (snd (m ! i)) \<le> length (value_bytes bytes m)"
    using len size_bytes [OF good(2)] by (simp add: split)
  show "take (szof (snd (m ! i))) (drop ?k (value_bytes bytes m @ R)) = bytes (snd (m ! i))"
    using len size_bytes [OF good(2)] by (simp add: split)
qed

lemma written_raw:
  fixes pre post :: "u8 list" and kn :: nat and m :: "('k::len word, 'e) std_map"
  assumes good: "good_map good m"
  defines "mem \<equiv> pre @ map_bytes kn szof bytes m @ post" and "start \<equiv> 4 + 4 * length m + kn * length m"
    and "ahead \<equiv> \<lambda>i. sum_list (map (\<lambda>e. szof (snd e)) (take i m))"
  shows "take 4 (drop (length pre) mem) = le_bytes 4 (unat (of_nat (length m) :: u32))"
    and "length pre + start \<le> length mem"
    and "\<And>i. i < length m \<Longrightarrow>
      take 4 (drop (length pre + 4 + 4 * i) mem) = le_bytes 4 (unat (of_nat (start + ahead i) :: u32))"
    and "\<And>i. i < length m \<Longrightarrow> take kn (drop (length pre + 4 + 4 * length m + kn * i) mem) = le_bytes kn (unat (fst (m ! i)))"
    and "\<And>i. i < length m \<Longrightarrow> length pre + (start + ahead i) + szof (snd (m ! i)) \<le> length mem \<and>
      take (szof (snd (m ! i))) (drop (length pre + (start + ahead i)) mem) = bytes (snd (m ! i))"
    and "\<And>i. i < length m \<Longrightarrow> start + ahead i \<le> StdMapSerializer_SizeOf kn szof m"
proof -
  let ?n = "length m" and ?cnt = "le_bytes 4 (unat (of_nat (length m) :: u32))"
  have mem: "mem = pre @ ?cnt @ offset_bytes szof start m @ key_bytes kn m @ value_bytes bytes m @ post"
    by (simp add: mem_def map_bytes_def start_def)
  show "take 4 (drop (length pre) mem) = ?cnt" "length pre + start \<le> length mem" by (simp_all add: mem start_def)
  fix i assume i: "i < ?n"
  have "take 4 (drop (4 * i) (offset_bytes szof start m @ key_bytes kn m @ value_bytes bytes m @ post)) =
      le_bytes 4 (unat (of_nat (start + ahead i) :: u32))"
    unfolding offset_bytes_def using i by (subst take_chunk) (auto simp: nth_value_offsets ahead_def)
  then show "take 4 (drop (length pre + 4 + 4 * i) mem) = le_bytes 4 (unat (of_nat (start + ahead i) :: u32))"
    by (simp add: mem)
  have "take kn (drop (kn * i) (key_bytes kn m @ value_bytes bytes m @ post)) = le_bytes kn (unat (fst (m ! i)))"
    unfolding key_bytes_def using i by (subst take_chunk) auto
  then show "take kn (drop (length pre + 4 + 4 * ?n + kn * i) mem) = le_bytes kn (unat (fst (m ! i)))"
    by (simp add: mem)
  have "drop (length pre + (start + ahead i)) mem = drop (ahead i) (value_bytes bytes m @ post)"
    by (simp add: mem start_def)
  then show "length pre + (start + ahead i) + szof (snd (m ! i)) \<le> length mem \<and>
      take (szof (snd (m ! i))) (drop (length pre + (start + ahead i)) mem) = bytes (snd (m ! i))"
    using take_value(1) [OF good i] take_value(2) [OF good i, of post] by (simp add: mem start_def ahead_def)
  show "start + ahead i \<le> StdMapSerializer_SizeOf kn szof m"
    using take_value(1) [OF good i] unfolding length_map_bytes [OF good, symmetric]
    by (simp add: map_bytes_def start_def ahead_def)
qed

lemma written_block:
  fixes pre post :: "u8 list" and m :: "(MemAddr, 'e) std_map"
  assumes good: "good_map good m" and small: "StdMapSerializer_SizeOf 8 szof m < 2 ^ 32"
  defines "mem \<equiv> pre @ map_bytes 8 szof bytes m @ post" and "x \<equiv> (pre @ map_bytes 8 szof bytes m @ post, length pre)"
  shows "static_count x = length m" "static_held x"
    and "\<And>i. i < length m \<Longrightarrow> static_key x i = fst (m ! i)"
    and "\<And>i. i < length m \<Longrightarrow> static_value x i + szof (snd (m ! i)) \<le> length mem \<and>
           take (szof (snd (m ! i))) (drop (static_value x i) mem) = bytes (snd (m ! i))"
proof -
  let ?n = "length m"
  note raw = written_raw(1-5) [OF good, where kn = 8 and pre = pre and post = post, folded mem_def]
  note within = written_raw(6) [OF good, where kn = 8]
  have xs: "fst x = mem" "snd x = length pre" by (simp_all add: x_def mem_def)
  have le: "le_word (le_bytes 4 (unat w)) = w" for w :: u32 by (rule le_word_bytes) simp
  have le8: "le_word (le_bytes 8 (unat w)) = w" for w :: u64 by (rule le_word_bytes) simp
  have un: "unat (of_nat k :: u32) = k" if "k < 2 ^ 32" for k using that by (simp add: unat_of_nat)
  have n: "?n < 2 ^ 31" using small by (simp add: StdMapSerializer_SizeOf_def Simple_SizeOf_def sum_entries)
  show count: "static_count x = ?n"
    unfolding static_count_def xs raw(1) le using n by (intro un) simp
  show "static_held x" unfolding static_held_def count xs using n raw(2) by simp
  fix i assume i: "i < ?n"
  show "static_key x i = fst (m ! i)" unfolding static_key_def count xs raw(4) [OF i] le8 ..
  have "unat (static_offset x i) = 4 + 4 * ?n + 8 * ?n + sum_list (map (\<lambda>e. szof (snd e)) (take i m))"
    unfolding static_offset_def xs raw(3) [OF i] le using within [OF i] small by (intro un) simp
  then have "static_value x i = length pre + (4 + 4 * ?n + 8 * ?n + sum_list (map (\<lambda>e. szof (snd e)) (take i m)))"
    by (simp add: static_value_def xs)
  then show "static_value x i + szof (snd (m ! i)) \<le> length mem \<and>
      take (szof (snd (m ! i))) (drop (static_value x i) mem) = bytes (snd (m ! i))"
    using raw(5) [OF i] by (simp only:)
qed

lemma written_ok:
  fixes pre post :: "u8 list" and m :: "(MemAddr, 'e) std_map"
  assumes "good_map good m" "StdMapSerializer_SizeOf 8 szof m < 2 ^ 32" "map_ok m"
  shows "static_ok (pre @ map_bytes 8 szof bytes m @ post, length pre)"
proof -
  note block = written_block [OF assms(1,2), where pre = pre and post = post]
  have "fst (m ! i) < fst (m ! Suc i)" if "Suc i < length m" for i
    using std.increasing [OF assms(3), of i "Suc i"] that by (simp add: key_of_def)
  then show ?thesis using block by (simp add: static_ok_def)
qed

lemma Serialize_writes:
  assumes "good_map good m" "StdMapSerializer_SizeOf kn szof m < 2 ^ 32"
  shows "StdMapSerializer_Serialize kn szof wr fill m = ret (map_bytes kn szof bytes m, StdMapSerializer_SizeOf kn szof m)"
proof -
  have len: "length (alloc fill (StdMapSerializer_SizeOf kn szof m)) = length (map_bytes kn szof bytes m)"
    by (simp add: alloc_def length_map_bytes [OF assms(1)])
  show ?thesis
    using assms(2) writesD [OF StdMapSerializer_writes [OF assms(1)] len, of "[]" "[]"]
    by (simp add: StdMapSerializer_Serialize_def Let_def)
qed

end

section \<open>Range maps as maps of ranges\<close>

definition Range_SizeOf :: "('e \<Rightarrow> nat) \<Rightarrow> (MemAddr, 'e) Range \<Rightarrow> nat" where
  "Range_SizeOf esize r = 8 + esize (range_entry r)"

definition Range_Write :: "'e writer \<Rightarrow> (MemAddr, 'e) Range writer" where
  "Range_Write ewrite r dest mem =
     bindc (Simple_Write 8 (range_base r) dest mem) (\<lambda>(dest, mem). ewrite (range_entry r) dest mem)"

lemma RangeMap_loop_std: "RangeMap_loop ewrite start slot key dest mem m = StdMap_loop 8 (Range_Write ewrite) start slot key dest mem m"
  by (induction ewrite start slot key dest mem m rule: RangeMap_loop.induct)
    (auto simp: Range_Write_def bindc_assoc split_beta intro!: bindc_cong)

lemma RangeMapSerializer_std:
  "RangeMapSerializer_SizeOf esize m = StdMapSerializer_SizeOf 8 (Range_SizeOf esize) m"
  "RangeMapSerializer_Write ewrite m = StdMapSerializer_Write 8 (Range_Write ewrite) m"
  "RangeMapSerializer_Serialize esize ewrite fill m = StdMapSerializer_Serialize 8 (Range_SizeOf esize) (Range_Write ewrite) fill m"
proof -
  show size: "RangeMapSerializer_SizeOf esize m = StdMapSerializer_SizeOf 8 (Range_SizeOf esize) m"
    by (simp add: RangeMapSerializer_SizeOf_def StdMapSerializer_SizeOf_def Range_SizeOf_def Simple_SizeOf_def add.assoc)
  show wrt: "RangeMapSerializer_Write ewrite m = StdMapSerializer_Write 8 (Range_Write ewrite) m"
    by (intro ext, unfold RangeMapSerializer_Write_def StdMapSerializer_Write_def RangeMap_loop_std, rule refl)
  show "RangeMapSerializer_Serialize esize ewrite fill m = StdMapSerializer_Serialize 8 (Range_SizeOf esize) (Range_Write ewrite) fill m"
    by (simp add: RangeMapSerializer_Serialize_def StdMapSerializer_Serialize_def size wrt)
qed

definition range_bytes :: "('e \<Rightarrow> u8 list) \<Rightarrow> (MemAddr, 'e) Range \<Rightarrow> u8 list" where
  "range_bytes bytes r = le_bytes 8 (unat (range_base r)) @ bytes (range_entry r)"

text \<open>A range map with other entries: retrieval finds the entry of the same position.\<close>

definition relabel :: "(nat \<Rightarrow> 'f) \<Rightarrow> (64, 'e) RangeMap \<Rightarrow> (64, 'f) RangeMap" where
  "relabel f m = map (\<lambda>i. (fst (m ! i), \<lparr>range_base = range_base (snd (m ! i)), range_entry = f i\<rparr>)) [0..<length m]"

lemma relabel_nth:
  "length (relabel f m) = length m"
  "i < length m \<Longrightarrow> relabel f m ! i = (fst (m ! i), \<lparr>range_base = range_base (snd (m ! i)), range_entry = f i\<rparr>)"
  by (simp_all add: relabel_def)

lemma lower_bound_keys: "lower_bound a m = length (takeWhile (\<lambda>k. k < a) (map fst m))"
  by (simp add: lower_bound_def takeWhile_map o_def)

lemma upper_bound_keys: "upper_bound a m = length (takeWhile (\<lambda>k. k \<le> a) (map fst m))"
  by (simp add: upper_bound_def takeWhile_map o_def)

lemma RetrieveRange_relabel:
  "RangeMap_RetrieveRange a (relabel f m) =
     map_option (\<lambda>(_, b, s). (f (lower_bound a m), b, s)) (RangeMap_RetrieveRange a m)"
proof -
  have "map fst (relabel f m) = map fst m"
    by (rule nth_equalityI) (simp_all add: relabel_def)
  then have low: "lower_bound a (relabel f m) = lower_bound a m" by (simp add: lower_bound_keys)
  show ?thesis
    using lower_bound_le [of a m]
    by (cases "lower_bound a m = length m")
      (auto simp: RangeMap_RetrieveRange_def low Let_def relabel_nth range_out_def)
qed

lemma RetrieveRange_entry:
  assumes "RangeMap_RetrieveRange a m = Some (e, b, s)"
  shows "lower_bound a m < length m" "e = range_entry (snd (m ! lower_bound a m))"
  using assms lower_bound_le [of a m] by (auto simp: RangeMap_RetrieveRange_def Let_def range_out_def split: if_splits)

context serializer
begin

lemma ranged: "serializer (Range_SizeOf szof) (Range_Write wr) (range_bytes bytes) (\<lambda>r. good (range_entry r))"
proof (unfold_locales, goal_cases)
  case (1 e)
  then show ?case by (simp add: Range_SizeOf_def range_bytes_def size_bytes)
next
  case (2 e)
  then show ?case
    using writes_seq [OF writes_Simple [of 8 "range_base e"] write_bytes]
    by (simp add: Range_Write_def [abs_def] range_bytes_def)
qed

lemma written_ranges:
  fixes pre post :: "u8 list"
  assumes good: "\<forall>r \<in> set m. good (range_entry (snd r))" and small: "RangeMapSerializer_SizeOf szof m < 2 ^ 32"
    and mok: "map_ok m"
  defines "mem \<equiv> pre @ map_bytes 8 (Range_SizeOf szof) (range_bytes bytes) m @ post"
    and "x \<equiv> (pre @ map_bytes 8 (Range_SizeOf szof) (range_bytes bytes) m @ post, length pre)"
  shows "static_ok x" "bases_held x"
    and "block_ranges x = relabel (\<lambda>i. static_value x i + 8) m"
    and "\<And>i. i < length m \<Longrightarrow> static_value x i + 8 + szof (range_entry (snd (m ! i))) \<le> length mem \<and>
           take (szof (range_entry (snd (m ! i)))) (drop (static_value x i + 8) mem) = bytes (range_entry (snd (m ! i)))"
proof -
  have gm: "good_map (\<lambda>r. good (range_entry r)) m" using good by (auto simp: good_map_def)
  note small' = small [unfolded RangeMapSerializer_std(1)]
  note block = serializer.written_block [OF ranged gm small', where pre = pre and post = post, folded x_def mem_def]
  show "static_ok x" unfolding x_def by (rule serializer.written_ok [OF ranged gm small' mok])
  have val: "take (Range_SizeOf szof (snd (m ! i))) (drop (static_value x i) mem) = range_bytes bytes (snd (m ! i))"
    "static_value x i + Range_SizeOf szof (snd (m ! i)) \<le> length mem" if "i < length m" for i
    using block(4) [OF that] by auto
  have base: "take 8 (drop (static_value x i) mem) = le_bytes 8 (unat (range_base (snd (m ! i))))" if "i < length m" for i
  proof -
    have "take 8 (drop (static_value x i) mem) = take 8 (take (Range_SizeOf szof (snd (m ! i))) (drop (static_value x i) mem))"
      by (simp add: Range_SizeOf_def min_def)
    then show ?thesis by (simp add: val(1) [OF that] range_bytes_def)
  qed
  have fstx: "fst x = mem" by (simp add: x_def mem_def)
  show "bases_held x"
    using val(2) unfolding bases_held_def block(1) fstx by (fastforce simp: Range_SizeOf_def)
  have le8: "le_word (le_bytes 8 (unat w)) = w" for w :: u64 by (rule le_word_bytes) simp
  show "block_ranges x = relabel (\<lambda>i. static_value x i + 8) m"
    unfolding block_ranges_def relabel_def block(1)
    by (rule map_cong) (auto simp: block(3) static_base_def fstx base le8)
  show "static_value x i + 8 + szof (range_entry (snd (m ! i))) \<le> length mem \<and>
      take (szof (range_entry (snd (m ! i)))) (drop (static_value x i + 8) mem) = bytes (range_entry (snd (m ! i)))"
    if i: "i < length m" for i
  proof -
    have "take (szof (range_entry (snd (m ! i)))) (drop (static_value x i + 8) mem) =
        drop 8 (take (Range_SizeOf szof (snd (m ! i))) (drop (static_value x i) mem))"
      by (simp add: Range_SizeOf_def drop_take add.commute)
    then show ?thesis using val [OF i] by (simp add: range_bytes_def Range_SizeOf_def)
  qed
qed

end

section \<open>The serializers of the entries keep the contract\<close>

definition line_bytes :: "Line \<Rightarrow> u8 list" where
  "line_bytes l = le_bytes 8 (unat (line_address l)) @ le_bytes 8 (unat (line_size l)) @
     le_bytes 4 (unat (source_file_id l)) @ le_bytes 4 (unat (line_number l))"

definition symbol_bytes :: "PublicSymbol \<Rightarrow> u8 list" where
  "symbol_bytes p = (ps_name p @ [0]) @ le_bytes 8 (unat (ps_address p)) @ le_bytes 4 (unat (ps_parameter_size p))"

interpretation cstr: serializer string_SizeOf string_Write "\<lambda>str. str @ [0]" "\<lambda>str. 0 \<notin> set str"
  by unfold_locales (simp_all add: string_SizeOf_def writes_string)

interpretation line: serializer Line_SizeOf Line_Write line_bytes "\<lambda>_. True"
proof (unfold_locales, goal_cases)
  case (1 l)
  then show ?case by (simp add: line_bytes_def Line_SizeOf_def Simple_SizeOf_def)
next
  case (2 l)
  show ?case
    using writes_seq [OF writes_Simple [of 8 "line_address l"] writes_seq [OF writes_Simple [of 8 "line_size l"]
        writes_seq [OF writes_Simple [of 4 "source_file_id l"] writes_Simple [of 4 "line_number l"]]]]
    by (simp add: Line_Write_def [abs_def] line_bytes_def)
qed

interpretation symbol: serializer PublicSymbol_SizeOf PublicSymbol_Write symbol_bytes "\<lambda>p. 0 \<notin> set (ps_name p)"
proof (unfold_locales, goal_cases)
  case (1 p)
  then show ?case by (simp add: symbol_bytes_def PublicSymbol_SizeOf_def Simple_SizeOf_def string_SizeOf_def)
next
  case (2 p)
  then show ?case
    using writes_seq [OF writes_string [of "ps_name p"] writes_seq [OF writes_Simple [of 8 "ps_address p"]
        writes_Simple [of 4 "ps_parameter_size p"]]]
    unfolding PublicSymbol_Write_def [abs_def] symbol_bytes_def by blast
qed

interpretation line_ptr: serializer "linked_SizeOf Line_SizeOf" "linked_Write Line_Write"
    "case_option [] line_bytes" "case_option True (\<lambda>_. True)"
  by (rule line.linked)

interpretation symbol_ptr: serializer "linked_SizeOf PublicSymbol_SizeOf" "linked_Write PublicSymbol_Write"
    "case_option [] symbol_bytes" "case_option True (\<lambda>p. 0 \<notin> set (ps_name p))"
  by (rule symbol.linked)

interpretation line_range: serializer "Range_SizeOf (linked_SizeOf Line_SizeOf)" "Range_Write (linked_Write Line_Write)"
    "range_bytes (case_option [] line_bytes)" "\<lambda>r. case_option True (\<lambda>_. True) (range_entry r)"
  by (rule line_ptr.ranged)

interpretation cstr_range: serializer "Range_SizeOf string_SizeOf" "Range_Write string_Write"
    "range_bytes (\<lambda>str. str @ [0])" "\<lambda>r. 0 \<notin> set (range_entry r)"
  by (rule cstr.ranged)

definition wfi_bytes :: "WindowsFrameInfo \<Rightarrow> u8 list" where
  "wfi_bytes w = le_bytes 4 (unat (wfi_type w)) @ le_bytes 4 (unat (wfi_valid w)) @ le_bytes 4 (unat (prolog_size w)) @
     le_bytes 4 (unat (epilog_size w)) @ le_bytes 4 (unat (wfi_parameter_size w)) @
     le_bytes 4 (unat (saved_register_size w)) @ le_bytes 4 (unat (local_size w)) @ le_bytes 4 (unat (max_stack_size w)) @
     [if allocates_base_pointer w then 255 else 0] @ program_string w @ [0]"

interpretation wfi: serializer WFI_SizeOf WFI_Write wfi_bytes "\<lambda>w. 0 \<notin> set (program_string w)"
proof (unfold_locales, goal_cases)
  case (1 w)
  then show ?case by (simp add: wfi_bytes_def WFI_SizeOf_def Simple_SizeOf_def string_SizeOf_def)
next
  case (2 w)
  show ?case
    unfolding WFI_Write_def [abs_def] wfi_bytes_def
    by (intro writes_seq writes_Simple writes_bool writes_string 2)
qed

definition function_bytes :: "(64, Line option) RangeMap Function \<Rightarrow> u8 list" where
  "function_bytes f = (fn_name f @ [0]) @ le_bytes 8 (unat (fn_address f)) @ le_bytes 8 (unat (fn_size f)) @
     le_bytes 4 (unat (fn_parameter_size f)) @
     map_bytes 8 (Range_SizeOf (linked_SizeOf Line_SizeOf)) (range_bytes (case_option [] line_bytes)) (fn_lines f)"

lemma lines_good: "good_map (\<lambda>r. case_option True (\<lambda>_. True) (range_entry r)) m"
  by (auto simp: good_map_def split: option.split)

interpretation func: serializer Function_SizeOf Function_Write function_bytes "\<lambda>f. 0 \<notin> set (fn_name f)"
proof (unfold_locales, goal_cases)
  case (1 f)
  then show ?case
    using line_range.length_map_bytes [OF lines_good, of 8 "fn_lines f"]
    by (simp add: function_bytes_def Function_SizeOf_def Simple_SizeOf_def string_SizeOf_def RangeMapSerializer_std)
next
  case (2 f)
  show ?case
    unfolding Function_Write_def [abs_def] function_bytes_def RangeMapSerializer_std(2)
    by (intro writes_seq writes_Simple writes_string 2 line_range.StdMapSerializer_writes lines_good)
qed

section \<open>Reading the entries back\<close>

lemma peek_word:
  fixes w :: "'a::len word"
  assumes "p + n \<le> length mem" "take n (drop p mem) = le_bytes n (unat w)" "2 ^ LENGTH('a) \<le> (256::nat) ^ n"
  shows "peek mem n p = ret w"
  using assms le_word_bytes [OF assms(3), of w] by (simp add: peek_def)

lemma take_drop_part:
  assumes "take n (drop p mem) = A @ B @ C" "length (A @ B @ C) = n"
  shows "take (length B) (drop (p + length A) mem) = B"
proof -
  have "drop (length A) (take n (drop p mem)) = B @ C" using assms(1) by simp
  then have "take (n - length A) (drop (p + length A) mem) = B @ C" by (simp add: drop_take add.commute)
  then have "take (length B) (take (n - length A) (drop (p + length A) mem)) = B" by simp
  then show ?thesis using assms(2) by simp
qed

lemma Line_CopyFrom_bytes:
  assumes "p + 24 \<le> length mem" "take 24 (drop p mem) = line_bytes l"
  shows "Line_CopyFrom mem p = ret l"
proof -
  note part = take_drop_part [OF trans [OF assms(2)], of _ _ _]
  let ?a = "le_bytes 8 (unat (line_address l))" and ?s = "le_bytes 8 (unat (line_size l))"
  let ?f = "le_bytes 4 (unat (source_file_id l))" and ?n = "le_bytes 4 (unat (line_number l))"
  have "peek mem 8 p = ret (line_address l)"
    using part [of "[]" ?a "?s @ ?f @ ?n"] assms(1) by (intro peek_word) (simp_all add: line_bytes_def)
  moreover have "peek mem 8 (p + 8) = ret (line_size l)"
    using part [of ?a ?s "?f @ ?n"] assms(1) by (intro peek_word) (simp_all add: line_bytes_def)
  moreover have "peek mem 4 (p + 16) = ret (source_file_id l)"
    using part [of "?a @ ?s" ?f ?n] assms(1) by (intro peek_word) (simp_all add: line_bytes_def)
  moreover have "peek mem 4 (p + 20) = ret (line_number l)"
    using part [of "?a @ ?s @ ?f" ?n "[]"] assms(1) by (intro peek_word) (simp_all add: line_bytes_def)
  ultimately show ?thesis by (simp add: Line_CopyFrom_def)
qed

lemma PublicSymbol_CopyFrom_bytes:
  assumes "0 \<notin> set (ps_name q)" "p + PublicSymbol_SizeOf q \<le> length mem"
    and "take (PublicSymbol_SizeOf q) (drop p mem) = symbol_bytes q"
  shows "PublicSymbol_CopyFrom mem p = ret q"
proof -
  note part = take_drop_part [OF trans [OF assms(3)], of _ _ _]
  let ?s = "ps_name q" and ?a = "le_bytes 8 (unat (ps_address q))" and ?n = "le_bytes 4 (unat (ps_parameter_size q))"
  have len: "PublicSymbol_SizeOf q = length ?s + 1 + 8 + 4"
    by (simp add: PublicSymbol_SizeOf_def string_SizeOf_def Simple_SizeOf_def)
  have "drop p mem = symbol_bytes q @ drop (PublicSymbol_SizeOf q) (drop p mem)"
    by (metis append_take_drop_id assms(3))
  then have "takeWhile (\<lambda>c. c \<noteq> 0) (drop p mem) = ?s"
    using assms(1) by (simp add: symbol_bytes_def) (metis (mono_tags, lifting) takeWhile_eq_all_conv takeWhile_tail append_Nil2)
  then have "cstring mem p = ret ?s" using assms(2) by (simp add: cstring_def len)
  moreover have "peek mem 8 (p + (length ?s + 1)) = ret (ps_address q)"
    using part [of "?s @ [0]" ?a ?n] assms(2) by (intro peek_word) (simp_all add: symbol_bytes_def len)
  moreover have pos: "p + (length ?s + 1) + 8 = p + (length ?s + 9)" by simp
  have "peek mem 4 (p + (length ?s + 1) + 8) = ret (ps_parameter_size q)"
    unfolding pos using part [of "(?s @ [0]) @ ?a" ?n "[]"] assms(2)
    by (intro peek_word) (simp_all add: symbol_bytes_def len)
  ultimately show ?thesis
    unfolding PublicSymbol_CopyFrom_def Let_def by (simp only: bindc_ret) simp
qed

lemma peek_append:
  fixes w :: "'a::len word"
  assumes "2 ^ LENGTH('a) \<le> (256::nat) ^ n" "p = length A"
  shows "peek (A @ le_bytes n (unat w) @ R) n p = ret w"
  using assms by (intro peek_word) auto

lemma cstring_append: "0 \<notin> set str \<Longrightarrow> cstring (A @ str @ 0 # R) (length A) = ret str"
proof -
  assume "0 \<notin> set str"
  then have "takeWhile (\<lambda>c. c \<noteq> 0) (str @ 0 # R) = str" by (subst takeWhile_append2) auto
  then show ?thesis by (simp add: cstring_def)
qed

text \<open>A function that was written is copied with its fields, and its lines answer from the block.\<close>

lemma Function_CopyFrom_written:
  fixes pre post :: "u8 list"
  assumes name: "0 \<notin> set (fn_name f)" and mok: "map_ok (fn_lines f)"
    and small: "RangeMapSerializer_SizeOf (linked_SizeOf Line_SizeOf) (fn_lines f) < 2 ^ 32"
  defines "mem \<equiv> pre @ function_bytes f @ post"
  defines "x \<equiv> (mem, length pre + length (fn_name f) + 21)"
  shows "Function_CopyFrom mem (length pre) =
      ret \<lparr>fn_name = fn_name f, fn_address = fn_address f, fn_size = fn_size f,
           fn_parameter_size = fn_parameter_size f, fn_lines = static_view x\<rparr>"
    and "StaticRangeMap_RetrieveRange mem (static_view x) a =
      ret (map_option (\<lambda>(_, b, s). (static_value x (lower_bound a (fn_lines f)) + 8, b, s))
            (RangeMap_RetrieveRange a (fn_lines f)))"
proof -
  let ?a = "le_bytes 8 (unat (fn_address f))" and ?s = "le_bytes 8 (unat (fn_size f))"
  let ?n = "le_bytes 4 (unat (fn_parameter_size f))"
  let ?l = "map_bytes 8 (Range_SizeOf (linked_SizeOf Line_SizeOf)) (range_bytes (case_option [] line_bytes)) (fn_lines f)"
  let ?pre = "pre @ (fn_name f @ [0]) @ ?a @ ?s @ ?n"
  have mem: "mem = ?pre @ ?l @ post" by (simp add: mem_def function_bytes_def)
  have len: "length ?pre = length pre + length (fn_name f) + 21" by simp
  have good: "\<forall>r \<in> set (fn_lines f). case_option True (\<lambda>_. True) (range_entry (snd r))" by (auto split: option.split)
  have x: "x = (?pre @ ?l @ post, length ?pre)" unfolding x_def mem len ..
  note w = line_ptr.written_ranges [OF good small mok, where pre = ?pre and post = post, folded x]
  have fstx: "fst x = mem" by (simp add: x_def)
  have new: "StaticMap_new mem (length pre + length (fn_name f) + 21) = ret (static_view x)"
    using StaticMap_new_view [OF static_held_ok [OF w(1)]] by (simp add: x_def)
  show "StaticRangeMap_RetrieveRange mem (static_view x) a =
      ret (map_option (\<lambda>(_, b, s). (static_value x (lower_bound a (fn_lines f)) + 8, b, s))
            (RangeMap_RetrieveRange a (fn_lines f)))"
    using StaticRangeMap_RetrieveRange_block [OF w(1,2), of a] unfolding w(3) RetrieveRange_relabel fstx .
  have "cstring mem (length pre) = ret (fn_name f)" using cstring_append [OF name] by (simp add: mem)
  moreover have "peek mem 8 (length pre + (length (fn_name f) + 1)) = ret (fn_address f)"
    using peek_append [of 8 _ "pre @ fn_name f @ [0]" "fn_address f" "?s @ ?n @ ?l @ post"] by (simp add: mem)
  moreover have "peek mem 8 (length pre + (length (fn_name f) + 1) + 8) = ret (fn_size f)"
    using peek_append [of 8 "length pre + (length (fn_name f) + 1) + 8" "pre @ fn_name f @ [0] @ ?a" "fn_size f" "?n @ ?l @ post"] by (simp add: mem)
  moreover have "peek mem 4 (length pre + (length (fn_name f) + 1) + 16) = ret (fn_parameter_size f)"
    using peek_append [of 4 "length pre + (length (fn_name f) + 1) + 16" "pre @ fn_name f @ [0] @ ?a @ ?s" "fn_parameter_size f" "?l @ post"] by (simp add: mem)
  moreover have "length pre + (length (fn_name f) + 1) + 20 = length pre + length (fn_name f) + 21" by simp
  ultimately show "Function_CopyFrom mem (length pre) =
      ret \<lparr>fn_name = fn_name f, fn_address = fn_address f, fn_size = fn_size f,
           fn_parameter_size = fn_parameter_size f, fn_lines = static_view x\<rparr>"
    unfolding Function_CopyFrom_def Let_def by (simp only: bindc_ret new)
qed

section \<open>Properties\<close>

text \<open>Look-up of a line and of a public symbol in the block, with the entry copied out of it.\<close>

definition lookup_line :: "u8 list \<Rightarrow> MemAddr \<Rightarrow> (Line \<times> MemAddr \<times> MemAddr) option comp" where
  "lookup_line mem a =
     bindc (StaticMap_new mem 0) (\<lambda>s.
     bindc (StaticRangeMap_RetrieveRange mem s a) (\<lambda>r.
     case r of None \<Rightarrow> ret None
     | Some (p, b, sz) \<Rightarrow> bindc (Line_CopyFrom mem p) (\<lambda>l. ret (Some (l, b, sz)))))"

definition lookup_symbol :: "u8 list \<Rightarrow> MemAddr \<Rightarrow> (PublicSymbol \<times> MemAddr) option comp" where
  "lookup_symbol mem a =
     bindc (StaticMap_new mem 0) (\<lambda>s.
     bindc (StaticAddressMap_Retrieve mem s a) (\<lambda>r.
     case r of None \<Rightarrow> ret None
     | Some (p, k) \<Rightarrow> bindc (deref p) (\<lambda>p. bindc (PublicSymbol_CopyFrom mem p) (\<lambda>q. ret (Some (q, k))))))"

text \<open>C27: A range map of lines without null pointers that fits below 4 GB, written by the serializer into a block of the size it announces and
  read back with StaticRangeMap and CopyFrom, answers every address as the map itself does.\<close>

theorem RangeMapSerializer_roundtrip:
  assumes mok: "map_ok m" and lines: "\<forall>r \<in> set m. range_entry (snd r) \<noteq> None"
    and small: "RangeMapSerializer_SizeOf (linked_SizeOf Line_SizeOf) m < 2 ^ 32"
  shows "bindc (RangeMapSerializer_Serialize (linked_SizeOf Line_SizeOf) (linked_Write Line_Write) fill m)
           (\<lambda>(mem, n). lookup_line mem a) =
         ret (map_option (\<lambda>(l, b, s). (the l, b, s)) (RangeMap_RetrieveRange a m))"
proof -
  let ?mem = "map_bytes 8 (Range_SizeOf (linked_SizeOf Line_SizeOf)) (range_bytes (case_option [] line_bytes)) m"
  have good: "\<forall>r \<in> set m. case_option True (\<lambda>_. True) (range_entry (snd r))" by (auto split: option.split)
  note w = line_ptr.written_ranges [OF good small mok, where pre = "[]" and post = "[]", simplified]
  have ser: "RangeMapSerializer_Serialize (linked_SizeOf Line_SizeOf) (linked_Write Line_Write) fill m =
      ret (?mem, RangeMapSerializer_SizeOf (linked_SizeOf Line_SizeOf) m)"
    unfolding RangeMapSerializer_std
    using good small by (intro line_range.Serialize_writes) (auto simp: good_map_def RangeMapSerializer_std)
  note new = StaticMap_new_view [OF static_held_ok [OF w(1)], simplified]
  note ret = StaticRangeMap_RetrieveRange_block [OF w(1,2), of a, simplified, unfolded w(3) RetrieveRange_relabel]
  show ?thesis
  proof (cases "RangeMap_RetrieveRange a m")
    case None
    then show ?thesis by (simp add: ser lookup_line_def new ret)
  next
    case (Some r)
    obtain l b sz where r: "r = (l, b, sz)" by (cases r)
    note e = RetrieveRange_entry [OF Some [unfolded r]]
    obtain l' where l': "l = Some l'" using lines e nth_mem [OF e(1)] by fastforce
    have "Line_CopyFrom ?mem (static_value (?mem, 0) (lower_bound a m) + 8) = ret l'"
      using w(4) [OF e(1)] by (intro Line_CopyFrom_bytes)
        (simp_all add: e(2) [symmetric] l' linked_SizeOf_def Line_SizeOf_def Simple_SizeOf_def)
    then show ?thesis by (simp add: ser lookup_line_def new ret Some r l')
  qed
qed

definition two_lines :: "(64, Line option) RangeMap" where
  "two_lines =
     [(0x100F, \<lparr>range_base = 0x1000, range_entry = Some \<lparr>line_address = 0x1000, line_size = 0x10, source_file_id = 1, line_number = 42\<rparr>\<rparr>),
      (0x1017, \<lparr>range_base = 0x1010, range_entry = Some \<lparr>line_address = 0x1010, line_size = 8, source_file_id = 1, line_number = 43\<rparr>\<rparr>)]"

theorem RangeMapSerializer_roundtrip_witness:
  "bindc (RangeMapSerializer_Serialize (linked_SizeOf Line_SizeOf) (linked_Write Line_Write) (\<lambda>_. 0xCC) two_lines)
     (\<lambda>(mem, n). lookup_line mem 0x1012) =
   ret (Some (\<lparr>line_address = 0x1010, line_size = 8, source_file_id = 1, line_number = 43\<rparr>, 0x1010, 8))"
proof -
  have "map_ok two_lines" "\<forall>r \<in> set two_lines. range_entry (snd r) \<noteq> None"
    "RangeMapSerializer_SizeOf (linked_SizeOf Line_SizeOf) two_lines < 2 ^ 32"
    by (simp_all add: two_lines_def RangeMapSerializer_SizeOf_def linked_SizeOf_def Line_SizeOf_def Simple_SizeOf_def)
  from RangeMapSerializer_roundtrip [OF this, of "\<lambda>_. 0xCC" "0x1012"] show ?thesis
    by (simp add: two_lines_def RangeMap_RetrieveRange_def lower_bound_def range_out_def)
qed

text \<open>A map of public symbols whose names hold no zero byte, written by the serializer and read
  back with StaticAddressMap and CopyFrom, returns for every address the symbol the map returns.\<close>

theorem AddressMapSerializer_roundtrip:
  assumes mok: "map_ok m" and syms: "\<forall>e \<in> set m. \<exists>q. snd e = Some q \<and> 0 \<notin> set (ps_name q)"
    and small: "StdMapSerializer_SizeOf 8 (linked_SizeOf PublicSymbol_SizeOf) m < 2 ^ 32"
  shows "bindc (StdMapSerializer_Serialize 8 (linked_SizeOf PublicSymbol_SizeOf) (linked_Write PublicSymbol_Write) fill m)
           (\<lambda>(mem, n). lookup_symbol mem a) =
         ret (map_option (\<lambda>(q, k). (the q, k)) (AddressMap_Retrieve a m))"
proof -
  let ?mem = "map_bytes 8 (linked_SizeOf PublicSymbol_SizeOf) (case_option [] symbol_bytes) m"
  let ?x = "(?mem, 0)"
  have good: "good_map (case_option True (\<lambda>p. 0 \<notin> set (ps_name p))) m"
    using syms by (auto simp: good_map_def split: option.split)
  note w = symbol_ptr.written_block [OF good small, where pre = "[]" and post = "[]", simplified]
  note ok = symbol_ptr.written_ok [OF good small mok, of "[]" "[]", simplified]
  note ser = symbol_ptr.Serialize_writes [OF good small, of fill]
  note new = StaticMap_new_view [OF w(2), simplified]
  note ret = StaticAddressMap_Retrieve_block [OF ok, of a, simplified]
  have up: "upper_bound a (block_addresses ?x) = upper_bound a m"
  proof -
    have "map fst (block_addresses ?x) = map fst m"
      using w by (intro nth_equalityI) (simp_all add: block_addresses_def)
    then show ?thesis by (simp add: upper_bound_keys)
  qed
  show ?thesis
  proof (cases "upper_bound a m = 0")
    case True
    then show ?thesis by (simp add: ser lookup_symbol_def new ret AddressMap_Retrieve_def up)
  next
    case False
    let ?i = "upper_bound a m - 1"
    have i: "?i < length m" using False std.upper_le [OF mok, of a] by simp
    obtain q where q: "snd (m ! ?i) = Some q" "0 \<notin> set (ps_name q)" using syms nth_mem [OF i] by blast
    have "PublicSymbol_CopyFrom ?mem (static_value ?x ?i) = ret q"
      using w(4) [OF i] q by (intro PublicSymbol_CopyFrom_bytes) (simp_all add: linked_SizeOf_def)
    moreover have "block_addresses ?x ! ?i = (fst (m ! ?i), static_value ?x ?i)"
      using i w by (simp add: block_addresses_def)
    ultimately show ?thesis
      using False q by (simp add: ser lookup_symbol_def new ret AddressMap_Retrieve_def up Let_def)
  qed
qed

definition two_symbols :: "(64, PublicSymbol option) AddressMap" where
  "two_symbols = [(0x100, Some \<lparr>ps_name = [97], ps_address = 0x100, ps_parameter_size = 4\<rparr>),
     (0x200, Some \<lparr>ps_name = [98, 99], ps_address = 0x200, ps_parameter_size = 0\<rparr>)]"

theorem AddressMapSerializer_roundtrip_witness:
  "bindc (StdMapSerializer_Serialize 8 (linked_SizeOf PublicSymbol_SizeOf) (linked_Write PublicSymbol_Write) (\<lambda>_. 0xCC) two_symbols)
     (\<lambda>(mem, n). lookup_symbol mem 0x1FF) =
   ret (Some (\<lparr>ps_name = [97], ps_address = 0x100, ps_parameter_size = 4\<rparr>, 0x100))"
proof -
  have "map_ok two_symbols" "\<forall>e \<in> set two_symbols. \<exists>q. snd e = Some q \<and> 0 \<notin> set (ps_name q)"
    "StdMapSerializer_SizeOf 8 (linked_SizeOf PublicSymbol_SizeOf) two_symbols < 2 ^ 32"
    by (simp_all add: two_symbols_def StdMapSerializer_SizeOf_def linked_SizeOf_def PublicSymbol_SizeOf_def
        Simple_SizeOf_def string_SizeOf_def)
  from AddressMapSerializer_roundtrip [OF this, of "\<lambda>_. 0xCC" "0x1FF"] show ?thesis
    by (simp add: two_symbols_def AddressMap_Retrieve_def upper_bound_def)
qed

end
