(* ===== verification/Contained_Serializer.thy ===== *)
theory Contained_Serializer
  imports Map_Serializer
begin

text \<open>
  Contained ranges in one block of memory: \<^verbatim>\<open>ContainedRangeMapSerializer\<close> of
  \<^verbatim>\<open>map_serializers-inl.h\<close>, which writes the tree, and \<^verbatim>\<open>StaticContainedRangeMap\<close>
  (\<^verbatim>\<open>static_contained_range_map.h\<close>, \<^verbatim>\<open>static_contained_range_map-inl.h\<close>), which retrieves from the
  block.  A node is its base, the size of its entry, the entry and the map of its children, in the
  layout of a \<^verbatim>\<open>StaticMap\<close> whose values are nodes again.
\<close>

section \<open>The serializer\<close>

lemma StdMap_loop_cong [fundef_cong]:
  assumes "m = m'" "\<And>e. e \<in> set m' \<Longrightarrow> wr (snd e) = wr' (snd e)"
    and "start = start'" "slot = slot'" "key = key'" "dest = dest'" "mem = mem'"
  shows "StdMap_loop kn wr start slot key dest mem m = StdMap_loop kn wr' start' slot' key' dest' mem' m'"
proof -
  have "\<forall>slot key dest mem. StdMap_loop kn wr start slot key dest mem m' = StdMap_loop kn wr' start slot key dest mem m'"
    using assms(2)
  proof (induction m')
    case (Cons e m')
    obtain k v where e: "e = (k, v)" by (cases e)
    have "wr v = wr' v" using Cons.prems [of e] by (simp add: e)
    with Cons show ?case by (simp add: e split_beta)
  qed simp
  then show ?thesis using assms by simp
qed

lemma size_in_children: "c \<in> set (crm_children t) \<Longrightarrow> size (snd c) < size t"
  using size_child by (metis in_set_conv_nth)

lemma size_in_map: "c \<in> set m \<Longrightarrow> size (snd c) < size (CRMap b e (Some m))"
  using size_in_children by (metis children_CRMap(2))

fun Contained_SizeOf :: "('e \<Rightarrow> nat) \<Rightarrow> (MemAddr, 'e) ContainedRangeMap \<Rightarrow> nat" where
  "Contained_SizeOf esize (CRMap base entry mp) =
     (let header_size = Simple_SizeOf 8 base + esize entry + 4 in
      header_size + 4 +
      (case mp of
         None \<Rightarrow> 0
       | Some m \<Rightarrow> length m * 4 + sum_list (map (\<lambda>c. Simple_SizeOf 8 (fst c) + Contained_SizeOf esize (snd c)) m)))"

text \<open>The loop over the children is the one of \<^verbatim>\<open>StdMapSerializer\<close>: an offset, a key and the value,
  which is a node that the serializer writes recursively.\<close>

function Contained_Write :: "('e \<Rightarrow> nat) \<Rightarrow> 'e writer \<Rightarrow> (MemAddr, 'e) ContainedRangeMap writer" where
  "Contained_Write esize ewrite (CRMap base entry mp) dest mem =
     (if dest = None then ret (None, mem)
      else
        bindc (Simple_Write 8 base dest mem) (\<lambda>(dest, mem).
        bindc (Simple_Write 4 (of_nat (esize entry) :: u32) dest mem) (\<lambda>(dest, mem).
        bindc (ewrite entry dest mem) (\<lambda>(dest, mem).
        bindc (deref dest) (\<lambda>map_address.
        case mp of
          None \<Rightarrow> Simple_Write 4 (0 :: u32) dest mem
        | Some m \<Rightarrow>
            bindc (Simple_Write 4 (of_nat (length m) :: u32) dest mem) (\<lambda>(dest, mem).
            let offsets = dest; dest = advance (4 * length m) dest;
                key_address = dest; dest = advance (8 * length m) dest in
            StdMap_loop 8 (Contained_Write esize ewrite) map_address offsets key_address dest mem m))))))"
  by pat_completeness auto
termination
  by (relation "measure (\<lambda>(esize, ewrite, t, dest, mem). size t)") (simp_all only: wf_measure in_measure prod.case size_in_map)

declare Contained_Write.simps [simp del]

definition Contained_Serialize ::
    "('e \<Rightarrow> nat) \<Rightarrow> 'e writer \<Rightarrow> (nat \<Rightarrow> u8) \<Rightarrow> (MemAddr, 'e) ContainedRangeMap \<Rightarrow> (u8 list \<times> nat) comp" where
  "Contained_Serialize esize ewrite fill t =
     (let size_to_alloc = Contained_SizeOf esize t mod 2 ^ 32 in
      bindc (Contained_Write esize ewrite t (Some 0) (alloc fill size_to_alloc)) (\<lambda>(_, mem).
      ret (mem, size_to_alloc)))"

section \<open>The map in the block\<close>

record StaticContainedRangeMap =
  sc_base :: MemAddr
  sc_entry_size :: u32
  sc_entry_ptr :: "nat option"
  sc_map :: StaticMap

definition StaticContained_default :: StaticContainedRangeMap where
  "StaticContained_default = \<lparr>sc_base = 0, sc_entry_size = 0, sc_entry_ptr = None, sc_map = StaticMap_default\<rparr>"

definition StaticContained_new :: "u8 list \<Rightarrow> nat \<Rightarrow> StaticContainedRangeMap comp" where
  "StaticContained_new mem p =
     bindc (peek mem 8 p) (\<lambda>base.
     bindc (peek mem 4 (p + 8)) (\<lambda>entry_size :: u32.
     bindc (StaticMap_new mem (p + 8 + 4 + unat entry_size)) (\<lambda>s.
     ret \<lparr>sc_base = base, sc_entry_size = entry_size,
          sc_entry_ptr = (if entry_size = 0 then None else Some (p + 8 + 4)), sc_map = s\<rparr>)))"

text \<open>The maps of the descendants lie at greater and greater positions in the block, so that the
  retrieval ends on every block.\<close>

definition map_room :: "u8 list \<Rightarrow> StaticContainedRangeMap \<Rightarrow> nat" where
  "map_room mem c = (case raw_data (sc_map c) of None \<Rightarrow> 0 | Some p \<Rightarrow> length mem - p)"

lemma StaticContained_new_room:
  assumes "StaticContained_new mem q = ret c" "p \<le> q" "raw_data s = Some p"
  shows "map_room mem c < length mem - p"
proof -
  have "\<exists>r. raw_data (sc_map c) = Some r \<and> q < r \<and> r < length mem"
    using assms(1)
    by (auto simp: StaticContained_new_def StaticMap_new_def bindc_eq_ret peek_def split: if_splits)
  with assms(2) show ?thesis by (auto simp: map_room_def)
qed

lemma IteratorAtIndex_base: "IteratorAtIndex mem s i = ret it \<Longrightarrow> it_base it = raw_data s"
  by (auto simp: IteratorAtIndex_def StaticMapIterator_new_def bindc_eq_ret)

lemma lower_bound_base:
  assumes "StaticMap_lower_bound mem s k = ret it"
  shows "it_base it = raw_data s"
proof -
  obtain r where "(case r of Inl i \<Rightarrow> IteratorAtIndex mem s i | Inr i \<Rightarrow> IteratorAtIndex mem s i) = ret it"
    using assms by (auto simp: StaticMap_lower_bound_def bindc_eq_ret)
  then show ?thesis by (cases r) (simp_all add: IteratorAtIndex_base)
qed

lemma GetValueRawPtr_above:
  assumes "it_GetValueRawPtr mem it = ret (Some q)"
  obtains p where "it_base it = Some p" "p \<le> q"
  using assms by (auto simp: it_GetValueRawPtr_def bindc_eq_ret deref_def split: if_splits option.splits)

text \<open>The entry is returned as a pointer into the block, \<^verbatim>\<open>NULL\<close> for an entry of no bytes.\<close>

function StaticContained_RetrieveRange ::
    "u8 list \<Rightarrow> StaticContainedRangeMap \<Rightarrow> MemAddr \<Rightarrow> nat option option comp" where
  "StaticContained_RetrieveRange mem s address =
     bindc (StaticMap_lower_bound mem (sc_map s) address) (\<lambda>iterator.
     bindc (IteratorAtIndex mem (sc_map s) (num_nodes (sc_map s))) (\<lambda>end.
     if it_equal iterator end then ret None
     else
       bindc (it_GetValueRawPtr mem iterator) (\<lambda>memory_child.
       bindc (deref memory_child) (\<lambda>q.
       bindc (StaticContained_new mem q) (\<lambda>child_map.
       if address < sc_base child_map then ret None
       else
         bindc (StaticContained_RetrieveRange mem child_map address) (\<lambda>found.
         case found of None \<Rightarrow> ret (Some (sc_entry_ptr child_map)) | Some entry \<Rightarrow> ret (Some entry)))))))"
  by pat_completeness auto
termination
proof (relation "measure (\<lambda>(mem, s, address). map_room mem s)", goal_cases)
  case (2 mem s address it e mc q child)
  from \<open>deref mc = ret q\<close> have "mc = Some q" by (simp add: deref_def split: option.splits)
  with \<open>it_GetValueRawPtr mem it = ret mc\<close> obtain p where p: "it_base it = Some p" "p \<le> q"
    by (auto elim: GetValueRawPtr_above)
  with \<open>StaticMap_lower_bound mem (sc_map s) address = ret it\<close> have "raw_data (sc_map s) = Some p"
    by (simp add: lower_bound_base)
  with StaticContained_new_room [OF \<open>StaticContained_new mem q = ret child\<close> p(2) this] show ?case
    by (simp add: map_room_def [of _ s])
qed simp

declare StaticContained_RetrieveRange.simps [simp del]

section \<open>The layout of a tree\<close>

lemma map_bytes_cong [fundef_cong]:
  assumes "m = m'" "\<And>e. e \<in> set m' \<Longrightarrow> bytes (snd e) = bytes' (snd e)" "vsize = vsize'"
  shows "map_bytes kn vsize bytes m = map_bytes kn vsize' bytes' m'"
  using assms by (simp add: map_bytes_def value_bytes_def cong: map_cong)

fun contained_bytes :: "('e \<Rightarrow> nat) \<Rightarrow> ('e \<Rightarrow> u8 list) \<Rightarrow> (MemAddr, 'e) ContainedRangeMap \<Rightarrow> u8 list" where
  "contained_bytes esize bytes (CRMap base entry mp) =
     le_bytes 8 (unat base) @ le_bytes 4 (unat (of_nat (esize entry) :: u32)) @ bytes entry @
     (case mp of None \<Rightarrow> le_bytes 4 0 | Some m \<Rightarrow> map_bytes 8 (Contained_SizeOf esize) (contained_bytes esize bytes) m)"

fun contained_good :: "('e \<Rightarrow> bool) \<Rightarrow> (MemAddr, 'e) ContainedRangeMap \<Rightarrow> bool" where
  "contained_good good (CRMap base entry mp) \<longleftrightarrow>
     good entry \<and> (case mp of None \<Rightarrow> True | Some m \<Rightarrow> (\<forall>c \<in> set m. contained_good good (snd c)))"

lemma contained_good_children:
  "contained_good good t \<longleftrightarrow> good (crm_entry t) \<and> good_map (contained_good good) (crm_children t)"
  by (cases t) (auto simp: good_map_def crm_children_def split: option.splits)

lemma map_bytes_Nil: "map_bytes kn vsize bytes [] = le_bytes 4 0"
  by (simp add: map_bytes_def)

lemma contained_bytes_children:
  "contained_bytes esize bytes t =
     le_bytes 8 (unat (crm_base t)) @ le_bytes 4 (unat (of_nat (esize (crm_entry t)) :: u32)) @ bytes (crm_entry t) @
     map_bytes 8 (Contained_SizeOf esize) (contained_bytes esize bytes) (crm_children t)"
  by (cases t) (simp add: crm_children_def map_bytes_Nil split: option.splits)

lemma Contained_SizeOf_children:
  "Contained_SizeOf esize t = 12 + esize (crm_entry t) + StdMapSerializer_SizeOf 8 (Contained_SizeOf esize) (crm_children t)"
  by (cases t) (simp add: crm_children_def StdMapSerializer_SizeOf_def Simple_SizeOf_def case_prod_unfold split: option.splits)

lemma advance_0 [simp]: "advance 0 p = p"
  by (simp add: advance_def option.map_ident)

lemma bindc_ret_right [simp]: "bindc c ret = c"
  by (simp add: bindc_def ret_def split: option.split sum.split)

lemma Contained_Write_children:
  "Contained_Write esize ewrite t (Some d) mem =
     bindc (Simple_Write 8 (crm_base t) (Some d) mem) (\<lambda>(dest, mem).
     bindc (Simple_Write 4 (of_nat (esize (crm_entry t)) :: u32) dest mem) (\<lambda>(dest, mem).
     bindc (ewrite (crm_entry t) dest mem) (\<lambda>(dest, mem).
     bindc (deref dest) (\<lambda>_. StdMapSerializer_Write 8 (Contained_Write esize ewrite) (crm_children t) dest mem))))"
  by (cases t) (auto simp: Contained_Write.simps StdMapSerializer_Write_def crm_children_def deref_def split_beta
      intro!: bindc_cong split: option.splits)

lemma writes_deref: "writes w bs \<Longrightarrow> writes (\<lambda>dest mem. bindc (deref dest) (\<lambda>_. w dest mem)) bs"
  by (simp add: writes_def deref_def)

context serializer
begin

text \<open>The serializer of trees is one for the trees of every height: the induction uses the contract
  for the smaller trees.\<close>

lemma contained_spec:
  assumes "contained_good good t"
  shows "length (contained_bytes szof bytes t) = Contained_SizeOf szof t \<and>
    writes (Contained_Write szof wr t) (contained_bytes szof bytes t)"
  using assms
proof (induction "size t" arbitrary: t rule: less_induct)
  case less
  let ?small = "\<lambda>c. contained_good good c \<and> size c < size t"
  have inner: "serializer (Contained_SizeOf szof) (Contained_Write szof wr) (contained_bytes szof bytes) ?small"
    using less(1) by unfold_locales blast+
  have entry: "good (crm_entry t)" using less(2) by (simp add: contained_good_children)
  have children: "good_map ?small (crm_children t)"
    using less(2) size_in_children [of _ t] by (auto simp: contained_good_children [of good t] good_map_def)
  have "writes (\<lambda>dest mem. bindc (Simple_Write 8 (crm_base t) dest mem) (\<lambda>(dest, mem).
      bindc (Simple_Write 4 (of_nat (szof (crm_entry t)) :: u32) dest mem) (\<lambda>(dest, mem).
      bindc (wr (crm_entry t) dest mem) (\<lambda>(dest, mem).
      bindc (deref dest) (\<lambda>_. StdMapSerializer_Write 8 (Contained_Write szof wr) (crm_children t) dest mem)))))
      (contained_bytes szof bytes t)"
    unfolding contained_bytes_children [of szof bytes t]
    by (intro writes_seq writes_Simple write_bytes entry writes_deref serializer.StdMapSerializer_writes [OF inner children])
  then show ?case
    using serializer.length_map_bytes [OF inner children] size_bytes [OF entry]
    by (simp add: contained_bytes_children [of szof bytes t] Contained_SizeOf_children [of szof t] writes_def
        Contained_Write_children)
qed

end

section \<open>Reading a written tree\<close>

text \<open>Where the block holds the entry of a node: nowhere when the entry has no bytes.\<close>

definition entry_at :: "('e \<Rightarrow> nat) \<Rightarrow> ('e \<Rightarrow> u8 list) \<Rightarrow> u8 list \<Rightarrow> 'e \<Rightarrow> nat option \<Rightarrow> bool" where
  "entry_at esize bytes mem e q \<longleftrightarrow>
     (if esize e = 0 then q = None
      else \<exists>p. q = Some p \<and> p + esize e \<le> length mem \<and> take (esize e) (drop p mem) = bytes e)"

definition contained_view :: "('e \<Rightarrow> nat) \<Rightarrow> (MemAddr, 'e) ContainedRangeMap \<Rightarrow> u8 list \<Rightarrow> nat \<Rightarrow> StaticContainedRangeMap" where
  "contained_view esize t mem p =
     \<lparr>sc_base = crm_base t, sc_entry_size = of_nat (esize (crm_entry t)),
      sc_entry_ptr = (if esize (crm_entry t) = 0 then None else Some (p + 12)),
      sc_map = static_view (mem, p + 12 + esize (crm_entry t))\<rparr>"

lemma block_split:
  assumes "p + n \<le> length mem" "take n (drop p mem) = bs"
  shows "mem = take p mem @ bs @ drop (p + n) mem"
  using assms by (metis append_take_drop_id drop_drop add.commute)

context serializer
begin

lemma contained: "serializer (Contained_SizeOf szof) (Contained_Write szof wr) (contained_bytes szof bytes) (contained_good good)"
  using contained_spec by unfold_locales blast+

lemma contained_block:
  fixes pre post :: "u8 list"
  assumes good: "contained_good good t" and small: "Contained_SizeOf szof t < 2 ^ 32" and ok: "crm_ok t"
  defines "mem \<equiv> pre @ contained_bytes szof bytes t @ post"
  defines "x \<equiv> (mem, length pre + 12 + szof (crm_entry t))"
  shows "static_ok x" "static_count x = length (crm_children t)"
    and "static_lower a x = lower_bound a (crm_children t)"
    and "\<And>i. i < length (crm_children t) \<Longrightarrow>
      static_value x i + Contained_SizeOf szof (snd (crm_children t ! i)) \<le> length mem \<and>
      take (Contained_SizeOf szof (snd (crm_children t ! i))) (drop (static_value x i) mem) =
        contained_bytes szof bytes (snd (crm_children t ! i))"
    and "StaticContained_new mem (length pre) = ret (contained_view szof t mem (length pre))"
    and "entry_at szof bytes mem (crm_entry t) (sc_entry_ptr (contained_view szof t mem (length pre)))"
proof -
  let ?m = "crm_children t" and ?e = "crm_entry t"
  let ?b = "le_bytes 8 (unat (crm_base t))" and ?n = "le_bytes 4 (unat (of_nat (szof ?e) :: u32))"
  let ?map = "map_bytes 8 (Contained_SizeOf szof) (contained_bytes szof bytes) ?m"
  let ?pre = "pre @ ?b @ ?n @ bytes ?e"
  have gm: "good_map (contained_good good) ?m" and ge: "good ?e" using good by (simp_all add: contained_good_children)
  have mem: "mem = ?pre @ ?map @ post" unfolding mem_def contained_bytes_children [of szof bytes t] by simp
  have x: "x = (?pre @ ?map @ post, length ?pre)" unfolding x_def mem by (simp add: size_bytes [OF ge])
  have size: "StdMapSerializer_SizeOf 8 (Contained_SizeOf szof) ?m < 2 ^ 32" "szof ?e < 2 ^ 32"
    using small by (simp_all add: Contained_SizeOf_children [of szof t])
  have mok: "map_ok ?m" using ok span_map_ok by (auto simp: crm_ok_children)
  show okx: "static_ok x" unfolding x by (rule serializer.written_ok [OF contained gm size(1) mok])
  note block = serializer.written_block [OF contained gm size(1), where pre = ?pre and post = post, folded x, folded mem]
  show cnt: "static_count x = length ?m" by (rule block(1))
  have "map (\<lambda>i. (static_key x i, snd (?m ! i))) [0..<static_count x] = ?m"
    by (rule nth_equalityI) (simp_all add: cnt block(3))
  then show "static_lower a x = lower_bound a ?m"
    using bounds_upt(1) [OF okx, of a "\<lambda>i. snd (?m ! i)"] by simp
  show "static_value x i + Contained_SizeOf szof (snd (?m ! i)) \<le> length mem \<and>
      take (Contained_SizeOf szof (snd (?m ! i))) (drop (static_value x i) mem) = contained_bytes szof bytes (snd (?m ! i))"
    if "i < length ?m" for i using block(4) [OF that] .
  have un: "unat (of_nat (szof ?e) :: u32) = szof ?e" using size(2) by (simp add: unat_of_nat)
  have "peek mem 8 (length pre) = ret (crm_base t)"
    using peek_append [of 8 _ pre "crm_base t" "?n @ bytes ?e @ ?map @ post"] by (simp add: mem)
  moreover have "peek mem 4 (length pre + 8) = ret (of_nat (szof ?e) :: u32)"
    using peek_append [of 4 "length pre + 8" "pre @ ?b" "of_nat (szof ?e) :: u32" "bytes ?e @ ?map @ post"] by (simp add: mem)
  moreover have "StaticMap_new mem (length pre + 8 + 4 + szof ?e) = ret (static_view x)"
    using StaticMap_new_view [OF static_held_ok [OF okx]] by (simp add: x_def add.assoc)
  moreover have "(of_nat (szof ?e) = (0 :: u32)) \<longleftrightarrow> szof ?e = 0" using un by (metis unat_eq_zero)
  ultimately show "StaticContained_new mem (length pre) = ret (contained_view szof t mem (length pre))"
    by (simp add: StaticContained_new_def contained_view_def un x_def)
  have "take (szof ?e) (drop (length pre + 12) mem) = bytes ?e" "length pre + 12 + szof ?e \<le> length mem"
    using size_bytes [OF ge] by (simp_all add: mem)
  then show "entry_at szof bytes mem ?e (sc_entry_ptr (contained_view szof t mem (length pre)))"
    by (simp add: entry_at_def contained_view_def)
qed

text \<open>The same for a node at a position of the block, and the retrieval from it.\<close>

lemma contained_node:
  assumes tree: "contained_good good t" "Contained_SizeOf szof t < 2 ^ 32" "crm_ok t"
    and here: "p + Contained_SizeOf szof t \<le> length mem" "take (Contained_SizeOf szof t) (drop p mem) = contained_bytes szof bytes t"
  defines "x \<equiv> (mem, p + 12 + szof (crm_entry t))"
  shows "static_ok x" "static_count x = length (crm_children t)" "static_lower a x = lower_bound a (crm_children t)"
    and "\<And>i. i < length (crm_children t) \<Longrightarrow>
      static_value x i + Contained_SizeOf szof (snd (crm_children t ! i)) \<le> length mem \<and>
      take (Contained_SizeOf szof (snd (crm_children t ! i))) (drop (static_value x i) mem) =
        contained_bytes szof bytes (snd (crm_children t ! i))"
    and "StaticContained_new mem p = ret (contained_view szof t mem p)"
    and "entry_at szof bytes mem (crm_entry t) (sc_entry_ptr (contained_view szof t mem p))"
proof -
  have p: "length (take p mem) = p" using here(1) by simp
  note block = contained_block [OF tree, where pre = "take p mem" and post = "drop (p + Contained_SizeOf szof t) mem",
      folded block_split [OF here], unfolded p, folded x_def]
  show "static_ok x" "static_count x = length (crm_children t)" "static_lower a x = lower_bound a (crm_children t)"
    "StaticContained_new mem p = ret (contained_view szof t mem p)"
    "entry_at szof bytes mem (crm_entry t) (sc_entry_ptr (contained_view szof t mem p))"
    by (rule block)+
  show "static_value x i + Contained_SizeOf szof (snd (crm_children t ! i)) \<le> length mem \<and>
      take (Contained_SizeOf szof (snd (crm_children t ! i))) (drop (static_value x i) mem) =
        contained_bytes szof bytes (snd (crm_children t ! i))" if "i < length (crm_children t)" for i
    using block(4) [OF that] .
qed

lemma contained_child:
  assumes "contained_good good t" "Contained_SizeOf szof t < 2 ^ 32" "crm_ok t" "i < length (crm_children t)"
  shows "contained_good good (snd (crm_children t ! i))" "Contained_SizeOf szof (snd (crm_children t ! i)) < 2 ^ 32"
    and "crm_ok (snd (crm_children t ! i))"
proof -
  let ?m = "crm_children t"
  have c: "?m ! i \<in> set ?m" using assms(4) by simp
  then show "contained_good good (snd (?m ! i))" using assms(1) by (simp add: contained_good_children [of good t] good_map_def)
  show "crm_ok (snd (?m ! i))" using assms(3) c by (simp add: crm_ok_children [of t] child_ok_def)
  have "Contained_SizeOf szof (snd (?m ! i)) \<le> sum_list (map (\<lambda>e. Contained_SizeOf szof (snd e)) ?m)"
    using c by (intro member_le_sum_list) auto
  also have "\<dots> \<le> Contained_SizeOf szof t"
    by (simp add: Contained_SizeOf_children [of szof t] StdMapSerializer_SizeOf_def sum_entries Simple_SizeOf_def)
  finally show "Contained_SizeOf szof (snd (?m ! i)) < 2 ^ 32" using assms(2) by simp
qed

lemma contained_retrieve:
  assumes "contained_good good t" "Contained_SizeOf szof t < 2 ^ 32" "crm_ok t"
    and "p + Contained_SizeOf szof t \<le> length mem" "take (Contained_SizeOf szof t) (drop p mem) = contained_bytes szof bytes t"
  shows "\<exists>r. StaticContained_RetrieveRange mem (contained_view szof t mem p) a = ret r \<and>
    rel_option (entry_at szof bytes mem) (ContainedRangeMap_RetrieveRange a t) r"
  using assms
proof (induction a t arbitrary: p rule: ContainedRangeMap_RetrieveRange.induct)
  case (1 a t)
  let ?m = "crm_children t" and ?i = "lower_bound a (crm_children t)"
  let ?x = "(mem, p + 12 + szof (crm_entry t))" and ?c = "snd (?m ! ?i)"
  note node = contained_node [OF 1(2-)]
  note held = static_held_ok [OF node(1), simplified]
  have ends: "IteratorAtIndex mem (static_view ?x) (int (length ?m)) = ret (static_iter ?x (length ?m))"
    using iterator_ends(1) [OF held] node(2) by simp
  note iters = static_lower_iter [OF node(1), simplified] ends
  have view: "sc_map (contained_view szof t mem p) = static_view ?x" by (simp add: contained_view_def)
  note code = StaticContained_RetrieveRange.simps [of mem "contained_view szof t mem p" a] ContainedRangeMap_RetrieveRange.simps [of a t]
  show ?case
  proof (cases "?i = length ?m")
    case True
    then show ?thesis by (simp add: code view iters node(2,3) iter_equal)
  next
    case False
    then have i: "?i < length ?m" using lower_bound_le [of a ?m] by simp
    note child = contained_child [OF 1(2-4) i] and at = conjunct1 [OF node(4) [OF i]] conjunct2 [OF node(4) [OF i]]
    note cnode = contained_node [OF child at]
    have val: "it_GetValueRawPtr mem (static_iter ?x ?i) = ret (Some (static_value ?x ?i))"
      using iter_value [OF held, of ?i] i node(2) by simp
    show ?thesis
    proof (cases "a < crm_base ?c")
      case True
      then show ?thesis
        by (simp add: code view iters node(2,3) iter_equal False val cnode(5)) (simp add: contained_view_def)
    next
      case inside: False
      have "\<not> (?i = length ?m \<or> a < crm_base ?c)" using False inside by simp
      from 1(1) [OF refl refl this child at] obtain r where
        r: "StaticContained_RetrieveRange mem (contained_view szof ?c mem (static_value ?x ?i)) a = ret r"
          "rel_option (entry_at szof bytes mem) (ContainedRangeMap_RetrieveRange a ?c) r" by blast
      have base: "sc_base (contained_view szof ?c mem (static_value ?x ?i)) = crm_base ?c" by (simp add: contained_view_def)
      show ?thesis
        using r(2) cnode(6) inside False
        by (cases r) (auto simp: code view iters node(2,3) iter_equal val cnode(5) base r(1) Let_def option_rel_Some2)
    qed
  qed
qed

lemma contained_Serialize:
  assumes "contained_good good t" "Contained_SizeOf szof t < 2 ^ 32"
  shows "Contained_Serialize szof wr fill t = ret (contained_bytes szof bytes t, Contained_SizeOf szof t)"
proof -
  have len: "length (alloc fill (Contained_SizeOf szof t)) = length (contained_bytes szof bytes t)"
    using contained_spec [OF assms(1)] by (simp add: alloc_def)
  show ?thesis
    using assms(2) writesD [OF conjunct2 [OF contained_spec [OF assms(1)]] len, of "[]" "[]"]
    by (simp add: Contained_Serialize_def Let_def)
qed

end

interpretation wfi_ptr: serializer "linked_SizeOf WFI_SizeOf" "linked_Write WFI_Write"
    "case_option [] wfi_bytes" "case_option True (\<lambda>w. 0 \<notin> set (program_string w))"
  by (rule wfi.linked)

interpretation wfi_tree: serializer "Contained_SizeOf (linked_SizeOf WFI_SizeOf)"
    "Contained_Write (linked_SizeOf WFI_SizeOf) (linked_Write WFI_Write)"
    "contained_bytes (linked_SizeOf WFI_SizeOf) (case_option [] wfi_bytes)"
    "contained_good (case_option True (\<lambda>w. 0 \<notin> set (program_string w)))"
  by (rule wfi_ptr.contained)

section \<open>Frame records\<close>

text \<open>A frame record that was written is copied with all fields but \<^verbatim>\<open>valid\<close>.\<close>

lemma CopyWFI_append:
  assumes "0 \<notin> set (program_string w)"
  shows "CopyWFI (A @ wfi_bytes w @ R) (length A) = ret (w\<lparr>wfi_valid := - 1\<rparr>)"
proof -
  let ?l = "\<lambda>f. le_bytes 4 (unat (f w :: u32))"
  let ?b = "[if allocates_base_pointer w then 255 else 0] :: u8 list"
  let ?mem = "A @ wfi_bytes w @ R"
  note parts = wfi_bytes_def append.assoc
  have u: "peek ?mem 4 (length A) = ret (wfi_type w)"
    using peek_append [of 4 "length A" A "wfi_type w"] by (simp add: parts)
  have u0: "peek ?mem 4 (length A + 8) = ret (prolog_size w)"
    using peek_append [of 4 "length A + 8" "A @ ?l wfi_type @ ?l wfi_valid" "prolog_size w"] by (simp add: parts)
  have u1: "peek ?mem 4 (length A + 12) = ret (epilog_size w)"
    using peek_append [of 4 "length A + 12" "A @ ?l wfi_type @ ?l wfi_valid @ ?l prolog_size" "epilog_size w"]
    by (simp add: parts)
  have u2: "peek ?mem 4 (length A + 16) = ret (wfi_parameter_size w)"
    using peek_append [of 4 "length A + 16" "A @ ?l wfi_type @ ?l wfi_valid @ ?l prolog_size @ ?l epilog_size"
        "wfi_parameter_size w"] by (simp add: parts)
  have u3: "peek ?mem 4 (length A + 20) = ret (saved_register_size w)"
    using peek_append [of 4 "length A + 20" "A @ ?l wfi_type @ ?l wfi_valid @ ?l prolog_size @ ?l epilog_size @
        ?l wfi_parameter_size" "saved_register_size w"] by (simp add: parts)
  have u4: "peek ?mem 4 (length A + 24) = ret (local_size w)"
    using peek_append [of 4 "length A + 24" "A @ ?l wfi_type @ ?l wfi_valid @ ?l prolog_size @ ?l epilog_size @
        ?l wfi_parameter_size @ ?l saved_register_size" "local_size w"] by (simp add: parts)
  let ?head = "A @ ?l wfi_type @ ?l wfi_valid @ ?l prolog_size @ ?l epilog_size @ ?l wfi_parameter_size @
      ?l saved_register_size @ ?l local_size"
  have u5: "peek ?mem 4 (length A + 28) = ret (max_stack_size w)"
    using peek_append [of 4 "length A + 28" ?head "max_stack_size w"] by (simp add: parts)
  have mem: "?mem = (?head @ ?l max_stack_size) @ ?b @ program_string w @ 0 # R"
    "?mem = (?head @ ?l max_stack_size @ ?b) @ program_string w @ 0 # R" by (simp_all add: parts)
  have b: "peek ?mem 1 (length A + 32) = ret (if allocates_base_pointer w then 255 else 0 :: u8)"
    unfolding mem(1) by (simp add: peek_def le_word_def)
  have "length A + 33 = length (?head @ ?l max_stack_size @ ?b)" by simp
  then have str: "cstring ?mem (length A + 33) = ret (program_string w)"
    unfolding mem(2) by (simp only: cstring_append [OF assms])
  show ?thesis unfolding CopyWFI_def by (simp only: u u0 u1 u2 u3 u4 u5 b str bindc_ret) simp
qed

lemma CopyWFI_at:
  assumes "0 \<notin> set (program_string w)" "p + WFI_SizeOf w \<le> length mem" "take (WFI_SizeOf w) (drop p mem) = wfi_bytes w"
  shows "CopyWFI mem p = ret (w\<lparr>wfi_valid := - 1\<rparr>)"
proof -
  have "length (take p mem) = p" using assms(2) by simp
  with CopyWFI_append [OF assms(1), of "take p mem" "drop (p + WFI_SizeOf w) mem"] block_split [OF assms(2,3)]
  show ?thesis by simp
qed

text \<open>Retrieval of a frame record from a block, with the record copied out of it.\<close>

definition lookup_frame :: "u8 list \<Rightarrow> MemAddr \<Rightarrow> WindowsFrameInfo option comp" where
  "lookup_frame mem a =
     bindc (StaticContained_new mem 0) (\<lambda>s.
     bindc (StaticContained_RetrieveRange mem s a) (\<lambda>r.
     case r of None \<Rightarrow> ret None | Some p \<Rightarrow> bindc (deref p) (\<lambda>p. bindc (CopyWFI mem p) (\<lambda>w. ret (Some w)))))"

text \<open>All ranges of a tree hold records, without zero bytes in their programs.\<close>

definition frames_ok :: "(MemAddr, WindowsFrameInfo option) ContainedRangeMap \<Rightarrow> bool" where
  "frames_ok t \<longleftrightarrow> contained_good (case_option True (\<lambda>w. 0 \<notin> set (program_string w))) t \<and>
     (\<forall>(b, h, e) \<in> desc t. e \<noteq> None)"

lemma contained_good_entries:
  "contained_good good t \<Longrightarrow> (b, h, e) \<in> desc t \<Longrightarrow> good e"
proof (induction "size t" arbitrary: t rule: less_induct)
  case less
  obtain c where c: "c \<in> set (crm_children t)" "(b, h, e) \<in> family c" using less(3) by (auto simp: desc_children)
  then have "contained_good good (snd c)" using less(2) by (auto simp: contained_good_children [of good t] good_map_def)
  with c less(1) [OF size_in_children [OF c(1)]] show ?case
    by (auto simp: contained_good_children [of good "snd c"] elim!: family_cases)
qed

text \<open>C35: A consistent tree of frame records that fits below 4 GB, written by the serializer of contained ranges and read back
  with StaticContainedRangeMap and CopyWFI, returns for every address the record that the tree returns,
  with all its fields marked as valid.\<close>

theorem ContainedRangeMapSerializer_roundtrip:
  assumes ok: "crm_ok t" and frames: "frames_ok t" and small: "Contained_SizeOf (linked_SizeOf WFI_SizeOf) t < 2 ^ 32"
  shows "bindc (Contained_Serialize (linked_SizeOf WFI_SizeOf) (linked_Write WFI_Write) fill t)
           (\<lambda>(mem, n). lookup_frame mem a) =
         ret (map_option (\<lambda>w. (the w)\<lparr>wfi_valid := - 1\<rparr>) (ContainedRangeMap_RetrieveRange a t))"
proof -
  let ?good = "case_option True (\<lambda>w. 0 \<notin> set (program_string w))"
  let ?mem = "contained_bytes (linked_SizeOf WFI_SizeOf) (case_option [] wfi_bytes) t"
  have good: "contained_good ?good t" using frames by (simp add: frames_ok_def)
  note ser = wfi_ptr.contained_Serialize [OF good small, of fill]
  have len: "length ?mem = Contained_SizeOf (linked_SizeOf WFI_SizeOf) t" by (rule wfi_tree.size_bytes [OF good])
  note new = wfi_ptr.contained_node(5) [OF good small ok, of 0 ?mem]
  obtain r where r: "StaticContained_RetrieveRange ?mem (contained_view (linked_SizeOf WFI_SizeOf) t ?mem 0) a = ret r"
    "rel_option (entry_at (linked_SizeOf WFI_SizeOf) (case_option [] wfi_bytes) ?mem) (ContainedRangeMap_RetrieveRange a t) r"
    using wfi_ptr.contained_retrieve [OF good small ok, of 0 ?mem a] len by auto
  show ?thesis
  proof (cases "ContainedRangeMap_RetrieveRange a t")
    case None
    then show ?thesis using r new by (simp add: ser lookup_frame_def len)
  next
    case (Some e)
    then obtain b h where "(b, h, e) \<in> desc t" using Retrieve_smallest [OF ok Some] by (auto simp: smallest_at_def)
    moreover from this have "e \<noteq> None" using frames by (auto simp: frames_ok_def)
    ultimately obtain w where w: "e = Some w" "0 \<notin> set (program_string w)"
      using contained_good_entries [OF good] by fastforce
    obtain q where q: "r = Some q" "entry_at (linked_SizeOf WFI_SizeOf) (case_option [] wfi_bytes) ?mem e q"
      using r(2) Some by (auto simp: option_rel_Some1)
    have "linked_SizeOf WFI_SizeOf e \<noteq> 0" by (simp add: w linked_SizeOf_def WFI_SizeOf_def)
    then obtain p where p: "q = Some p" "p + WFI_SizeOf w \<le> length ?mem" "take (WFI_SizeOf w) (drop p ?mem) = wfi_bytes w"
      using q(2) by (auto simp: entry_at_def w linked_SizeOf_def)
    show ?thesis
      using new Some by (simp add: ser lookup_frame_def len r(1) q(1) p(1) CopyWFI_at [OF w(2) p(2,3)] w)
  qed
qed

text \<open>A frame record with a second one for an inner range.\<close>

definition frame_of :: "u32 \<Rightarrow> u8 list \<Rightarrow> WindowsFrameInfo" where
  "frame_of n str = \<lparr>wfi_type = 4, wfi_valid = - 1, prolog_size = n, epilog_size = 0, wfi_parameter_size = 8,
     saved_register_size = 4, local_size = 16, max_stack_size = 0, allocates_base_pointer = False, program_string = str\<rparr>"

definition nested_frames :: "(MemAddr, WindowsFrameInfo option) ContainedRangeMap" where
  "nested_frames = CRMap 0 None (Some
     [(0x1FFF, CRMap 0x1000 (Some (frame_of 1 [36])) (Some [(0x14FF, CRMap 0x1400 (Some (frame_of 2 [37])) None)]))])"

theorem ContainedRangeMapSerializer_roundtrip_witness:
  "bindc (Contained_Serialize (linked_SizeOf WFI_SizeOf) (linked_Write WFI_Write) (\<lambda>_. 0xCC) nested_frames)
     (\<lambda>(mem, n). lookup_frame mem 0x1410) = ret (Some (frame_of 2 [37]))"
proof -
  have "crm_ok nested_frames" by (simp add: nested_frames_def span_ok_Cons encloses_def)
  moreover have "frames_ok nested_frames" by (simp add: frames_ok_def nested_frames_def frame_of_def)
  moreover have "Contained_SizeOf (linked_SizeOf WFI_SizeOf) nested_frames < 2 ^ 32"
    by (simp add: nested_frames_def linked_SizeOf_def WFI_SizeOf_def Simple_SizeOf_def string_SizeOf_def frame_of_def)
  moreover have "ContainedRangeMap_RetrieveRange 0x1410 nested_frames = Some (Some (frame_of 2 [37]))"
    by (simp add: nested_frames_def ContainedRangeMap_RetrieveRange.simps lower_bound_def)
  ultimately show ?thesis
    using ContainedRangeMapSerializer_roundtrip [of nested_frames "\<lambda>_. 0xCC" "0x1410"]
    by (simp add: frame_of_def)
qed

end
