(* ===== verification/Postfix_Evaluator.thy ===== *)
theory Postfix_Evaluator
  imports Std_Map "HOL-Library.Char_ord" "HOL-Library.List_Lexorder"
begin

unbundle bit_operations_syntax

text \<open>
  \<^verbatim>\<open>PostfixEvaluator\<close> of google-breakpad (\<^verbatim>\<open>postfix_evaluator.h\<close>, \<^verbatim>\<open>postfix_evaluator-inl.h\<close>): the
  evaluation of the postfix programs of frame records.  The template parameter \<^verbatim>\<open>ValueType\<close> is a
  word of any width.  The region of memory, an abstract interface of the code, is a function from
  addresses to values that fails where no memory is mapped; \<open>None\<close> is the null pointer.  The
  stack is a list with its top in front.
\<close>

type_synonym 'w dict = "(string, 'w word) std_map"
type_synonym validity = "(string, bool) std_map"
type_synonym 'w region = "'w word \<Rightarrow> 'w word option"

section \<open>Numbers in streams\<close>

text \<open>Extraction of an unsigned number from a stream, decimal: an optional sign, as in \<^verbatim>\<open>strtoul\<close>, and
  the digits up to the first other character; a number beyond the range of the type fails.\<close>

definition is_digit :: "char \<Rightarrow> bool" where
  "is_digit c \<longleftrightarrow> 48 \<le> (of_char c :: nat) \<and> (of_char c :: nat) \<le> 57"

definition digits_value :: "string \<Rightarrow> nat" where
  "digits_value ds = foldl (\<lambda>a c. 10 * a + (of_char c - 48)) 0 ds"

definition read_sign :: "string \<Rightarrow> bool \<times> string" where
  "read_sign s =
     (case s of [] \<Rightarrow> (False, [])
      | c # cs \<Rightarrow> if c = CHR ''-'' then (True, cs) else if c = CHR ''+'' then (False, cs) else (False, s))"

definition read_unsigned :: "string \<Rightarrow> ('w::len word \<times> string) option" where
  "read_unsigned s =
     (let (neg, r) = read_sign s;
          ds = takeWhile is_digit r; n = digits_value ds in
      if ds = [] \<or> n \<ge> 2 ^ LENGTH('w) then None
      else Some (if neg then - of_nat n else of_nat n, dropWhile is_digit r))"

text \<open>Insertion of a number into a stream.\<close>

fun show_nat :: "nat \<Rightarrow> string" where
  "show_nat n = (if n < 10 then [char_of (48 + n)] else show_nat (n div 10) @ [char_of (48 + n mod 10)])"

declare show_nat.simps [simp del]

definition show_word :: "'w::len word \<Rightarrow> string" where
  "show_word w = show_nat (unat w)"

section \<open>The stack\<close>

datatype 'v PopResult =
    POP_RESULT_FAIL
  | POP_RESULT_VALUE 'v
  | POP_RESULT_IDENTIFIER string

text \<open>The literal a token stands for: a leading sign is taken off, the rest has to be a number.  The
  flag tells whether the sign was there.\<close>

definition literal :: "string \<Rightarrow> (bool \<times> 'w::len word) option" where
  "literal token =
     (let negative = (token \<noteq> [] \<and> hd token = CHR ''-'');
          rest = (if negative then tl token else token) in
      case read_unsigned rest of
        None \<Rightarrow> None
      | Some (v, after) \<Rightarrow> if after = [] then Some (negative, v) else None)"

text \<open>\<open>wanted\<close> tells whether the pointer \<^verbatim>\<open>value\<close> is set; without it a negative literal is negated
  through the null pointer.\<close>

definition PopValueOrIdentifier :: "bool \<Rightarrow> string list \<Rightarrow> ('w::len word PopResult \<times> string list) comp" where
  "PopValueOrIdentifier wanted stack =
     (case stack of
        [] \<Rightarrow> ret (POP_RESULT_FAIL, stack)
      | token # stack \<Rightarrow>
          (case literal token of
             Some (negative, lit) \<Rightarrow>
               if negative \<and> \<not> wanted then fail NullDeref
               else ret (POP_RESULT_VALUE (if negative then - lit else lit), stack)
           | None \<Rightarrow> ret (POP_RESULT_IDENTIFIER token, stack)))"

text \<open>A value, or \<open>None\<close> for the return value \<^verbatim>\<open>false\<close>.\<close>

definition PopValue :: "'w::len dict option \<Rightarrow> string list \<Rightarrow> ('w word option \<times> string list) comp" where
  "PopValue dictionary stack =
     bindc (PopValueOrIdentifier True stack) (\<lambda>(result, stack).
     case result of
       POP_RESULT_FAIL \<Rightarrow> ret (None, stack)
     | POP_RESULT_VALUE v \<Rightarrow> ret (Some v, stack)
     | POP_RESULT_IDENTIFIER token \<Rightarrow>
         bindc (deref dictionary) (\<lambda>d. ret (map_find token d, stack)))"

definition PopValues :: "'w::len dict option \<Rightarrow> string list \<Rightarrow> (('w word \<times> 'w word) option \<times> string list) comp" where
  "PopValues dictionary stack =
     bindc (PopValue dictionary stack) (\<lambda>(v2, stack).
     case v2 of None \<Rightarrow> ret (None, stack)
     | Some value2 \<Rightarrow>
         bindc (PopValue dictionary stack) (\<lambda>(v1, stack).
         ret (map_option (\<lambda>value1. (value1, value2)) v1, stack)))"

definition PushValue :: "'w::len word \<Rightarrow> string list \<Rightarrow> string list" where
  "PushValue value stack = show_word value # stack"

section \<open>Evaluation\<close>

datatype BinaryOperation =
    BINARY_OP_ADD | BINARY_OP_SUBTRACT | BINARY_OP_MULTIPLY
  | BINARY_OP_DIVIDE_QUOTIENT | BINARY_OP_DIVIDE_MODULUS | BINARY_OP_ALIGN

definition operation_of :: "string \<Rightarrow> BinaryOperation option" where
  "operation_of token =
     (if token = ''+'' then Some BINARY_OP_ADD
      else if token = ''-'' then Some BINARY_OP_SUBTRACT
      else if token = ''*'' then Some BINARY_OP_MULTIPLY
      else if token = ''/'' then Some BINARY_OP_DIVIDE_QUOTIENT
      else if token = ''%'' then Some BINARY_OP_DIVIDE_MODULUS
      else if token = ''@'' then Some BINARY_OP_ALIGN
      else None)"

definition binary :: "BinaryOperation \<Rightarrow> 'w::len word \<Rightarrow> 'w word \<Rightarrow> 'w word comp" where
  "binary operation operand1 operand2 =
     (case operation of
        BINARY_OP_ADD \<Rightarrow> ret (operand1 + operand2)
      | BINARY_OP_SUBTRACT \<Rightarrow> ret (operand1 - operand2)
      | BINARY_OP_MULTIPLY \<Rightarrow> ret (operand1 * operand2)
      | BINARY_OP_DIVIDE_QUOTIENT \<Rightarrow> if operand2 = 0 then fail DivZero else ret (operand1 div operand2)
      | BINARY_OP_DIVIDE_MODULUS \<Rightarrow> if operand2 = 0 then fail DivZero else ret (operand1 mod operand2)
      | BINARY_OP_ALIGN \<Rightarrow> ret (operand1 AND ((- 1) XOR (operand2 - 1))))"

record 'w PostfixEvaluator =
  dictionary :: "(string, 'w) std_map option"
  memory :: "('w \<Rightarrow> 'w option) option"
  stack :: "string list"

type_synonym 'w evaluator = "'w word PostfixEvaluator"

text \<open>The dictionary is shared with the caller; \<open>assigned\<close> is its set of assigned names, or \<^verbatim>\<open>NULL\<close>.\<close>

definition EvaluateToken ::
    "string \<Rightarrow> 'w::len evaluator \<Rightarrow> validity option \<Rightarrow> (bool \<times> 'w evaluator \<times> validity option) comp" where
  "EvaluateToken token ev assigned =
     (case operation_of token of
        Some operation \<Rightarrow>
          bindc (PopValues (dictionary ev) (stack ev)) (\<lambda>(vs, st).
          case vs of None \<Rightarrow> ret (False, ev\<lparr>stack := st\<rparr>, assigned)
          | Some (operand1, operand2) \<Rightarrow>
              bindc (binary operation operand1 operand2) (\<lambda>result.
              ret (True, ev\<lparr>stack := PushValue result st\<rparr>, assigned)))
      | None \<Rightarrow>
          if token = ''^'' then
            (case memory ev of None \<Rightarrow> ret (False, ev, assigned)
             | Some region \<Rightarrow>
                 bindc (PopValue (dictionary ev) (stack ev)) (\<lambda>(a, st).
                 case a of None \<Rightarrow> ret (False, ev\<lparr>stack := st\<rparr>, assigned)
                 | Some address \<Rightarrow>
                     (case region address of None \<Rightarrow> ret (False, ev\<lparr>stack := st\<rparr>, assigned)
                      | Some value \<Rightarrow> ret (True, ev\<lparr>stack := PushValue value st\<rparr>, assigned))))
          else if token = ''='' then
            bindc (PopValue (dictionary ev) (stack ev)) (\<lambda>(v, st).
            case v of None \<Rightarrow> ret (False, ev\<lparr>stack := st\<rparr>, assigned)
            | Some value \<Rightarrow>
                bindc (PopValueOrIdentifier False st :: ('w word PopResult \<times> string list) comp) (\<lambda>(result, st).
                case result of
                  POP_RESULT_IDENTIFIER identifier \<Rightarrow>
                    if identifier = [] \<or> hd identifier \<noteq> CHR ''$'' then ret (False, ev\<lparr>stack := st\<rparr>, assigned)
                    else
                      bindc (deref (dictionary ev)) (\<lambda>d.
                      ret (True, ev\<lparr>stack := st, dictionary := Some (map_assign identifier value d)\<rparr>,
                           map_option (map_assign identifier True) assigned))
                | _ \<Rightarrow> ret (False, ev\<lparr>stack := st\<rparr>, assigned)))
          else ret (True, ev\<lparr>stack := token # stack ev\<rparr>, assigned))"

text \<open>The tokens of a stream: maximal parts without white space.\<close>

definition is_space :: "char \<Rightarrow> bool" where
  "is_space c \<longleftrightarrow> c = CHR '' '' \<or> 9 \<le> (of_char c :: nat) \<and> (of_char c :: nat) \<le> 13"

function stream_tokens :: "string \<Rightarrow> string list" where
  "stream_tokens s =
     (let t = dropWhile is_space s in
      if t = [] then [] else takeWhile (\<lambda>c. \<not> is_space c) t # stream_tokens (dropWhile (\<lambda>c. \<not> is_space c) t))"
  by pat_completeness auto
termination
proof (relation "measure length", goal_cases)
  case (2 s t)
  then have "\<not> is_space (hd t)" using hd_dropWhile [of is_space s] by simp
  with 2(2) have "length (dropWhile (\<lambda>c. \<not> is_space c) t) < length t"
    by (cases t) (simp_all add: length_dropWhile_le le_imp_less_Suc)
  also have "length t \<le> length s" using 2(1) by (simp add: length_dropWhile_le)
  finally show ?case by simp
qed simp

declare stream_tokens.simps [simp del]

fun EvaluateTokens ::
    "string list \<Rightarrow> 'w::len evaluator \<Rightarrow> validity option \<Rightarrow> (bool \<times> 'w evaluator \<times> validity option) comp" where
  "EvaluateTokens [] ev assigned = ret (True, ev, assigned)"
| "EvaluateTokens (token # tokens) ev assigned =
     (if length token > 1 \<and> hd token = CHR ''=''
      then bindc (EvaluateToken ''='' ev assigned) (\<lambda>(ok, ev, assigned).
           if \<not> ok then ret (False, ev, assigned)
           else bindc (EvaluateToken (tl token) ev assigned) (\<lambda>(ok, ev, assigned).
                if \<not> ok then ret (False, ev, assigned) else EvaluateTokens tokens ev assigned))
      else bindc (EvaluateToken token ev assigned) (\<lambda>(ok, ev, assigned).
           if \<not> ok then ret (False, ev, assigned) else EvaluateTokens tokens ev assigned))"

declare EvaluateTokens.simps(2) [simp del]

definition EvaluateInternal ::
    "string \<Rightarrow> 'w::len evaluator \<Rightarrow> validity option \<Rightarrow> (bool \<times> 'w evaluator \<times> validity option) comp" where
  "EvaluateInternal expression ev assigned = EvaluateTokens (stream_tokens expression) ev assigned"

text \<open>The stack is cleared when the evaluation returns.\<close>

definition Evaluate ::
    "string \<Rightarrow> 'w::len evaluator \<Rightarrow> validity option \<Rightarrow> (bool \<times> 'w evaluator \<times> validity option) comp" where
  "Evaluate expression ev assigned =
     bindc (EvaluateInternal expression ev assigned) (\<lambda>(ok, ev, assigned).
     ret (ok \<and> stack ev = [], ev\<lparr>stack := []\<rparr>, assigned))"

definition EvaluateForValue :: "string \<Rightarrow> 'w::len evaluator \<Rightarrow> ('w word option \<times> 'w evaluator) comp" where
  "EvaluateForValue expression ev =
     bindc (EvaluateInternal expression ev None) (\<lambda>(ok, ev, _).
     if \<not> ok then ret (None, ev\<lparr>stack := []\<rparr>)
     else if length (stack ev) \<noteq> 1 then ret (None, ev\<lparr>stack := []\<rparr>)
     else bindc (PopValue (dictionary ev) (stack ev)) (\<lambda>(v, st). ret (v, ev\<lparr>stack := []\<rparr>)))"

section \<open>Numbers survive the stack\<close>

lemma of_char_digit: "n < 10 \<Longrightarrow> (of_char (char_of (48 + n :: nat)) :: nat) = 48 + n"
  by (simp add: of_char_of)

lemma digits_value_append: "digits_value (ds @ [c]) = 10 * digits_value ds + (of_char c - 48)"
  by (simp add: digits_value_def)

lemma show_nat_digits: "\<forall>c \<in> set (show_nat n). is_digit c"
proof (induction n rule: show_nat.induct)
  case (1 n)
  then show ?case
    by (subst show_nat.simps) (auto simp: is_digit_def of_char_digit)
qed

lemma show_nat_value: "digits_value (show_nat n) = n"
proof (induction n rule: show_nat.induct)
  case (1 n)
  then show ?case
    by (subst show_nat.simps) (auto simp: digits_value_append of_char_digit, simp add: digits_value_def of_char_digit)
qed

lemma show_nat_not_Nil [simp]: "show_nat n \<noteq> []"
  by (subst show_nat.simps) simp

lemma hd_show_nat: "is_digit (hd (show_nat n))"
  using show_nat_digits [of n] by (cases "show_nat n") auto

lemma digit_signs: "is_digit c \<Longrightarrow> c \<noteq> CHR ''-'' \<and> c \<noteq> CHR ''+''"
  by (auto simp: is_digit_def)

lemma read_unsigned_show: "read_unsigned (show_word (w :: 'w::len word)) = Some (w, [])"
proof -
  have tw: "takeWhile is_digit (show_nat (unat w)) = show_nat (unat w)"
    "dropWhile is_digit (show_nat (unat w)) = []"
    using show_nat_digits by (auto simp: takeWhile_eq_all_conv dropWhile_eq_Nil_conv)
  have "read_sign (show_nat (unat w)) = (False, show_nat (unat w))"
    using hd_show_nat [of "unat w"] show_nat_not_Nil [of "unat w"]
    by (auto simp: read_sign_def dest: digit_signs split: list.split)
  moreover have "\<not> unat w \<ge> 2 ^ LENGTH('w)" unfolding not_le by (rule unsigned_less)
  ultimately show ?thesis by (simp add: read_unsigned_def show_word_def tw show_nat_value)
qed

lemma literal_show [simp]: "literal (show_word w) = Some (False, w)"
proof -
  have "hd (show_word w) \<noteq> CHR ''-''" using hd_show_nat [of "unat w"] by (auto simp: show_word_def is_digit_def)
  then show ?thesis by (simp add: literal_def read_unsigned_show)
qed

section \<open>Expressions\<close>

text \<open>What a program means: expressions over numbers, names, the binary operators and dereference.\<close>

datatype 'v expr =
    Num 'v
  | Name string
  | Bin BinaryOperation "'v expr" "'v expr"
  | Deref "'v expr"

definition op_token :: "BinaryOperation \<Rightarrow> string" where
  "op_token operation =
     (case operation of
        BINARY_OP_ADD \<Rightarrow> ''+'' | BINARY_OP_SUBTRACT \<Rightarrow> ''-'' | BINARY_OP_MULTIPLY \<Rightarrow> ''*''
      | BINARY_OP_DIVIDE_QUOTIENT \<Rightarrow> ''/'' | BINARY_OP_DIVIDE_MODULUS \<Rightarrow> ''%'' | BINARY_OP_ALIGN \<Rightarrow> ''@'')"

fun program :: "'w::len word expr \<Rightarrow> string list" where
  "program (Num w) = [show_word w]"
| "program (Name x) = [x]"
| "program (Bin operation a b) = program a @ program b @ [op_token operation]"
| "program (Deref a) = program a @ [''^'']"

text \<open>The value, where it is defined: names are known, memory is mapped, divisors are not zero.\<close>

fun meaning :: "'w::len dict \<Rightarrow> 'w region \<Rightarrow> 'w word expr \<Rightarrow> 'w word option" where
  "meaning d r (Num w) = Some w"
| "meaning d r (Name x) = map_find x d"
| "meaning d r (Bin operation a b) =
     (case (meaning d r a, meaning d r b) of
        (Some v1, Some v2) \<Rightarrow> (case binary operation v1 v2 of Some (Inr v) \<Rightarrow> Some v | _ \<Rightarrow> None)
      | _ \<Rightarrow> None)"
| "meaning d r (Deref a) = (case meaning d r a of None \<Rightarrow> None | Some v \<Rightarrow> r v)"

text \<open>Tokens that are pushed, and names: pushed tokens that are not numbers.\<close>

definition pushed :: "string \<Rightarrow> bool" where
  "pushed t \<longleftrightarrow> operation_of t = None \<and> t \<noteq> ''^'' \<and> t \<noteq> ''='' \<and> t \<noteq> [] \<and> hd t \<noteq> CHR ''='' \<and> (\<forall>c \<in> set t. \<not> is_space c)"

definition is_name :: "'w::len itself \<Rightarrow> string \<Rightarrow> bool" where
  "is_name w x \<longleftrightarrow> pushed x \<and> literal x = (None :: (bool \<times> 'w word) option)"

fun names_ok :: "'w::len word expr \<Rightarrow> bool" where
  "names_ok (Num w) = True"
| "names_ok (Name x) = is_name TYPE('w) x"
| "names_ok (Bin operation a b) = (names_ok a \<and> names_ok b)"
| "names_ok (Deref a) = names_ok a"

lemma digit_plain: "is_digit c \<Longrightarrow> c \<noteq> CHR ''='' \<and> c \<noteq> CHR ''^'' \<and> \<not> is_space c"
  by (auto simp: is_digit_def is_space_def)

lemma digit_not_operator: "is_digit (hd t) \<Longrightarrow> operation_of t = None"
  by (auto simp: operation_of_def is_digit_def)

lemma pushed_show [simp]: "pushed (show_word w)"
proof -
  have "is_digit (hd (show_word w))" "show_word w \<noteq> []" "\<forall>c \<in> set (show_word w). is_digit c"
    using hd_show_nat show_nat_digits by (auto simp: show_word_def)
  then show ?thesis
    using digit_plain digit_not_operator [of "show_word w"] by (fastforce simp: pushed_def)
qed

text \<open>The value of a token of the stack.\<close>

definition token_value :: "'w::len dict \<Rightarrow> string \<Rightarrow> 'w word option" where
  "token_value d t =
     (case literal t of Some (negative, v) \<Rightarrow> Some (if negative then - v else v) | None \<Rightarrow> map_find t d)"

lemma PopValue_token: "PopValue (Some d) (t # st) = ret (token_value d t, st)"
  by (simp add: PopValue_def PopValueOrIdentifier_def token_value_def split: option.split)

lemma token_value_show [simp]: "token_value d (show_word w) = Some w"
  by (simp add: token_value_def)

lemma operation_of_token [simp]: "operation_of (op_token operation) = Some operation"
  by (cases operation) (simp_all add: operation_of_def op_token_def)

lemma op_token_single: "length (op_token operation) = 1"
  by (cases operation) (simp_all add: op_token_def)

lemma EvaluateToken_pushed:
  "pushed t \<Longrightarrow> EvaluateToken t ev assigned = ret (True, ev\<lparr>stack := t # stack ev\<rparr>, assigned)"
  by (simp add: EvaluateToken_def pushed_def)

lemma EvaluateTokens_pushed:
  "pushed t \<Longrightarrow> EvaluateTokens (t # ts) ev assigned = EvaluateTokens ts (ev\<lparr>stack := t # stack ev\<rparr>) assigned"
  by (simp add: EvaluateTokens.simps(2) EvaluateToken_pushed) (simp add: pushed_def)

lemma EvaluateTokens_binary:
  assumes "dictionary ev = Some d" "stack ev = t2 # t1 # st" "token_value d t1 = Some v1" "token_value d t2 = Some v2"
    and "binary operation v1 v2 = ret v"
  shows "EvaluateTokens (op_token operation # ts) ev assigned =
           EvaluateTokens ts (ev\<lparr>stack := show_word v # st\<rparr>) assigned"
  using assms
  by (simp add: EvaluateTokens.simps(2) op_token_single EvaluateToken_def PopValues_def PopValue_token PushValue_def)

lemma EvaluateTokens_deref:
  assumes "dictionary ev = Some d" "memory ev = Some r" "stack ev = t # st" "token_value d t = Some a" "r a = Some v"
  shows "EvaluateTokens (''^'' # ts) ev assigned = EvaluateTokens ts (ev\<lparr>stack := show_word v # st\<rparr>) assigned"
  using assms by (simp add: EvaluateTokens.simps(2) EvaluateToken_def operation_of_def PopValue_token PushValue_def)

lemma EvaluateTokens_assign:
  assumes "dictionary ev = Some d" "stack ev = t # x # st" "token_value d t = Some (v :: 'w::len word)"
    and "is_name TYPE('w) x" "hd x = CHR ''$''"
  shows "EvaluateTokens (''='' # ts) ev assigned =
    EvaluateTokens ts (ev\<lparr>stack := st, dictionary := Some (map_assign x v d)\<rparr>) (map_option (map_assign x True) assigned)"
  using assms
  by (simp add: EvaluateTokens.simps(2) EvaluateToken_def operation_of_def PopValue_token PopValueOrIdentifier_def is_name_def pushed_def)

text \<open>The program of an expression leaves one token with its value on the stack.\<close>

lemma EvaluateTokens_program:
  fixes e :: "'w::len word expr"
  assumes "meaning d r e = Some v" "names_ok e" "dictionary ev = Some d" "memory ev = Some r"
  shows "\<exists>t. token_value d t = Some v \<and>
    EvaluateTokens (program e @ ts) ev assigned = EvaluateTokens ts (ev\<lparr>stack := t # stack ev\<rparr>) assigned"
  using assms
proof (induction e arbitrary: v ts ev)
  case (Num w)
  then show ?case by (intro exI [of _ "show_word w"]) (simp add: EvaluateTokens_pushed)
next
  case (Name x)
  then show ?case
    by (intro exI [of _ x]) (simp add: EvaluateTokens_pushed is_name_def token_value_def)
next
  case (Bin operation a b)
  obtain v1 v2 where v: "meaning d r a = Some v1" "meaning d r b = Some v2" "binary operation v1 v2 = ret v"
    using Bin.prems(1) by (auto simp: ret_def split: option.splits sum.splits)
  obtain t1 where t1: "token_value d t1 = Some v1"
    "EvaluateTokens (program a @ program b @ op_token operation # ts) ev assigned =
       EvaluateTokens (program b @ op_token operation # ts) (ev\<lparr>stack := t1 # stack ev\<rparr>) assigned"
    using Bin.IH(1) [OF v(1)] Bin.prems by auto
  obtain t2 where t2: "token_value d t2 = Some v2"
    "EvaluateTokens (program b @ op_token operation # ts) (ev\<lparr>stack := t1 # stack ev\<rparr>) assigned =
       EvaluateTokens (op_token operation # ts) (ev\<lparr>stack := t2 # t1 # stack ev\<rparr>) assigned"
    using Bin.IH(2) [OF v(2), of "ev\<lparr>stack := t1 # stack ev\<rparr>" "op_token operation # ts"] Bin.prems by auto
  have "EvaluateTokens (op_token operation # ts) (ev\<lparr>stack := t2 # t1 # stack ev\<rparr>) assigned =
      EvaluateTokens ts (ev\<lparr>stack := show_word v # stack ev\<rparr>) assigned"
    using EvaluateTokens_binary [of "ev\<lparr>stack := t2 # t1 # stack ev\<rparr>" d t2 t1 "stack ev" v1 v2 operation v]
      t1(1) t2(1) v(3) Bin.prems(3) by simp
  then show ?case using t1(2) t2(2) by (intro exI [of _ "show_word v"]) simp
next
  case (Deref a)
  obtain w where w: "meaning d r a = Some w" "r w = Some v" using Deref.prems(1) by (auto split: option.splits)
  obtain t where t: "token_value d t = Some w"
    "EvaluateTokens (program a @ ''^'' # ts) ev assigned = EvaluateTokens (''^'' # ts) (ev\<lparr>stack := t # stack ev\<rparr>) assigned"
    using Deref.IH [OF w(1)] Deref.prems by auto
  have "EvaluateTokens (''^'' # ts) (ev\<lparr>stack := t # stack ev\<rparr>) assigned =
      EvaluateTokens ts (ev\<lparr>stack := show_word v # stack ev\<rparr>) assigned"
    using EvaluateTokens_deref [of "ev\<lparr>stack := t # stack ev\<rparr>" d r t "stack ev" w v] t(1) w(2) Deref.prems(3,4) by simp
  then show ?case using t(2) by (intro exI [of _ "show_word v"]) simp
qed

section \<open>Texts of programs\<close>

fun unwords :: "string list \<Rightarrow> string" where
  "unwords [] = []"
| "unwords [t] = t"
| "unwords (t # ts) = t @ CHR '' '' # unwords ts"

definition word_ok :: "string \<Rightarrow> bool" where
  "word_ok t \<longleftrightarrow> t \<noteq> [] \<and> (\<forall>c \<in> set t. \<not> is_space c)"

lemma word_scan:
  assumes "word_ok t"
  shows "dropWhile is_space (t @ s) = t @ s"
    and "takeWhile (\<lambda>c. \<not> is_space c) (t @ CHR '' '' # s) = t" "dropWhile (\<lambda>c. \<not> is_space c) (t @ CHR '' '' # s) = CHR '' '' # s"
    and "takeWhile (\<lambda>c. \<not> is_space c) t = t" "dropWhile (\<lambda>c. \<not> is_space c) t = []"
proof -
  have nb: "\<And>c. c \<in> set t \<Longrightarrow> \<not> is_space c" "t \<noteq> []" using assms by (auto simp: word_ok_def)
  have blank: "is_space CHR '' ''" by (simp add: is_space_def)
  show "dropWhile is_space (t @ s) = t @ s" using nb by (cases t) auto
  show "takeWhile (\<lambda>c. \<not> is_space c) (t @ CHR '' '' # s) = t" "takeWhile (\<lambda>c. \<not> is_space c) t = t"
    using nb(1) blank by (simp_all add: takeWhile_append2 takeWhile_eq_all_conv)
  show "dropWhile (\<lambda>c. \<not> is_space c) (t @ CHR '' '' # s) = CHR '' '' # s" "dropWhile (\<lambda>c. \<not> is_space c) t = []"
    using nb(1) blank by (simp_all add: dropWhile_append2 dropWhile_eq_Nil_conv)
qed

lemma stream_tokens_blank: "stream_tokens (CHR '' '' # s) = stream_tokens s"
  unfolding stream_tokens.simps [of "CHR '' '' # s"] stream_tokens.simps [of s] by (simp add: is_space_def)

lemma stream_tokens_unwords: "\<forall>t \<in> set ts. word_ok t \<Longrightarrow> stream_tokens (unwords ts) = ts"
proof (induction ts rule: unwords.induct)
  case 1
  then show ?case by (simp add: stream_tokens.simps)
next
  case (2 t)
  then have t: "word_ok t" by simp
  then have "t \<noteq> []" by (simp add: word_ok_def)
  moreover have "dropWhile is_space t = t" using word_scan(1) [OF t, of "[]"] by simp
  moreover have "stream_tokens [] = []" by (simp add: stream_tokens.simps)
  ultimately show ?case
    by (subst stream_tokens.simps) (simp add: Let_def word_scan(4,5) [OF t])
next
  case (3 t t' ts)
  then have t: "word_ok t" by simp
  then have "t \<noteq> []" by (simp add: word_ok_def)
  with word_scan [OF t] 3 show ?case
    by (subst stream_tokens.simps) (simp add: Let_def stream_tokens_blank)
qed

lemma pushed_word: "pushed t \<Longrightarrow> word_ok t"
  by (simp add: pushed_def word_ok_def)

lemma op_token_word: "word_ok (op_token operation)"
  by (cases operation) (simp_all add: op_token_def word_ok_def is_space_def)

lemma program_words: "names_ok e \<Longrightarrow> t \<in> set (program e) \<Longrightarrow> word_ok t"
  by (induction e) (auto simp: pushed_word op_token_word is_name_def, simp add: word_ok_def is_space_def)

section \<open>Properties\<close>

lemma EvaluateForValue_program:
  fixes e :: "'w::len word expr"
  assumes "meaning d r e = Some v" "names_ok e" "dictionary ev = Some d" "memory ev = Some r" "stack ev = []"
  shows "EvaluateForValue (unwords (program e)) ev = ret (Some v, ev)"
proof -
  have "stream_tokens (unwords (program e)) = program e"
    using program_words [OF assms(2)] by (intro stream_tokens_unwords) blast
  moreover obtain t where "token_value d t = Some v" "EvaluateTokens (program e) ev None = ret (True, ev\<lparr>stack := [t]\<rparr>, None)"
    using EvaluateTokens_program [OF assms(1-4), of "[]" None] assms(5) by auto
  ultimately show ?thesis
    using assms(3,5) by (simp add: EvaluateForValue_def EvaluateInternal_def PopValue_token)
qed

text \<open>A program string: assignments of expressions to variables, one after the other.\<close>

fun assigns :: "'w::len dict \<Rightarrow> 'w region \<Rightarrow> (string \<times> 'w word expr) list \<Rightarrow> 'w dict option" where
  "assigns d r [] = Some d"
| "assigns d r ((x, e) # ps) = (case meaning d r e of None \<Rightarrow> None | Some v \<Rightarrow> assigns (map_assign x v d) r ps)"

definition assign_tokens :: "(string \<times> 'w::len word expr) list \<Rightarrow> string list" where
  "assign_tokens ps = concat (map (\<lambda>(x, e). x # program e @ [''='']) ps)"

definition assigns_ok :: "(string \<times> 'w::len word expr) list \<Rightarrow> bool" where
  "assigns_ok ps \<longleftrightarrow> (\<forall>(x, e) \<in> set ps. is_name TYPE('w) x \<and> hd x = CHR ''$'' \<and> names_ok e)"

lemma EvaluateTokens_assigns:
  fixes ps :: "(string \<times> 'w::len word expr) list"
  assumes "assigns d r ps = Some d'" "assigns_ok ps" "dictionary ev = Some d" "memory ev = Some r"
  shows "EvaluateTokens (assign_tokens ps) ev assigned =
    ret (True, ev\<lparr>dictionary := Some d'\<rparr>, map_option (fold (\<lambda>(x, _). map_assign x True) ps) assigned)"
  using assms
proof (induction ps arbitrary: d ev assigned)
  case Nil
  then show ?case by (cases assigned) (simp_all add: assign_tokens_def)
next
  case (Cons p ps)
  obtain x e where p: "p = (x, e)" by (cases p)
  obtain v where v: "meaning d r e = Some v" "assigns (map_assign x v d) r ps = Some d'"
    using Cons.prems(1) by (auto simp: p split: option.splits)
  have ok: "is_name TYPE('w) x" "hd x = CHR ''$''" "names_ok e" "assigns_ok ps" "pushed x"
    using Cons.prems(2) by (auto simp: assigns_ok_def p is_name_def)
  let ?ev = "ev\<lparr>stack := x # stack ev\<rparr>"
  obtain t where t: "token_value d t = Some v"
    "EvaluateTokens (program e @ ''='' # assign_tokens ps) ?ev assigned =
       EvaluateTokens (''='' # assign_tokens ps) (?ev\<lparr>stack := t # stack ?ev\<rparr>) assigned"
    using EvaluateTokens_program [OF v(1) ok(3), of ?ev] Cons.prems(3,4) by auto
  have "EvaluateTokens (assign_tokens (p # ps)) ev assigned =
      EvaluateTokens (program e @ ''='' # assign_tokens ps) ?ev assigned"
    by (simp add: assign_tokens_def p EvaluateTokens_pushed [OF ok(5)])
  also have "\<dots> = EvaluateTokens (''='' # assign_tokens ps) (?ev\<lparr>stack := t # stack ?ev\<rparr>) assigned" by (rule t(2))
  also have "\<dots> = EvaluateTokens (assign_tokens ps) (ev\<lparr>dictionary := Some (map_assign x v d)\<rparr>)
      (map_option (map_assign x True) assigned)"
    using EvaluateTokens_assign [OF _ _ t(1) ok(1,2), of "?ev\<lparr>stack := t # stack ?ev\<rparr>" "stack ev"] Cons.prems(3) by simp
  also have "\<dots> = ret (True, ev\<lparr>dictionary := Some d'\<rparr>,
      map_option (fold (\<lambda>(x, _). map_assign x True) ps) (map_option (map_assign x True) assigned))"
    using Cons.IH [OF v(2) ok(4)] Cons.prems(4) by simp
  finally show ?case by (simp add: p option.map_comp o_def)
qed

lemma assign_words:
  assumes "assigns_ok ps" "t \<in> set (assign_tokens ps)"
  shows "word_ok t"
proof -
  obtain x e where p: "(x, e) \<in> set ps" "t = x \<or> t \<in> set (program e) \<or> t = ''=''"
    using assms(2) by (auto simp: assign_tokens_def)
  then have "is_name TYPE('a) x" "names_ok e" using assms(1) by (auto simp: assigns_ok_def)
  with p(2) show ?thesis
    using program_words pushed_word by (auto simp: is_name_def word_ok_def is_space_def)
qed

text \<open>C29: A program string of assignments, written out with blanks between its tokens, is evaluated as
  it reads: every variable receives the value of its expression in the dictionary that the earlier
  assignments left, the names are marked as assigned, and the stack is empty again.\<close>

theorem Evaluate_assigns:
  fixes ps :: "(string \<times> 'w::len word expr) list"
  assumes "assigns d r ps = Some d'" "assigns_ok ps" "dictionary ev = Some d" "memory ev = Some r" "stack ev = []"
  shows "Evaluate (unwords (assign_tokens ps)) ev assigned =
    ret (True, ev\<lparr>dictionary := Some d'\<rparr>, map_option (fold (\<lambda>(x, _). map_assign x True) ps) assigned)"
proof -
  have "stream_tokens (unwords (assign_tokens ps)) = assign_tokens ps"
    using assign_words [OF assms(2)] by (intro stream_tokens_unwords) blast
  then show ?thesis
    using assms(5) by (simp add: Evaluate_def EvaluateInternal_def EvaluateTokens_assigns [OF assms(1-4)])
qed

text \<open>The return address and the frame of the caller, 32 bits: \<open>$T0 $ebp =  $eip $T0 4 + ^ =\<close>.\<close>

definition frame_program :: "(string \<times> 32 word expr) list" where
  "frame_program = [(''$T0'', Name ''$ebp''), (''$eip'', Deref (Bin BINARY_OP_ADD (Name ''$T0'') (Num 4)))]"

theorem Evaluate_assigns_witness:
  "Evaluate ''$T0 $ebp = $eip $T0 4 + ^ =''
     \<lparr>dictionary = Some [(''$ebp'', 0x1000 :: 32 word)], memory = Some (\<lambda>a. if a = 0x1004 then Some 0xCAFE else None), stack = []\<rparr> None =
   ret (True, \<lparr>dictionary = Some [(''$T0'', 0x1000), (''$ebp'', 0x1000), (''$eip'', 0xCAFE)],
     memory = Some (\<lambda>a. if a = 0x1004 then Some 0xCAFE else None), stack = []\<rparr>, None)"
proof -
  let ?r = "\<lambda>a :: 32 word. if a = 0x1004 then Some (0xCAFE :: 32 word) else None"
  have "show_word (4 :: 32 word) = ''4''" by (simp add: show_word_def show_nat.simps char_of_def bit_iff_odd)
  then have written: "unwords (assign_tokens frame_program) = ''$T0 $ebp = $eip $T0 4 + ^ =''"
    by (simp add: assign_tokens_def frame_program_def op_token_def)
  have sem: "assigns [(''$ebp'', 0x1000)] ?r frame_program = Some [(''$T0'', 0x1000), (''$ebp'', 0x1000), (''$eip'', 0xCAFE)]"
    by (simp add: frame_program_def map_find_def binary_def ret_def less_char_def)
  have ok: "assigns_ok frame_program"
    by (simp add: assigns_ok_def frame_program_def is_name_def pushed_def operation_of_def is_space_def literal_def
        read_unsigned_def read_sign_def is_digit_def)
  from Evaluate_assigns [OF sem ok, of "\<lparr>dictionary = Some [(''$ebp'', 0x1000)], memory = Some ?r, stack = []\<rparr>" None]
  show ?thesis by (simp add: written)
qed

text \<open>An assignment whose target is a negative number does not fail, as one to a positive number
  does, but writes through a null pointer.\<close>

theorem negative_target_faults:
  fixes n v :: "'w::len word" and d :: "'w dict"
  shows "Evaluate (unwords [CHR ''-'' # show_word n, show_word v, ''=''])
           \<lparr>dictionary = Some d, memory = r, stack = []\<rparr> assigned = fail NullDeref"
proof -
  let ?t = "CHR ''-'' # show_word n"
  have ne: "show_word n \<noteq> []" by (simp add: show_word_def)
  then have push: "pushed ?t"
    using pushed_show [of n] by (auto simp: pushed_def operation_of_def is_space_def)
  have lit: "literal ?t = Some (True, n)" by (simp add: literal_def read_unsigned_show)
  have "\<forall>t \<in> set [?t, show_word v, ''='']. word_ok t"
    using pushed_word [OF push] pushed_word [OF pushed_show [of v]] by (simp add: word_ok_def is_space_def)
  then have tokens: "stream_tokens (unwords [?t, show_word v, ''='']) = [?t, show_word v, ''='']"
    by (rule stream_tokens_unwords)
  show ?thesis
    unfolding Evaluate_def EvaluateInternal_def tokens
    by (simp add: EvaluateTokens_pushed [OF push] EvaluateTokens_pushed)
      (simp add: EvaluateTokens.simps(2) EvaluateToken_def operation_of_def PopValue_token PopValueOrIdentifier_def lit)
qed

end
