(* ===== verification/Cfi_Frame_Info.thy ===== *)
theory Cfi_Frame_Info
  imports Postfix_Evaluator
begin

text \<open>
  Rules for the registers of a calling frame, google-breakpad's \<^verbatim>\<open>cfi_frame_info.h\<close>,
  \<^verbatim>\<open>cfi_frame_info.cc\<close> and \<^verbatim>\<open>cfi_frame_info-inl.h\<close>: \<^verbatim>\<open>CFIFrameInfo\<close> with the evaluation and the text
  of its rules, \<^verbatim>\<open>CFIRuleParser\<close> with the handler that fills a \<^verbatim>\<open>CFIFrameInfo\<close>, and
  \<^verbatim>\<open>SimpleCFIWalker\<close>.  Also \<^verbatim>\<open>Tokenize\<close> of \<^verbatim>\<open>tokenize.cc\<close>, which cuts lines with the same
  \<^verbatim>\<open>strtok_r\<close>.
\<close>

section \<open>Rules\<close>

record CFIFrameInfo =
  cfa_rule :: string
  ra_rule :: string
  register_rules :: "(string, string) std_map"

definition CFIFrameInfo_new :: CFIFrameInfo where
  "CFIFrameInfo_new = \<lparr>cfa_rule = [], ra_rule = [], register_rules = []\<rparr>"

definition SetCFARule :: "string \<Rightarrow> CFIFrameInfo \<Rightarrow> CFIFrameInfo" where
  "SetCFARule expression info = info\<lparr>cfa_rule := expression\<rparr>"

definition SetRARule :: "string \<Rightarrow> CFIFrameInfo \<Rightarrow> CFIFrameInfo" where
  "SetRARule expression info = info\<lparr>ra_rule := expression\<rparr>"

definition SetRegisterRule :: "string \<Rightarrow> string \<Rightarrow> CFIFrameInfo \<Rightarrow> CFIFrameInfo" where
  "SetRegisterRule register_name expression info =
     info\<lparr>register_rules := map_assign register_name expression (register_rules info)\<rparr>"

text \<open>Evaluation of one rule with a working copy of the registers; the evaluator starts with an empty
  stack, as every evaluation leaves it.\<close>

definition rule_value :: "'w::len region \<Rightarrow> 'w dict \<Rightarrow> string \<Rightarrow> 'w word option comp" where
  "rule_value mem working rule =
     bindc (EvaluateForValue rule \<lparr>dictionary = Some working, memory = Some mem, stack = []\<rparr>) (\<lambda>(v, ev). ret v)"

fun register_loop ::
    "'w::len region \<Rightarrow> 'w dict \<Rightarrow> 'w word \<Rightarrow> (string, string) std_map \<Rightarrow> 'w dict \<Rightarrow> (bool \<times> 'w dict) comp" where
  "register_loop mem registers cfa [] caller_registers = ret (True, caller_registers)"
| "register_loop mem registers cfa ((reg, rule) # rules) caller_registers =
     bindc (rule_value mem (map_assign ''.cfa'' cfa registers) rule) (\<lambda>v.
     case v of None \<Rightarrow> ret (False, caller_registers)
     | Some value \<Rightarrow> register_loop mem registers cfa rules (map_assign reg value caller_registers))"

definition FindCallerRegs ::
    "CFIFrameInfo \<Rightarrow> 'w::len dict \<Rightarrow> 'w region \<Rightarrow> 'w dict \<Rightarrow> (bool \<times> 'w dict) comp" where
  "FindCallerRegs info registers mem caller_registers =
     (if cfa_rule info = [] \<or> ra_rule info = [] then ret (False, caller_registers)
      else
        bindc (rule_value mem registers (cfa_rule info)) (\<lambda>c.
        case c of None \<Rightarrow> ret (False, [])
        | Some cfa \<Rightarrow>
            bindc (rule_value mem (map_assign ''.cfa'' cfa registers) (ra_rule info)) (\<lambda>a.
            case a of None \<Rightarrow> ret (False, [])
            | Some ra \<Rightarrow>
                bindc (register_loop mem registers cfa (register_rules info) []) (\<lambda>(ok, caller).
                if \<not> ok then ret (False, caller)
                else ret (True, map_assign ''.cfa'' cfa (map_assign ''.ra'' ra caller))))))"

text \<open>The text of the rules: a blank goes in front of every rule but the first.\<close>

definition blank_after :: "string \<Rightarrow> string" where
  "blank_after stream = (if stream \<noteq> [] then stream @ '' '' else stream)"

definition CFIFrameInfo_Serialize :: "CFIFrameInfo \<Rightarrow> string" where
  "CFIFrameInfo_Serialize info =
     (let stream = (if cfa_rule info \<noteq> [] then ''.cfa: '' @ cfa_rule info else []);
          stream = (if ra_rule info \<noteq> [] then blank_after stream @ ''.ra: '' @ ra_rule info else stream) in
      foldl (\<lambda>stream (reg, rule). blank_after stream @ reg @ '': '' @ rule) stream (register_rules info))"

section \<open>The parser\<close>

text \<open>\<^verbatim>\<open>strtok_r\<close>: the next token and the text behind the separator that ended it.\<close>

definition strtok_r :: "(char \<Rightarrow> bool) \<Rightarrow> string \<Rightarrow> (string \<times> string) option" where
  "strtok_r sep s =
     (let t = dropWhile sep s in
      if t = [] then None
      else Some (takeWhile (\<lambda>c. \<not> sep c) t, drop 1 (dropWhile (\<lambda>c. \<not> sep c) t)))"

definition token_breaks :: "char \<Rightarrow> bool" where
  "token_breaks c \<longleftrightarrow> c = CHR '' '' \<or> c = CHR 0x09 \<or> c = CHR 0x0D \<or> c = CHR 0x0A"

lemma strtok_r_shorter: "strtok_r sep s = Some (t, r) \<Longrightarrow> length r < length s"
proof -
  assume "strtok_r sep s = Some (t, r)"
  then have "dropWhile sep s \<noteq> []" "r = drop 1 (dropWhile (\<lambda>c. \<not> sep c) (dropWhile sep s))"
    by (auto simp: strtok_r_def Let_def split: if_splits)
  moreover have "\<not> sep (hd (dropWhile sep s))" using calculation(1) by (rule hd_dropWhile)
  ultimately have "length r < length (dropWhile sep s)"
    by (cases "dropWhile sep s") (auto simp: less_Suc_eq_le intro: order_trans [OF diff_le_self length_dropWhile_le])
  then show ?thesis using length_dropWhile_le [of sep s] by (rule less_le_trans)
qed

definition Report :: "string \<Rightarrow> string \<Rightarrow> CFIFrameInfo \<Rightarrow> bool \<times> CFIFrameInfo" where
  "Report name expression info =
     (if name = [] \<or> expression = [] then (False, info)
      else if name = ''.cfa'' then (True, SetCFARule expression info)
      else if name = ''.ra'' then (True, SetRARule expression info)
      else (True, SetRegisterRule name expression info))"

function Parse_loop :: "string \<Rightarrow> string \<Rightarrow> CFIFrameInfo \<Rightarrow> string \<Rightarrow> bool \<times> CFIFrameInfo" where
  "Parse_loop name expression info cursor =
     (case strtok_r token_breaks cursor of
        None \<Rightarrow> Report name expression info
      | Some (token, cursor') \<Rightarrow>
          if length token \<ge> 1 \<and> last token = CHR '':'' then
            if length token < 2 then (False, info)
            else if name \<noteq> [] \<or> expression \<noteq> [] then
              (let (ok, info) = Report name expression info in
               if \<not> ok then (False, info) else Parse_loop (butlast token) [] info cursor')
            else Parse_loop (butlast token) [] info cursor'
          else Parse_loop name (if expression \<noteq> [] then expression @ '' '' @ token else token) info cursor')"
  by pat_completeness auto
termination
  by (relation "measure (\<lambda>(name, expression, info, cursor). length cursor)") (auto dest: strtok_r_shorter)

declare Parse_loop.simps [simp del]

text \<open>The working copy ends at the first zero of the rule set.\<close>

definition CFIRuleParser_Parse :: "string \<Rightarrow> CFIFrameInfo \<Rightarrow> bool \<times> CFIFrameInfo" where
  "CFIRuleParser_Parse rule_set info = Parse_loop [] [] info (takeWhile (\<lambda>c. c \<noteq> CHR 0x00) rule_set)"

section \<open>The walker\<close>

record ('r) RegisterSet =
  reg_name :: string
  alternate_name :: "string option"
  callee_saves :: bool
  validity_flag :: u32
  context_member :: 'r

text \<open>The context of a machine: the values of its members.  \<^verbatim>\<open>memset\<close> fills them with 0xda bytes.\<close>

definition filled :: "'w::len word" where
  "filled = of_nat (le_nat (replicate (LENGTH('w) div 8) 0xda))"

fun callee_loop :: "'r RegisterSet list \<Rightarrow> u32 \<Rightarrow> ('r \<Rightarrow> 'w::len word) \<Rightarrow> 'w dict \<Rightarrow> 'w dict" where
  "callee_loop [] callee_validity callee_context callee_registers = callee_registers"
| "callee_loop (r # rs) callee_validity callee_context callee_registers =
     callee_loop rs callee_validity callee_context
       (if callee_validity AND validity_flag r \<noteq> 0
        then map_assign (reg_name r) (callee_context (context_member r)) callee_registers else callee_registers)"

text \<open>The value the walker finds for a register of the caller.\<close>

definition recovered :: "'w::len dict \<Rightarrow> u32 \<Rightarrow> ('r \<Rightarrow> 'w word) \<Rightarrow> 'r RegisterSet \<Rightarrow> 'w word option" where
  "recovered caller_registers callee_validity callee_context r =
     (case map_find (reg_name r) caller_registers of
        Some v \<Rightarrow> Some v
      | None \<Rightarrow>
          (case Option.bind (alternate_name r) (\<lambda>n. map_find n caller_registers) of
             Some v \<Rightarrow> Some v
           | None \<Rightarrow>
               if callee_saves r \<and> callee_validity AND validity_flag r \<noteq> 0
               then Some (callee_context (context_member r)) else None))"

fun caller_loop ::
    "'r RegisterSet list \<Rightarrow> 'w::len dict \<Rightarrow> u32 \<Rightarrow> ('r \<Rightarrow> 'w word) \<Rightarrow> ('r \<Rightarrow> 'w word) \<Rightarrow> u32 \<Rightarrow> ('r \<Rightarrow> 'w word) \<times> u32" where
  "caller_loop [] caller_registers callee_validity callee_context context validity = (context, validity)"
| "caller_loop (r # rs) caller_registers callee_validity callee_context context validity =
     (case recovered caller_registers callee_validity callee_context r of
        Some v \<Rightarrow> caller_loop rs caller_registers callee_validity callee_context
                    (context(context_member r := v)) (validity OR validity_flag r)
      | None \<Rightarrow> caller_loop rs caller_registers callee_validity callee_context context validity)"

definition FindCallerRegisters ::
    "'r RegisterSet list \<Rightarrow> 'w::len region \<Rightarrow> CFIFrameInfo \<Rightarrow> ('r \<Rightarrow> 'w word) \<Rightarrow> u32 \<Rightarrow> (('r \<Rightarrow> 'w word) \<times> u32) option comp" where
  "FindCallerRegisters register_map mem info callee_context callee_validity =
     (let callee_registers = callee_loop register_map callee_validity callee_context [] in
      bindc (FindCallerRegs info callee_registers mem []) (\<lambda>(ok, caller_registers).
      if \<not> ok then ret None
      else ret (Some (caller_loop register_map caller_registers callee_validity callee_context (\<lambda>_. filled) 0))))"

section \<open>Tokenize\<close>

text \<open>The loop of \<^verbatim>\<open>Tokenize\<close>: the tokens so far, the current token and the text behind it.\<close>

function Tokenize_loop ::
    "(char \<Rightarrow> bool) \<Rightarrow> int \<Rightarrow> string option \<Rightarrow> string \<Rightarrow> string list \<Rightarrow> int \<times> string \<times> string list" where
  "Tokenize_loop sep remaining token save tokens =
     (case token of
        None \<Rightarrow> (remaining, save, tokens)
      | Some t \<Rightarrow>
          let remaining = remaining - 1 in
          if remaining > 0 then
            if remaining > 1 then
              (case strtok_r sep save of
                 None \<Rightarrow> Tokenize_loop sep remaining None save (tokens @ [t])
               | Some (t', save') \<Rightarrow> Tokenize_loop sep remaining (Some t') save' (tokens @ [t]))
            else Tokenize_loop sep remaining token save (tokens @ [t])
          else (remaining, save, tokens))"
  by pat_completeness auto
termination
  by (relation "measure (\<lambda>(sep, remaining, token, save, tokens). nat remaining)") auto

definition Tokenize :: "string \<Rightarrow> (char \<Rightarrow> bool) \<Rightarrow> int \<Rightarrow> bool \<times> string list" where
  "Tokenize line separators max_tokens =
     (let (token, save_ptr) =
            (case strtok_r separators line of None \<Rightarrow> (None, []) | Some (t, s) \<Rightarrow> (Some t, s));
          (remaining, save_ptr, tokens) = Tokenize_loop separators max_tokens token save_ptr [];
          tokens =
            (if remaining = 0
             then (case strtok_r (\<lambda>c. c = CHR 0x0D \<or> c = CHR 0x0A) save_ptr of
                     None \<Rightarrow> tokens | Some (t, _) \<Rightarrow> tokens @ [t])
             else tokens) in
      (int (length tokens) = max_tokens, tokens))"

section \<open>Parsing what was printed\<close>

definition cfi_word :: "string \<Rightarrow> bool" where
  "cfi_word t \<longleftrightarrow> t \<noteq> [] \<and> (\<forall>c \<in> set t. \<not> token_breaks c \<and> c \<noteq> CHR 0x00)"

lemma strtok_r_word:
  assumes "cfi_word t"
  shows "strtok_r token_breaks (t @ CHR '' '' # s) = Some (t, s)" "strtok_r token_breaks t = Some (t, [])"
proof -
  have nb: "\<And>c. c \<in> set t \<Longrightarrow> \<not> token_breaks c" "t \<noteq> []" using assms by (auto simp: cfi_word_def)
  have blank: "token_breaks CHR '' ''" by (simp add: token_breaks_def)
  have drop: "dropWhile token_breaks (t @ r) = t @ r" for r using nb by (cases t) auto
  have all: "takeWhile (\<lambda>c. \<not> token_breaks c) t = t" "dropWhile (\<lambda>c. \<not> token_breaks c) t = []"
    using nb(1) by (simp_all add: takeWhile_eq_all_conv dropWhile_eq_Nil_conv)
  show "strtok_r token_breaks (t @ CHR '' '' # s) = Some (t, s)"
    using nb blank by (simp add: strtok_r_def drop takeWhile_append2 dropWhile_append2)
  show "strtok_r token_breaks t = Some (t, [])"
    using nb(2) drop [of "[]"] by (simp add: strtok_r_def all)
qed

text \<open>The parser on a sequence of tokens.\<close>

fun parse_tokens :: "string \<Rightarrow> string \<Rightarrow> CFIFrameInfo \<Rightarrow> string list \<Rightarrow> bool \<times> CFIFrameInfo" where
  "parse_tokens name expression info [] = Report name expression info"
| "parse_tokens name expression info (token # ts) =
     (if last token = CHR '':'' then
        if length token < 2 then (False, info)
        else if name \<noteq> [] \<or> expression \<noteq> [] then
          (let (ok, info) = Report name expression info in
           if \<not> ok then (False, info) else parse_tokens (butlast token) [] info ts)
        else parse_tokens (butlast token) [] info ts
      else parse_tokens name (if expression \<noteq> [] then expression @ '' '' @ token else token) info ts)"

lemma Parse_loop_step:
  assumes "strtok_r token_breaks s = Some (t, r)" "t \<noteq> []"
    and "\<And>name expression info. Parse_loop name expression info r = parse_tokens name expression info ts"
  shows "Parse_loop name expression info s = parse_tokens name expression info (t # ts)"
  using assms by (subst Parse_loop.simps) (simp add: Suc_le_eq split_beta Let_def)

lemma Parse_loop_unwords:
  "\<forall>t \<in> set ts. cfi_word t \<Longrightarrow> Parse_loop name expression info (unwords ts) = parse_tokens name expression info ts"
proof (induction ts arbitrary: name expression info rule: unwords.induct)
  case 1
  then show ?case by (subst Parse_loop.simps) (simp add: strtok_r_def)
next
  case (2 t)
  have "Parse_loop name expression info [] = parse_tokens name expression info []" for name expression info
    by (subst Parse_loop.simps) (simp add: strtok_r_def)
  with 2 show ?case
    using Parse_loop_step [of t t "[]" "[]"] strtok_r_word(2) [of t] by (simp add: cfi_word_def)
next
  case (3 t t' ts)
  then show ?case
    using Parse_loop_step [of "unwords (t # t' # ts)" t "unwords (t' # ts)" "t' # ts"]
      strtok_r_word(1) [of t "unwords (t' # ts)"] by (simp add: cfi_word_def)
qed

lemma unwords_append: "xs \<noteq> [] \<Longrightarrow> ys \<noteq> [] \<Longrightarrow> unwords (xs @ ys) = unwords xs @ CHR '' '' # unwords ys"
proof (induction xs rule: unwords.induct)
  case (2 t)
  then show ?case by (cases ys) auto
qed auto

lemma unwords_nonempty: "ts \<noteq> [] \<Longrightarrow> \<forall>t \<in> set ts. t \<noteq> [] \<Longrightarrow> unwords ts \<noteq> []"
  by (induction ts rule: unwords.induct) auto

text \<open>The components of an expression are put together again.\<close>

definition plain_words :: "string list \<Rightarrow> bool" where
  "plain_words ws \<longleftrightarrow> ws \<noteq> [] \<and> (\<forall>w \<in> set ws. cfi_word w \<and> last w \<noteq> CHR '':'')"

lemma parse_tokens_more:
  assumes "\<forall>w \<in> set ws. cfi_word w \<and> last w \<noteq> CHR '':''" "us \<noteq> []" "\<forall>u \<in> set us. u \<noteq> []"
  shows "parse_tokens name (unwords us) info (ws @ ts) = parse_tokens name (unwords (us @ ws)) info ts"
  using assms
proof (induction ws arbitrary: us)
  case (Cons w ws)
  have "unwords us \<noteq> []" using Cons.prems(2,3) by (rule unwords_nonempty)
  then have "parse_tokens name (unwords us) info ((w # ws) @ ts) =
      parse_tokens name (unwords (us @ [w])) info (ws @ ts)"
    using Cons.prems by (simp add: unwords_append)
  also have "\<dots> = parse_tokens name (unwords ((us @ [w]) @ ws)) info ts"
    using Cons.prems by (intro Cons.IH) (auto simp: cfi_word_def)
  finally show ?case by simp
qed simp

lemma parse_tokens_words:
  assumes "plain_words ws"
  shows "parse_tokens name [] info (ws @ ts) = parse_tokens name (unwords ws) info ts"
proof (cases ws)
  case (Cons w ws')
  then show ?thesis
    using assms parse_tokens_more [of ws' "[w]" name info ts] by (auto simp: plain_words_def cfi_word_def)
qed (use assms in \<open>simp add: plain_words_def\<close>)

text \<open>A sequence of rules, each a name and the words of its expression.\<close>

definition rule_tokens :: "string \<times> string list \<Rightarrow> string list" where
  "rule_tokens r = (fst r @ '':'') # snd r"

definition add_rule :: "string \<times> string list \<Rightarrow> CFIFrameInfo \<Rightarrow> CFIFrameInfo" where
  "add_rule r info = snd (Report (fst r) (unwords (snd r)) info)"

definition rule_ok :: "string \<times> string list \<Rightarrow> bool" where
  "rule_ok r \<longleftrightarrow> cfi_word (fst r) \<and> plain_words (snd r)"

lemma Report_ok: "name \<noteq> [] \<Longrightarrow> expression \<noteq> [] \<Longrightarrow> fst (Report name expression info)"
  by (simp add: Report_def)

lemma parse_one_rule:
  assumes "rule_ok r"
  shows "parse_tokens [] [] info (rule_tokens r @ ts) = parse_tokens (fst r) (unwords (snd r)) info ts"
    and "name \<noteq> [] \<Longrightarrow> expression \<noteq> [] \<Longrightarrow> parse_tokens name expression info (rule_tokens r @ ts) =
           parse_tokens (fst r) (unwords (snd r)) (snd (Report name expression info)) ts"
  using assms parse_tokens_words [of "snd r" "fst r" _ ts] Report_ok [of name expression info]
  by (auto simp: rule_tokens_def rule_ok_def cfi_word_def butlast_append Let_def split_beta Suc_le_eq)

lemma parse_rules:
  assumes "\<forall>r \<in> set rs. rule_ok r" "name \<noteq> []" "expression \<noteq> []"
  shows "parse_tokens name expression info (concat (map rule_tokens rs)) =
           (True, fold add_rule rs (snd (Report name expression info)))"
  using assms
proof (induction rs arbitrary: name expression info)
  case Nil
  then show ?case using Report_ok [of name expression info] by (simp add: prod_eq_iff)
next
  case (Cons r rs)
  then have "rule_ok r" by simp
  then have ne: "fst r \<noteq> []" "unwords (snd r) \<noteq> []"
    using unwords_nonempty [of "snd r"] by (auto simp: rule_ok_def plain_words_def cfi_word_def)
  show ?case
    using parse_one_rule(2) [OF \<open>rule_ok r\<close> Cons.prems(2,3), of info "concat (map rule_tokens rs)"]
      Cons.IH [OF _ ne] Cons.prems(1) by (simp add: add_rule_def)
qed

lemma parse_rule_set:
  assumes "\<forall>r \<in> set rs. rule_ok r" "rs \<noteq> []"
  shows "parse_tokens [] [] info (concat (map rule_tokens rs)) = (True, fold add_rule rs info)"
proof (cases rs)
  case (Cons r rs')
  then have "rule_ok r" using assms(1) by simp
  then have ne: "fst r \<noteq> []" "unwords (snd r) \<noteq> []"
    using unwords_nonempty [of "snd r"] by (auto simp: rule_ok_def plain_words_def cfi_word_def)
  show ?thesis
    using parse_one_rule(1) [OF \<open>rule_ok r\<close>, of info "concat (map rule_tokens rs')"]
      parse_rules [OF _ ne, of rs' info] assms(1) by (simp add: Cons add_rule_def)
qed (use assms in simp)

text \<open>The rules of a \<^verbatim>\<open>CFIFrameInfo\<close>, in the order in which they are printed; \<open>W\<close> gives the words of an
  expression.\<close>

definition rules_of :: "(string \<Rightarrow> string list) \<Rightarrow> CFIFrameInfo \<Rightarrow> (string \<times> string list) list" where
  "rules_of W info =
     (if cfa_rule info \<noteq> [] then [(''.cfa'', W (cfa_rule info))] else []) @
     (if ra_rule info \<noteq> [] then [(''.ra'', W (ra_rule info))] else []) @
     map (\<lambda>(x, s). (x, W s)) (register_rules info)"

definition rule_text :: "string \<Rightarrow> bool" where
  "rule_text s \<longleftrightarrow> (\<exists>ws. s = unwords ws \<and> plain_words ws)"

text \<open>Rules that can be printed and parsed: expressions of plain words, names that are words other than
  the two special ones, at least one rule.\<close>

definition rules_ok :: "CFIFrameInfo \<Rightarrow> bool" where
  "rules_ok info \<longleftrightarrow>
     (cfa_rule info \<noteq> [] \<longrightarrow> rule_text (cfa_rule info)) \<and> (ra_rule info \<noteq> [] \<longrightarrow> rule_text (ra_rule info)) \<and>
     (\<forall>(x, s) \<in> set (register_rules info). cfi_word x \<and> x \<noteq> ''.cfa'' \<and> x \<noteq> ''.ra'' \<and> rule_text s) \<and>
     map_ok (register_rules info) \<and> info \<noteq> CFIFrameInfo_new"

lemma rule_text_nonempty: "rule_text s \<Longrightarrow> s \<noteq> []"
  using unwords_nonempty by (auto simp: rule_text_def plain_words_def cfi_word_def)

lemma blank_after_rule:
  assumes "\<forall>t \<in> set ts. t \<noteq> []" "ws \<noteq> []"
  shows "blank_after (unwords ts) @ x @ '': '' @ unwords ws = unwords (ts @ rule_tokens (x, ws))"
proof -
  have rule: "unwords (rule_tokens (x, ws)) = x @ '': '' @ unwords ws"
    using assms(2) by (cases ws) (simp_all add: rule_tokens_def)
  show ?thesis
  proof (cases "ts = []")
    case True
    with rule show ?thesis by (simp add: blank_after_def)
  next
    case False
    with rule assms(1) unwords_nonempty [OF False] show ?thesis
      by (simp add: blank_after_def unwords_append rule_tokens_def)
  qed
qed

lemma rule_tokens_nonempty: "plain_words ws \<Longrightarrow> \<forall>t \<in> set (rule_tokens (x, ws)). t \<noteq> []"
  by (auto simp: rule_tokens_def plain_words_def cfi_word_def)

lemma Serialize_registers:
  assumes "\<forall>t \<in> set ts. t \<noteq> []" "\<forall>(x, s) \<in> set regs. x \<noteq> [] \<and> unwords (W s) = s \<and> plain_words (W s)"
  shows "foldl (\<lambda>stream (reg, rule). blank_after stream @ reg @ '': '' @ rule) (unwords ts) regs =
           unwords (ts @ concat (map rule_tokens (map (\<lambda>(x, s). (x, W s)) regs)))"
  using assms
proof (induction regs arbitrary: ts)
  case (Cons r regs)
  obtain x s where r: "r = (x, s)" by (cases r)
  have W: "unwords (W s) = s" "W s \<noteq> []" "\<forall>t \<in> set (ts @ rule_tokens (x, W s)). t \<noteq> []"
    using Cons.prems by (auto simp: r plain_words_def rule_tokens_def cfi_word_def)
  show ?case
    using Cons.IH [OF W(3)] Cons.prems(2) blank_after_rule [OF Cons.prems(1) W(2), of x] by (simp add: r W(1))
qed simp

lemma Serialize_unwords:
  assumes "\<And>s. rule_text s \<Longrightarrow> unwords (W s) = s \<and> plain_words (W s)" "rules_ok info"
  shows "CFIFrameInfo_Serialize info = unwords (concat (map rule_tokens (rules_of W info)))"
proof -
  let ?c = "if cfa_rule info \<noteq> [] then rule_tokens (''.cfa'', W (cfa_rule info)) else []"
  let ?r = "if ra_rule info \<noteq> [] then rule_tokens (''.ra'', W (ra_rule info)) else []"
  have W: "cfa_rule info \<noteq> [] \<Longrightarrow> unwords (W (cfa_rule info)) = cfa_rule info \<and> plain_words (W (cfa_rule info))"
    "ra_rule info \<noteq> [] \<Longrightarrow> unwords (W (ra_rule info)) = ra_rule info \<and> plain_words (W (ra_rule info))"
    using assms by (auto simp: rules_ok_def)
  have c: "(if cfa_rule info \<noteq> [] then ''.cfa: '' @ cfa_rule info else []) = unwords ?c"
    using blank_after_rule [of "[]" "W (cfa_rule info)" "''.cfa''"] W(1) by (auto simp: blank_after_def plain_words_def)
  have ner: "\<forall>t \<in> set ?r. t \<noteq> []" using W(2) rule_tokens_nonempty [of "W (ra_rule info)" "''.ra''"] by simp
  have nec: "\<forall>t \<in> set ?c. t \<noteq> []" using W(1) rule_tokens_nonempty [of "W (cfa_rule info)" "''.cfa''"] by simp
  have ne: "\<forall>t \<in> set (?c @ ?r). t \<noteq> []" unfolding set_append using nec ner by blast
  have cr: "(if ra_rule info \<noteq> [] then blank_after (unwords ?c) @ ''.ra: '' @ ra_rule info else unwords ?c) = unwords (?c @ ?r)"
    using blank_after_rule [OF nec, of "W (ra_rule info)" "''.ra''"] W(2) by (auto simp: plain_words_def)
  have "CFIFrameInfo_Serialize info =
      foldl (\<lambda>stream (reg, rule). blank_after stream @ reg @ '': '' @ rule) (unwords (?c @ ?r)) (register_rules info)"
    unfolding CFIFrameInfo_Serialize_def Let_def c cr ..
  also have "\<dots> = unwords ((?c @ ?r) @ concat (map rule_tokens (map (\<lambda>(x, s). (x, W s)) (register_rules info))))"
    using assms by (intro Serialize_registers [OF ne]) (auto simp: rules_ok_def cfi_word_def)
  also have "(?c @ ?r) @ concat (map rule_tokens (map (\<lambda>(x, s). (x, W s)) (register_rules info))) =
      concat (map rule_tokens (rules_of W info))"
    by (simp add: rules_of_def)
  finally show ?thesis .
qed

lemma map_assign_last: "map_ok (m @ [(k, v)]) \<Longrightarrow> map_assign k v m = m @ [(k, v)]"
proof (induction m)
  case (Cons e m)
  obtain k' v' where e: "e = (k', v')" by (cases e)
  with Cons.prems have "k' < k" by simp
  then have "\<not> k < k'" "k \<noteq> k'" by auto
  with Cons e show ?case by simp
qed simp

lemma fold_registers:
  assumes "map_ok (register_rules info @ regs)"
    and "\<forall>(x, s) \<in> set regs. x \<noteq> [] \<and> x \<noteq> ''.cfa'' \<and> x \<noteq> ''.ra'' \<and> s \<noteq> [] \<and> unwords (W s) = s"
  shows "fold add_rule (map (\<lambda>(x, s). (x, W s)) regs) info = info\<lparr>register_rules := register_rules info @ regs\<rparr>"
  using assms
proof (induction regs arbitrary: info)
  case (Cons r regs)
  obtain x s where r: "r = (x, s)" by (cases r)
  let ?info = "info\<lparr>register_rules := register_rules info @ [(x, s)]\<rparr>"
  have ok: "map_ok (register_rules info @ [(x, s)])" "map_ok (register_rules ?info @ regs)"
    using Cons.prems(1) by (auto simp: r map_ok_def sorted_wrt_append)
  have "add_rule (x, W s) info = ?info"
    using Cons.prems(2) map_assign_last [OF ok(1)] by (simp add: add_rule_def Report_def SetRegisterRule_def r)
  then show ?case using Cons.IH [OF ok(2)] Cons.prems(2) by (simp add: r)
qed simp

section \<open>Properties\<close>

text \<open>C30: A set of rules whose expressions are plain words, printed by Serialize and parsed into a new
  CFIFrameInfo, is accepted and gives the same rules.\<close>

theorem Serialize_Parse_roundtrip:
  assumes ok: "rules_ok info"
  shows "CFIRuleParser_Parse (CFIFrameInfo_Serialize info) CFIFrameInfo_new = (True, info)"
proof -
  have "\<forall>s. \<exists>ws. rule_text s \<longrightarrow> unwords ws = s \<and> plain_words ws" by (auto simp: rule_text_def)
  from choice [OF this] obtain W where W: "\<And>s. rule_text s \<Longrightarrow> unwords (W s) = s \<and> plain_words (W s)" by blast
  let ?rs = "rules_of W info"
  have special: "cfi_word ''.cfa''" "cfi_word ''.ra''" by (simp_all add: cfi_word_def token_breaks_def)
  have rules: "\<forall>r \<in> set ?rs. rule_ok r"
  proof -
    have "cfa_rule info \<noteq> [] \<Longrightarrow> plain_words (W (cfa_rule info))" "ra_rule info \<noteq> [] \<Longrightarrow> plain_words (W (ra_rule info))"
      "\<forall>(x, s) \<in> set (register_rules info). cfi_word x \<and> plain_words (W s)"
      using ok W by (auto simp: rules_ok_def)
    then show ?thesis using special by (auto simp: rules_of_def rule_ok_def split: if_splits)
  qed
  have "?rs \<noteq> []" using ok by (auto simp: rules_of_def rules_ok_def CFIFrameInfo_new_def)
  have words: "\<forall>t \<in> set (concat (map rule_tokens ?rs)). cfi_word t"
  proof -
    have w: "cfi_word t" if "rule_ok r" "t \<in> set (rule_tokens r)" for r t
    proof -
      have "cfi_word (x @ '':'')" if "cfi_word x" for x using that by (simp add: cfi_word_def token_breaks_def ball_Un)
      moreover have "t = fst r @ '':'' \<or> t \<in> set (snd r)" using that(2) by (simp add: rule_tokens_def)
      ultimately show ?thesis using that(1) by (auto simp: rule_ok_def plain_words_def)
    qed
    show ?thesis using rules w unfolding set_concat set_map by blast
  qed
  have nul: "takeWhile (\<lambda>c. c \<noteq> CHR 0x00) (unwords ts) = unwords ts" if "\<forall>t \<in> set ts. cfi_word t" for ts
  proof -
    have "\<forall>c \<in> set (unwords ts). c \<noteq> CHR 0x00"
      using that by (induction ts rule: unwords.induct) (auto simp: cfi_word_def)
    then show ?thesis by (simp add: takeWhile_eq_all_conv)
  qed
  have texts: "cfa_rule info \<noteq> [] \<Longrightarrow> unwords (W (cfa_rule info)) = cfa_rule info"
    "ra_rule info \<noteq> [] \<Longrightarrow> unwords (W (ra_rule info)) = ra_rule info"
    using ok W by (auto simp: rules_ok_def)
  have regs: "\<forall>(x, s) \<in> set (register_rules info). x \<noteq> [] \<and> x \<noteq> ''.cfa'' \<and> x \<noteq> ''.ra'' \<and> s \<noteq> [] \<and> unwords (W s) = s"
  proof (clarify)
    fix x s
    assume "(x, s) \<in> set (register_rules info)"
    then have "cfi_word x" "x \<noteq> ''.cfa''" "x \<noteq> ''.ra''" "rule_text s" using ok by (auto simp: rules_ok_def)
    then show "x \<noteq> [] \<and> x \<noteq> ''.cfa'' \<and> x \<noteq> ''.ra'' \<and> s \<noteq> [] \<and> unwords (W s) = s"
      using W rule_text_nonempty by (auto simp: cfi_word_def)
  qed
  let ?info = "\<lparr>cfa_rule = cfa_rule info, ra_rule = ra_rule info, register_rules = []\<rparr>"
  have "fold add_rule ?rs CFIFrameInfo_new = fold add_rule (map (\<lambda>(x, s). (x, W s)) (register_rules info)) ?info"
    using texts by (simp add: rules_of_def add_rule_def Report_def SetCFARule_def SetRARule_def CFIFrameInfo_new_def)
  also have "\<dots> = info" using ok regs by (subst fold_registers) (simp_all add: rules_ok_def)
  finally have built: "fold add_rule ?rs CFIFrameInfo_new = info" .
  have printed: "CFIFrameInfo_Serialize info = unwords (concat (map rule_tokens ?rs))"
    using W ok by (rule Serialize_unwords)
  show ?thesis
    unfolding CFIRuleParser_Parse_def printed nul [OF words] Parse_loop_unwords [OF words]
    by (simp add: parse_rule_set [OF rules \<open>?rs \<noteq> []\<close>] built)
qed

definition frame_rules :: CFIFrameInfo where
  "frame_rules = \<lparr>cfa_rule = ''$esp 8 +'', ra_rule = ''.cfa 4 - ^'', register_rules = [(''$ebp'', ''.cfa 8 - ^'')]\<rparr>"

theorem Serialize_Parse_roundtrip_witness:
  "CFIFrameInfo_Serialize frame_rules = ''.cfa: $esp 8 + .ra: .cfa 4 - ^ $ebp: .cfa 8 - ^'' \<and>
   CFIRuleParser_Parse ''.cfa: $esp 8 + .ra: .cfa 4 - ^ $ebp: .cfa 8 - ^'' CFIFrameInfo_new = (True, frame_rules)"
proof -
  have text1: "rule_text ''$esp 8 +''" unfolding rule_text_def
    by (rule exI [of _ "[''$esp'', ''8'', ''+'']"]) (simp add: plain_words_def cfi_word_def token_breaks_def)
  have text2: "rule_text ''.cfa 4 - ^''" unfolding rule_text_def
    by (rule exI [of _ "[''.cfa'', ''4'', ''-'', ''^'']"]) (simp add: plain_words_def cfi_word_def token_breaks_def)
  have text3: "rule_text ''.cfa 8 - ^''" unfolding rule_text_def
    by (rule exI [of _ "[''.cfa'', ''8'', ''-'', ''^'']"]) (simp add: plain_words_def cfi_word_def token_breaks_def)
  have "rules_ok frame_rules"
    using text1 text2 text3 by (simp add: rules_ok_def frame_rules_def cfi_word_def token_breaks_def CFIFrameInfo_new_def)
  moreover have "CFIFrameInfo_Serialize frame_rules = ''.cfa: $esp 8 + .ra: .cfa 4 - ^ $ebp: .cfa 8 - ^''"
    by (simp add: CFIFrameInfo_Serialize_def frame_rules_def blank_after_def)
  ultimately show ?thesis using Serialize_Parse_roundtrip [of frame_rules] by simp
qed

text \<open>The registers of the caller as the rules define them.\<close>

fun register_values :: "'w::len dict \<Rightarrow> 'w region \<Rightarrow> (string \<times> 'w word expr) list \<Rightarrow> (string \<times> 'w word) list option" where
  "register_values d r [] = Some []"
| "register_values d r ((x, e) # rules) =
     (case meaning d r e of None \<Rightarrow> None
      | Some v \<Rightarrow> map_option (\<lambda>vs. (x, v) # vs) (register_values d r rules))"

lemma rule_value_program:
  "meaning d r e = Some v \<Longrightarrow> names_ok e \<Longrightarrow> rule_value r d (unwords (program e)) = ret (Some v)"
  by (simp add: rule_value_def EvaluateForValue_program)

lemma register_loop_programs:
  assumes "register_values (map_assign ''.cfa'' cfa d) r rules = Some vs" "\<forall>(x, e) \<in> set rules. names_ok e"
  shows "register_loop r d cfa (map (\<lambda>(x, e). (x, unwords (program e))) rules) caller =
           ret (True, fold (\<lambda>(x, v). map_assign x v) vs caller)"
  using assms
proof (induction rules arbitrary: vs caller)
  case (Cons rule rules)
  obtain x e where rule: "rule = (x, e)" by (cases rule)
  obtain v vs' where v: "meaning (map_assign ''.cfa'' cfa d) r e = Some v"
    "register_values (map_assign ''.cfa'' cfa d) r rules = Some vs'" "vs = (x, v) # vs'"
    using Cons.prems(1) by (auto simp: rule split: option.splits)
  have "names_ok e" using Cons.prems(2) by (simp add: rule)
  with v Cons show ?case by (simp add: rule rule_value_program)
qed simp

lemma program_text: "names_ok e \<Longrightarrow> unwords (program e) \<noteq> []"
proof -
  assume ok: "names_ok e"
  have "program e \<noteq> []" by (cases e) simp_all
  then show ?thesis using program_words [OF ok] by (intro unwords_nonempty) (auto simp: word_ok_def)
qed

text \<open>C31: When the rules are programs of expressions that have a value, FindCallerRegs succeeds: it
  computes the frame address from the registers, the return address and every register with a rule
  from the registers and the frame address, and returns all of them.\<close>

theorem FindCallerRegs_values:
  fixes cfa ra :: "'w::len word"
  assumes "meaning d r ce = Some cfa" "meaning (map_assign ''.cfa'' cfa d) r re = Some ra"
    and "register_values (map_assign ''.cfa'' cfa d) r rules = Some vs"
    and "names_ok ce" "names_ok re" "\<forall>(x, e) \<in> set rules. names_ok e"
    and "info = \<lparr>cfa_rule = unwords (program ce), ra_rule = unwords (program re),
                 register_rules = map (\<lambda>(x, e). (x, unwords (program e))) rules\<rparr>"
  shows "FindCallerRegs info d r caller =
    ret (True, map_assign ''.cfa'' cfa (map_assign ''.ra'' ra (fold (\<lambda>(x, v). map_assign x v) vs [])))"
  using assms
  by (simp add: FindCallerRegs_def program_text rule_value_program register_loop_programs)

theorem FindCallerRegs_values_witness:
  "FindCallerRegs frame_rules [(''$esp'', 0x1000 :: 32 word)] (\<lambda>a. if a = 0x1004 then Some 0xCAFE else if a = 0x1000 then Some 0x2000 else None) [] =
   ret (True, [(''$ebp'', 0x2000), (''.cfa'', 0x1008), (''.ra'', 0xCAFE)])"
proof -
  let ?r = "\<lambda>a :: 32 word. if a = 0x1004 then Some (0xCAFE :: 32 word) else if a = 0x1000 then Some 0x2000 else None"
  let ?ce = "Bin BINARY_OP_ADD (Name ''$esp'') (Num (8 :: 32 word))"
  let ?re = "Deref (Bin BINARY_OP_SUBTRACT (Name ''.cfa'') (Num (4 :: 32 word)))"
  let ?rules = "[(''$ebp'', Deref (Bin BINARY_OP_SUBTRACT (Name ''.cfa'') (Num (8 :: 32 word))))]"
  let ?d = "[(''$esp'', 0x1000 :: 32 word)]"
  have num: "show_word (4 :: 32 word) = ''4''" "show_word (8 :: 32 word) = ''8''"
    by (simp_all add: show_word_def show_nat.simps char_of_def bit_iff_odd)
  have names: "is_name TYPE(32) ''$esp''" "is_name TYPE(32) ''.cfa''"
    by (simp_all add: is_name_def pushed_def operation_of_def is_space_def literal_def read_unsigned_def read_sign_def
        is_digit_def)
  have cfa: "meaning ?d ?r ?ce = Some 0x1008" by (simp add: map_find_def binary_def ret_def)
  have d: "map_assign ''.cfa'' 0x1008 ?d = [(''$esp'', 0x1000), (''.cfa'', 0x1008)]" by (simp add: less_char_def)
  have ra: "meaning (map_assign ''.cfa'' 0x1008 ?d) ?r ?re = Some 0xCAFE"
    unfolding d by (simp add: map_find_def binary_def ret_def)
  have vs: "register_values (map_assign ''.cfa'' 0x1008 ?d) ?r ?rules = Some [(''$ebp'', 0x2000)]"
    unfolding d by (simp add: map_find_def binary_def ret_def)
  from FindCallerRegs_values [OF cfa ra vs, of frame_rules "[]"] names show ?thesis
    by (simp add: frame_rules_def num op_token_def less_char_def)
qed

text \<open>The registers the walker recovers, of a table in which no two rows share a member.\<close>

lemma caller_loop_context:
  assumes "distinct (map context_member rs)"
  shows "fst (caller_loop rs d cv callee ctx validity) =
    (\<lambda>m. case find (\<lambda>r. context_member r = m) rs of
           Some r \<Rightarrow> (case recovered d cv callee r of Some v \<Rightarrow> v | None \<Rightarrow> ctx m)
         | None \<Rightarrow> ctx m)"
  using assms
proof (induction rs arbitrary: ctx validity)
  case (Cons r rs)
  have none: "find (\<lambda>s. context_member s = context_member r) rs = None"
    unfolding find_None_iff using Cons.prems by (metis distinct.simps(2) list.simps(9) image_eqI list.set_map)
  show ?case using Cons none by (auto simp: fun_eq_iff split: option.split)
qed simp

lemma caller_loop_validity:
  "snd (caller_loop rs d cv callee ctx validity) =
     fold (\<lambda>r v. v OR validity_flag r) (filter (\<lambda>r. recovered d cv callee r \<noteq> None) rs) validity"
  by (induction rs arbitrary: ctx validity) (auto split: option.split)

lemma FindCallerRegisters_result:
  assumes "FindCallerRegs info (callee_loop rs cv callee []) r [] = ret (True, d)" "distinct (map context_member rs)"
  shows "FindCallerRegisters rs r info callee cv =
    ret (Some (\<lambda>m. case find (\<lambda>s. context_member s = m) rs of
                 Some s \<Rightarrow> (case recovered d cv callee s of Some v \<Rightarrow> v | None \<Rightarrow> filled)
               | None \<Rightarrow> filled,
       fold (\<lambda>s v. v OR validity_flag s) (filter (\<lambda>s. recovered d cv callee s \<noteq> None) rs) 0))"
proof -
  have "caller_loop rs d cv callee (\<lambda>_. filled) 0 =
    (\<lambda>m. case find (\<lambda>s. context_member s = m) rs of
           Some s \<Rightarrow> (case recovered d cv callee s of Some v \<Rightarrow> v | None \<Rightarrow> filled)
         | None \<Rightarrow> filled,
     fold (\<lambda>s v. v OR validity_flag s) (filter (\<lambda>s. recovered d cv callee s \<noteq> None) rs) 0)"
    unfolding prod_eq_iff fst_conv snd_conv caller_loop_context [OF assms(2)] caller_loop_validity by blast
  then show ?thesis unfolding FindCallerRegisters_def Let_def assms(1) bindc_ret by simp
qed

section \<open>Fields of a line\<close>

definition fields :: "string list \<Rightarrow> string \<Rightarrow> string" where
  "fields ws rest = concat (map (\<lambda>w. w @ '' '') ws) @ rest"

definition field_ok :: "(char \<Rightarrow> bool) \<Rightarrow> string \<Rightarrow> bool" where
  "field_ok sep w \<longleftrightarrow> w \<noteq> [] \<and> (\<forall>c \<in> set w. \<not> sep c)"

lemma strtok_r_field:
  assumes "field_ok sep w" "sep CHR '' ''"
  shows "strtok_r sep (w @ CHR '' '' # s) = Some (w, s)"
proof -
  have nb: "\<And>c. c \<in> set w \<Longrightarrow> \<not> sep c" "w \<noteq> []" using assms(1) by (auto simp: field_ok_def)
  have "dropWhile sep (w @ CHR '' '' # s) = w @ CHR '' '' # s" using nb by (cases w) auto
  then show ?thesis
    using nb assms(2) by (simp add: strtok_r_def takeWhile_append2 dropWhile_append2)
qed

lemma strtok_r_rest:
  assumes "field_ok sep rest"
  shows "strtok_r sep rest = Some (rest, [])"
proof -
  have nb: "\<And>c. c \<in> set rest \<Longrightarrow> \<not> sep c" "rest \<noteq> []" using assms by (auto simp: field_ok_def)
  have "dropWhile sep rest = rest" using nb by (cases rest) auto
  moreover have all: "takeWhile (\<lambda>c. \<not> sep c) rest = rest" "dropWhile (\<lambda>c. \<not> sep c) rest = []"
    using nb(1) by (simp_all add: takeWhile_eq_all_conv dropWhile_eq_Nil_conv)
  ultimately show ?thesis using nb(2) by (simp add: strtok_r_def all)
qed

lemma Tokenize_loop_fields:
  assumes "\<forall>w \<in> set (v # ws). field_ok sep w" "sep CHR '' ''"
  shows "Tokenize_loop sep (int (length ws) + 2) (Some v) (fields ws rest) tokens = (0, rest, tokens @ v # ws)"
  using assms(1)
proof (induction ws arbitrary: v tokens)
  case Nil
  then show ?case by (simp add: fields_def)
next
  case (Cons w ws)
  have "strtok_r sep (fields (w # ws) rest) = Some (w, fields ws rest)"
    using strtok_r_field [of sep w "fields ws rest"] assms(2) Cons.prems by (simp add: fields_def)
  then show ?case
    using Cons.IH [of w "tokens @ [v]"] Cons.prems
    by (subst Tokenize_loop.simps) (simp add: Let_def add.commute del: Tokenize_loop.simps)
qed

text \<open>Tokenize cuts a line of at least two fields into the expected number of tokens: words without
  separators, and a last token that keeps the rest of the line with its blanks.\<close>

theorem Tokenize_fields:
  assumes "\<forall>w \<in> set ws. field_ok sep w" "sep CHR '' ''" "ws \<noteq> []"
    and "field_ok (\<lambda>c. c = CHR 0x0D \<or> c = CHR 0x0A) rest"
  shows "Tokenize (fields ws rest) sep (int (length ws) + 1) = (True, ws @ [rest])"
proof (cases ws)
  case (Cons w ws')
  have "strtok_r sep (fields ws rest) = Some (w, fields ws' rest)"
    using strtok_r_field [of sep w "fields ws' rest"] assms(1,2) by (simp add: Cons fields_def)
  moreover have "Tokenize_loop sep (int (length ws) + 1) (Some w) (fields ws' rest) [] = (0, rest, ws)"
    using Tokenize_loop_fields [of w ws' sep rest "[]"] assms(1,2)
    by (simp add: Cons add.commute del: Tokenize_loop.simps)
  ultimately show ?thesis
    using strtok_r_rest [OF assms(4)] by (simp add: Tokenize_def Let_def del: Tokenize_loop.simps)
qed (use assms in simp)

theorem Tokenize_fields_witness:
  "Tokenize ''FUNC 1000 20 0 operator new(int)'' (\<lambda>c. c = CHR '' '') 5 = (True, [''FUNC'', ''1000'', ''20'', ''0'', ''operator new(int)''])"
  using Tokenize_fields [of "[''FUNC'', ''1000'', ''20'', ''0'']" "\<lambda>c. c = CHR '' ''" "''operator new(int)''"]
  by (simp add: fields_def field_ok_def)

text \<open>With one expected token the first word is lost and the rest of the line returned.\<close>

lemma Tokenize_one: "Tokenize ''a b'' (\<lambda>c. c = CHR '' '') 1 = (True, [''b''])"
  by (simp add: Tokenize_def strtok_r_def)

end
