(* ===== verification/Source_Resolver.thy ===== *)
theory Source_Resolver
  imports Contained_Serializer Cfi_Frame_Info
begin

text \<open>
  The symbols of a module and the queries of a stack walker: \<^verbatim>\<open>BasicSourceLineResolver::Module\<close>
  (\<^verbatim>\<open>basic_source_line_resolver.cc\<close> and \<^verbatim>\<open>basic_source_line_resolver_types.h\<close>), which keeps the symbols in
  maps, \<^verbatim>\<open>FastSourceLineResolver::Module\<close> (\<^verbatim>\<open>fast_source_line_resolver.cc\<close> and
  \<^verbatim>\<open>fast_source_line_resolver_types.h\<close>), which keeps them in one block of memory, and
  \<^verbatim>\<open>ModuleSerializer\<close> (\<^verbatim>\<open>module_serializer.cc\<close>), which turns the first into the second.

  The frame of a stack walker is a record of the fields that the queries read and write; the base address
  of its module, a virtual function of the code, is one of them.  Texts are lists of bytes.
\<close>

record StackFrame =
  sf_instruction :: MemAddr
  sf_module_base :: MemAddr
  sf_function_name :: "u8 list"
  sf_function_base :: MemAddr
  sf_source_file_name :: "u8 list"
  sf_source_line :: u32
  sf_source_line_base :: MemAddr

definition sf_address :: "StackFrame \<Rightarrow> MemAddr" where
  "sf_address frame = sf_instruction frame - sf_module_base frame"

definition STACK_INFO_FPO :: nat where "STACK_INFO_FPO = 0"

definition STACK_INFO_FRAME_DATA :: nat where "STACK_INFO_FRAME_DATA = 4"

definition STACK_INFO_LAST :: nat where "STACK_INFO_LAST = 5"

definition WindowsFrameInfo_new :: WindowsFrameInfo where
  "WindowsFrameInfo_new = \<lparr>wfi_type = - 1, wfi_valid = 0, prolog_size = 0, epilog_size = 0, wfi_parameter_size = 0,
     saved_register_size = 0, local_size = 0, max_stack_size = 0, allocates_base_pointer = False, program_string = []\<rparr>"

definition WindowsFrameInfo_CopyFrom :: "WindowsFrameInfo \<Rightarrow> WindowsFrameInfo \<Rightarrow> WindowsFrameInfo" where
  "WindowsFrameInfo_CopyFrom that w = w\<lparr>wfi_type := wfi_type that, wfi_valid := wfi_valid that, prolog_size := prolog_size that,
     epilog_size := epilog_size that, wfi_parameter_size := wfi_parameter_size that, saved_register_size := saved_register_size that,
     local_size := local_size that, max_stack_size := max_stack_size that, allocates_base_pointer := allocates_base_pointer that,
     program_string := program_string that\<rparr>"

definition WindowsFrameInfo_Clear :: "WindowsFrameInfo \<Rightarrow> WindowsFrameInfo" where
  "WindowsFrameInfo_Clear w = w\<lparr>wfi_type := - 1, wfi_valid := 0, program_string := []\<rparr>"

lemma CopyFrom_identical [simp]: "WindowsFrameInfo_CopyFrom that w = that"
  by (simp add: WindowsFrameInfo_CopyFrom_def)

text \<open>\<^verbatim>\<open>result->valid |= VALID_PARAMETER_SIZE\<close>\<close>

definition with_parameter_size :: "u32 \<Rightarrow> WindowsFrameInfo \<Rightarrow> WindowsFrameInfo" where
  "with_parameter_size n w = w\<lparr>wfi_parameter_size := n, wfi_valid := or (wfi_valid w) 1\<rparr>"

definition chars :: "u8 list \<Rightarrow> string" where
  "chars = map (\<lambda>b. char_of (unat b))"

section \<open>The module in maps\<close>

type_synonym BasicFunction = "(64, Line option) RangeMap Function"

record BasicModule =
  bm_files :: "(u32, u8 list) std_map"
  bm_functions :: "(64, BasicFunction option) RangeMap"
  bm_public_symbols :: "(64, PublicSymbol option) AddressMap"
  bm_is_corrupt :: bool
  bm_windows_frame_info :: "(MemAddr, WindowsFrameInfo option) ContainedRangeMap list"
  bm_cfi_initial_rules :: "(64, u8 list) RangeMap"
  bm_cfi_delta_rules :: "(MemAddr, u8 list) std_map"

text \<open>The function found covers the address.\<close>

definition in_range :: "MemAddr \<Rightarrow> MemAddr \<Rightarrow> MemAddr \<Rightarrow> bool" where
  "in_range address base sz \<longleftrightarrow> address \<ge> base \<and> address - base < sz"

text \<open>\<^verbatim>\<open>!func || public_address > function_base\<close>, with the function the search for the nearest range set.\<close>

definition beyond :: "('p option \<times> MemAddr \<times> MemAddr) option \<Rightarrow> MemAddr \<Rightarrow> bool" where
  "beyond found public_address \<longleftrightarrow>
     (case found of None \<Rightarrow> True | Some (func, base, sz) \<Rightarrow> func = None \<or> public_address > base)"

definition Basic_line :: "BasicModule \<Rightarrow> MemAddr \<Rightarrow> BasicFunction \<Rightarrow> StackFrame \<Rightarrow> StackFrame comp" where
  "Basic_line bm address func frame =
     (case RangeMap_RetrieveRange address (fn_lines func) of
        None \<Rightarrow> ret frame
      | Some (line, line_base, _) \<Rightarrow>
          bindc (deref line) (\<lambda>line.
          let frame = (case map_find (source_file_id line) (bm_files bm) of
                         None \<Rightarrow> frame
                       | Some name \<Rightarrow> frame\<lparr>sf_source_file_name := name\<rparr>) in
          ret (frame\<lparr>sf_source_line := line_number line,
                     sf_source_line_base := sf_module_base frame + line_base\<rparr>)))"

definition Basic_public :: "BasicModule \<Rightarrow> MemAddr \<Rightarrow> (BasicFunction option \<times> MemAddr \<times> MemAddr) option \<Rightarrow>
    StackFrame \<Rightarrow> StackFrame comp" where
  "Basic_public bm address found frame =
     (case AddressMap_Retrieve address (bm_public_symbols bm) of
        None \<Rightarrow> ret frame
      | Some (public_symbol, public_address) \<Rightarrow>
          if beyond found public_address
          then bindc (deref public_symbol) (\<lambda>public_symbol.
               ret (frame\<lparr>sf_function_name := ps_name public_symbol,
                          sf_function_base := sf_module_base frame + public_address\<rparr>))
          else ret frame)"

definition Basic_LookupAddress :: "BasicModule \<Rightarrow> StackFrame \<Rightarrow> StackFrame comp" where
  "Basic_LookupAddress bm frame =
     (let address = sf_address frame;
          found = RangeMap_RetrieveNearestRange address (bm_functions bm) in
      case found of
        Some (func, function_base, function_size) \<Rightarrow>
          if in_range address function_base function_size
          then bindc (deref func) (\<lambda>func.
               Basic_line bm address func
                 (frame\<lparr>sf_function_name := fn_name func,
                        sf_function_base := sf_module_base frame + function_base\<rparr>))
          else Basic_public bm address found frame
      | None \<Rightarrow> Basic_public bm address found frame)"

text \<open>The result for a public symbol is dropped: the code sets the size in \<^verbatim>\<open>result\<close> and returns \<^verbatim>\<open>NULL\<close>.\<close>

definition Basic_FindWindowsFrameInfo :: "BasicModule \<Rightarrow> StackFrame \<Rightarrow> WindowsFrameInfo option comp" where
  "Basic_FindWindowsFrameInfo bm frame =
     (let address = sf_address frame; result = WindowsFrameInfo_new in
      bindc (at (bm_windows_frame_info bm) STACK_INFO_FRAME_DATA) (\<lambda>frame_data.
      bindc (at (bm_windows_frame_info bm) STACK_INFO_FPO) (\<lambda>fpo.
      case (case ContainedRangeMap_RetrieveRange address frame_data of
              Some info \<Rightarrow> Some info
            | None \<Rightarrow> ContainedRangeMap_RetrieveRange address fpo) of
        Some frame_info \<Rightarrow> bindc (deref frame_info) (\<lambda>w. ret (Some (WindowsFrameInfo_CopyFrom w result)))
      | None \<Rightarrow>
          let found = RangeMap_RetrieveNearestRange address (bm_functions bm);
              public = (case AddressMap_Retrieve address (bm_public_symbols bm) of
                          None \<Rightarrow> ret None
                        | Some (public_symbol, public_address) \<Rightarrow>
                            if beyond found public_address
                            then bindc (deref public_symbol) (\<lambda>public_symbol. ret None)
                            else ret None) in
          case found of
            Some (function, function_base, function_size) \<Rightarrow>
              if in_range address function_base function_size
              then bindc (deref function) (\<lambda>function.
                   ret (Some (with_parameter_size (fn_parameter_size function) result)))
              else public
          | None \<Rightarrow> public)))"

text \<open>The delta rules from position \<open>i\<close> on; a rule set that does not parse leaves the rules before it.\<close>

fun Basic_deltas :: "MemAddr \<Rightarrow> (MemAddr, u8 list) std_map \<Rightarrow> CFIFrameInfo \<Rightarrow> CFIFrameInfo" where
  "Basic_deltas address [] rules = rules"
| "Basic_deltas address ((k, str) # delta) rules =
     (if k \<le> address then Basic_deltas address delta (snd (CFIRuleParser_Parse (chars str) rules)) else rules)"

definition Basic_FindCFIFrameInfo :: "BasicModule \<Rightarrow> StackFrame \<Rightarrow> CFIFrameInfo option" where
  "Basic_FindCFIFrameInfo bm frame =
     (let address = sf_address frame in
      case RangeMap_RetrieveRange address (bm_cfi_initial_rules bm) of
        None \<Rightarrow> None
      | Some (initial_rules, initial_base, initial_size) \<Rightarrow>
          let (ok, rules) = CFIRuleParser_Parse (chars initial_rules) CFIFrameInfo_new in
          if \<not> ok then None
          else Some (Basic_deltas address (drop (lower_bound initial_base (bm_cfi_delta_rules bm)) (bm_cfi_delta_rules bm)) rules))"

section \<open>The module in a block of memory\<close>

type_synonym FastFunction = "StaticMap Function"

record FastModule =
  fm_files :: StaticMap
  fm_functions :: StaticMap
  fm_public_symbols :: StaticMap
  fm_is_corrupt :: bool
  fm_windows_frame_info :: "StaticContainedRangeMap list"
  fm_cfi_initial_rules :: StaticMap
  fm_cfi_delta_rules :: StaticMap

definition FastModule_new :: FastModule where
  "FastModule_new = \<lparr>fm_files = StaticMap_default, fm_functions = StaticMap_default, fm_public_symbols = StaticMap_default,
     fm_is_corrupt = False, fm_windows_frame_info = replicate STACK_INFO_LAST StaticContained_default,
     fm_cfi_initial_rules = StaticMap_default, fm_cfi_delta_rules = StaticMap_default\<rparr>"

definition kNumberMaps :: nat where "kNumberMaps = 5 + STACK_INFO_LAST"

text \<open>The offsets from \<open>ofs\<close> on, sums of the sizes at \<open>p\<close>, as \<^verbatim>\<open>unsigned int\<close>.\<close>

fun map_offsets :: "u8 list \<Rightarrow> nat \<Rightarrow> u32 \<Rightarrow> nat \<Rightarrow> u32 list comp" where
  "map_offsets mem p ofs 0 = ret [ofs]"
| "map_offsets mem p ofs (Suc n) =
     bindc (peek mem 4 p) (\<lambda>sz :: u32.
     bindc (map_offsets mem (p + 4) (ofs + sz) n) (\<lambda>offsets.
     ret (ofs # offsets)))"

fun contained_maps :: "u8 list \<Rightarrow> nat list \<Rightarrow> StaticContainedRangeMap list comp" where
  "contained_maps mem [] = ret []"
| "contained_maps mem (p # ps) =
     bindc (StaticContained_new mem p) (\<lambda>c.
     bindc (contained_maps mem ps) (\<lambda>cs.
     ret (c # cs)))"

definition Fast_LoadMapFromMemory :: "u8 list option \<Rightarrow> FastModule \<Rightarrow> (bool \<times> FastModule) comp" where
  "Fast_LoadMapFromMemory memory_buffer fm =
     (case memory_buffer of
        None \<Rightarrow> ret (False, fm)
      | Some mem \<Rightarrow>
          bindc (bool_Read mem 0) (\<lambda>(is_corrupt, mem_buffer).
          let header_size = of_nat (kNumberMaps * 4) in
          bindc (map_offsets mem mem_buffer header_size (kNumberMaps - 1)) (\<lambda>offsets.
          let pos = (\<lambda>map_id. mem_buffer + unat (offsets ! map_id)) in
          bindc (StaticMap_new mem (pos 0)) (\<lambda>files.
          bindc (StaticMap_new mem (pos 1)) (\<lambda>functions.
          bindc (StaticMap_new mem (pos 2)) (\<lambda>public_symbols.
          bindc (contained_maps mem (map pos [3..<3 + STACK_INFO_LAST])) (\<lambda>windows_frame_info.
          bindc (StaticMap_new mem (pos (3 + STACK_INFO_LAST))) (\<lambda>cfi_initial_rules.
          bindc (StaticMap_new mem (pos (4 + STACK_INFO_LAST))) (\<lambda>cfi_delta_rules.
          ret (True, \<lparr>fm_files = files, fm_functions = functions, fm_public_symbols = public_symbols,
                      fm_is_corrupt = is_corrupt, fm_windows_frame_info = windows_frame_info,
                      fm_cfi_initial_rules = cfi_initial_rules, fm_cfi_delta_rules = cfi_delta_rules\<rparr>)))))))))) "

text \<open>The map of the files has keys of type \<^verbatim>\<open>int\<close>.\<close>

definition FileMap_GetKeyAtIndex :: "u8 list \<Rightarrow> StaticMap \<Rightarrow> int \<Rightarrow> int comp" where
  "FileMap_GetKeyAtIndex mem s index =
     (if index < 0 \<or> index \<ge> num_nodes s then ret 0
      else bindc (peek mem 4 (nat (keys s + 4 * index))) (\<lambda>k :: u32. ret (sint k)))"

definition FileMap_find :: "u8 list \<Rightarrow> StaticMap \<Rightarrow> int \<Rightarrow> StaticMapIterator comp" where
  "FileMap_find mem s key =
     bindc (StaticMap_loop (FileMap_GetKeyAtIndex mem s) key 0 (num_nodes s)) (\<lambda>r.
     case r of Inl middle \<Rightarrow> IteratorAtIndex mem s middle
             | Inr _ \<Rightarrow> IteratorAtIndex mem s (num_nodes s))"

definition Fast_file :: "u8 list \<Rightarrow> FastModule \<Rightarrow> u32 \<Rightarrow> u8 list option comp" where
  "Fast_file mem fm file_id =
     bindc (FileMap_find mem (fm_files fm) (sint file_id)) (\<lambda>it.
     bindc (IteratorAtIndex mem (fm_files fm) (num_nodes (fm_files fm))) (\<lambda>end.
     if it_equal it end then ret None
     else
       bindc (FileMap_find mem (fm_files fm) (sint file_id)) (\<lambda>it.
       bindc (it_GetValueRawPtr mem it) (\<lambda>p.
       bindc (deref p) (\<lambda>p.
       bindc (cstring mem p) (\<lambda>name. ret (Some name)))))))"

definition Fast_line :: "u8 list \<Rightarrow> FastModule \<Rightarrow> MemAddr \<Rightarrow> FastFunction \<Rightarrow> StackFrame \<Rightarrow> StackFrame comp" where
  "Fast_line mem fm address func frame =
     bindc (StaticRangeMap_RetrieveRange mem (fn_lines func) address) (\<lambda>r.
     case r of
       None \<Rightarrow> ret frame
     | Some (line_ptr, line_base, _) \<Rightarrow>
         bindc (Line_CopyFrom mem line_ptr) (\<lambda>line.
         bindc (Fast_file mem fm (source_file_id line)) (\<lambda>name.
         let frame = (case name of None \<Rightarrow> frame | Some name \<Rightarrow> frame\<lparr>sf_source_file_name := name\<rparr>) in
         ret (frame\<lparr>sf_source_line := line_number line,
                    sf_source_line_base := sf_module_base frame + line_base\<rparr>))))"

text \<open>The function the search for the nearest range has set: \<^verbatim>\<open>func_ptr\<close> and \<^verbatim>\<open>function_base\<close>.\<close>

definition as_ptr :: "(nat \<times> MemAddr \<times> MemAddr) option \<Rightarrow> (nat option \<times> MemAddr \<times> MemAddr) option" where
  "as_ptr found = map_option (\<lambda>(p, base, sz). (Some p, base, sz)) found"

definition Fast_public :: "u8 list \<Rightarrow> FastModule \<Rightarrow> MemAddr \<Rightarrow> (nat \<times> MemAddr \<times> MemAddr) option \<Rightarrow>
    StackFrame \<Rightarrow> StackFrame comp" where
  "Fast_public mem fm address found frame =
     bindc (StaticAddressMap_Retrieve mem (fm_public_symbols fm) address) (\<lambda>r.
     case r of
       None \<Rightarrow> ret frame
     | Some (public_symbol_ptr, public_address) \<Rightarrow>
         if beyond (as_ptr found) public_address
         then bindc (deref public_symbol_ptr) (\<lambda>p.
              bindc (PublicSymbol_CopyFrom mem p) (\<lambda>public_symbol.
              ret (frame\<lparr>sf_function_name := ps_name public_symbol,
                         sf_function_base := sf_module_base frame + public_address\<rparr>)))
         else ret frame)"

definition Fast_LookupAddress :: "u8 list \<Rightarrow> FastModule \<Rightarrow> StackFrame \<Rightarrow> StackFrame comp" where
  "Fast_LookupAddress mem fm frame =
     (let address = sf_address frame in
      bindc (StaticRangeMap_RetrieveNearestRange mem (fm_functions fm) address) (\<lambda>found.
      case found of
        Some (func_ptr, function_base, function_size) \<Rightarrow>
          if in_range address function_base function_size
          then bindc (Function_CopyFrom mem func_ptr) (\<lambda>func.
               Fast_line mem fm address func
                 (frame\<lparr>sf_function_name := fn_name func,
                        sf_function_base := sf_module_base frame + function_base\<rparr>))
          else Fast_public mem fm address found frame
      | None \<Rightarrow> Fast_public mem fm address found frame))"

definition Fast_FindWindowsFrameInfo :: "u8 list \<Rightarrow> FastModule \<Rightarrow> StackFrame \<Rightarrow> WindowsFrameInfo option comp" where
  "Fast_FindWindowsFrameInfo mem fm frame =
     (let address = sf_address frame; result = WindowsFrameInfo_new in
      bindc (at (fm_windows_frame_info fm) STACK_INFO_FRAME_DATA) (\<lambda>frame_data.
      bindc (at (fm_windows_frame_info fm) STACK_INFO_FPO) (\<lambda>fpo.
      bindc (StaticContained_RetrieveRange mem frame_data address) (\<lambda>r.
      bindc (case r of Some info \<Rightarrow> ret (Some info) | None \<Rightarrow> StaticContained_RetrieveRange mem fpo address) (\<lambda>r.
      case r of
        Some frame_info_ptr \<Rightarrow> bindc (deref frame_info_ptr) (\<lambda>p.
          bindc (CopyWFI mem p) (\<lambda>w. ret (Some (WindowsFrameInfo_CopyFrom w result))))
      | None \<Rightarrow>
          bindc (StaticRangeMap_RetrieveNearestRange mem (fm_functions fm) address) (\<lambda>found.
          let public = bindc (StaticAddressMap_Retrieve mem (fm_public_symbols fm) address) (\<lambda>r.
                       case r of
                         None \<Rightarrow> ret None
                       | Some (public_symbol_ptr, public_address) \<Rightarrow>
                           if beyond (as_ptr found) public_address
                           then bindc (deref public_symbol_ptr) (\<lambda>p.
                                bindc (PublicSymbol_CopyFrom mem p) (\<lambda>public_symbol. ret None))
                           else ret None) in
          case found of
            Some (function_ptr, function_base, function_size) \<Rightarrow>
              if in_range address function_base function_size
              then bindc (Function_CopyFrom mem function_ptr) (\<lambda>function.
                   ret (Some (with_parameter_size (fn_parameter_size function) result)))
              else public
          | None \<Rightarrow> public))))))"

partial_function (option) Fast_deltas ::
    "u8 list \<Rightarrow> StaticMap \<Rightarrow> MemAddr \<Rightarrow> StaticMapIterator \<Rightarrow> CFIFrameInfo \<Rightarrow> CFIFrameInfo comp" where
  "Fast_deltas mem s address delta rules =
     bindc (IteratorAtIndex mem s (num_nodes s)) (\<lambda>end.
     if it_equal delta end then ret rules
     else
       bindc (it_GetKey mem delta) (\<lambda>k.
       if k \<le> address
       then bindc (it_GetValueRawPtr mem delta) (\<lambda>p.
            bindc (deref p) (\<lambda>p.
            bindc (cstring mem p) (\<lambda>str.
            bindc (it_incr_post delta) (\<lambda>it.
            Fast_deltas mem s address (snd it) (snd (CFIRuleParser_Parse (chars str) rules))))))
       else ret rules))"

definition Fast_FindCFIFrameInfo :: "u8 list \<Rightarrow> FastModule \<Rightarrow> StackFrame \<Rightarrow> CFIFrameInfo option comp" where
  "Fast_FindCFIFrameInfo mem fm frame =
     (let address = sf_address frame in
      bindc (StaticRangeMap_RetrieveRange mem (fm_cfi_initial_rules fm) address) (\<lambda>r.
      case r of
        None \<Rightarrow> ret None
      | Some (initial_rules, initial_base, initial_size) \<Rightarrow>
          bindc (cstring mem initial_rules) (\<lambda>str.
          let (ok, rules) = CFIRuleParser_Parse (chars str) CFIFrameInfo_new in
          if \<not> ok then ret None
          else
            bindc (StaticMap_lower_bound mem (fm_cfi_delta_rules fm) initial_base) (\<lambda>delta.
            bindc (Fast_deltas mem (fm_cfi_delta_rules fm) address delta rules) (\<lambda>rules.
            ret (Some rules))))))"

section \<open>The serializer of modules\<close>

definition map_sizes :: "BasicModule \<Rightarrow> nat list" where
  "map_sizes bm =
     [StdMapSerializer_SizeOf 4 string_SizeOf (bm_files bm),
      RangeMapSerializer_SizeOf (linked_SizeOf Function_SizeOf) (bm_functions bm),
      StdMapSerializer_SizeOf 8 (linked_SizeOf PublicSymbol_SizeOf) (bm_public_symbols bm)] @
     map (Contained_SizeOf (linked_SizeOf WFI_SizeOf)) (bm_windows_frame_info bm) @
     [RangeMapSerializer_SizeOf string_SizeOf (bm_cfi_initial_rules bm),
      StdMapSerializer_SizeOf 8 string_SizeOf (bm_cfi_delta_rules bm)]"

definition Module_SizeOf :: "BasicModule \<Rightarrow> nat" where
  "Module_SizeOf bm = 1 + kNumberMaps * 4 + sum_list (map_sizes bm) + 1"

fun frames_Write :: "(MemAddr, WindowsFrameInfo option) ContainedRangeMap list \<Rightarrow> ptr \<Rightarrow> u8 list \<Rightarrow> (ptr \<times> u8 list) comp" where
  "frames_Write [] dest mem = ret (dest, mem)"
| "frames_Write (t # ts) dest mem =
     bindc (Contained_Write (linked_SizeOf WFI_SizeOf) (linked_Write WFI_Write) t dest mem) (\<lambda>(dest, mem).
     frames_Write ts dest mem)"

fun sizes_Write :: "nat list \<Rightarrow> ptr \<Rightarrow> u8 list \<Rightarrow> (ptr \<times> u8 list) comp" where
  "sizes_Write [] dest mem = ret (dest, mem)"
| "sizes_Write (n # ns) dest mem =
     bindc (Simple_Write 4 (of_nat n :: u32) dest mem) (\<lambda>(dest, mem). sizes_Write ns dest mem)"

definition Module_Write :: "BasicModule writer" where
  "Module_Write bm dest mem =
     bindc (bool_Write (bm_is_corrupt bm) dest mem) (\<lambda>(dest, mem).
     bindc (sizes_Write (map_sizes bm) dest mem) (\<lambda>(dest, mem).
     bindc (StdMapSerializer_Write 4 string_Write (bm_files bm) dest mem) (\<lambda>(dest, mem).
     bindc (RangeMapSerializer_Write (linked_Write Function_Write) (bm_functions bm) dest mem) (\<lambda>(dest, mem).
     bindc (StdMapSerializer_Write 8 (linked_Write PublicSymbol_Write) (bm_public_symbols bm) dest mem) (\<lambda>(dest, mem).
     bindc (frames_Write (bm_windows_frame_info bm) dest mem) (\<lambda>(dest, mem).
     bindc (RangeMapSerializer_Write string_Write (bm_cfi_initial_rules bm) dest mem) (\<lambda>(dest, mem).
     bindc (StdMapSerializer_Write 8 string_Write (bm_cfi_delta_rules bm) dest mem) (\<lambda>(dest, mem).
     Simple_Write 1 (0 :: u8) dest mem))))))))"

definition Module_Serialize :: "(nat \<Rightarrow> u8) \<Rightarrow> BasicModule \<Rightarrow> (u8 list \<times> nat) comp" where
  "Module_Serialize fill bm =
     (let size_to_alloc = Module_SizeOf bm mod 2 ^ 32 in
      bindc (Module_Write bm (Some 0) (alloc fill size_to_alloc)) (\<lambda>(_, mem).
      ret (mem, size_to_alloc)))"

section \<open>What the serializer writes\<close>

interpretation func_ptr: serializer "linked_SizeOf Function_SizeOf" "linked_Write Function_Write"
    "case_option [] function_bytes" "case_option True (\<lambda>f. 0 \<notin> set (fn_name f))"
  by (rule func.linked)

interpretation func_range: serializer "Range_SizeOf (linked_SizeOf Function_SizeOf)" "Range_Write (linked_Write Function_Write)"
    "range_bytes (case_option [] function_bytes)" "\<lambda>r. case_option True (\<lambda>f. 0 \<notin> set (fn_name f)) (range_entry r)"
  by (rule func_ptr.ranged)

text \<open>A module as the parser of symbol files builds it: ordered maps without null pointers, and texts without zero bytes.\<close>

definition function_ok :: "BasicFunction \<Rightarrow> bool" where
  "function_ok f \<longleftrightarrow> 0 \<notin> set (fn_name f) \<and> map_ok (fn_lines f) \<and> (\<forall>r \<in> set (fn_lines f). range_entry (snd r) \<noteq> None)"

definition frames_valid :: "(MemAddr, WindowsFrameInfo option) ContainedRangeMap \<Rightarrow> bool" where
  "frames_valid t \<longleftrightarrow> (\<forall>(b, h, e) \<in> desc t. \<forall>w. e = Some w \<longrightarrow> wfi_valid w = - 1)"

definition module_ok :: "BasicModule \<Rightarrow> bool" where
  "module_ok bm \<longleftrightarrow>
     sorted_wrt (<) (map (\<lambda>e. sint (fst e)) (bm_files bm)) \<and> (\<forall>e \<in> set (bm_files bm). 0 \<notin> set (snd e)) \<and>
     map_ok (bm_functions bm) \<and> (\<forall>r \<in> set (bm_functions bm). \<exists>f. range_entry (snd r) = Some f \<and> function_ok f) \<and>
     map_ok (bm_public_symbols bm) \<and> (\<forall>e \<in> set (bm_public_symbols bm). \<exists>q. snd e = Some q \<and> 0 \<notin> set (ps_name q)) \<and>
     length (bm_windows_frame_info bm) = STACK_INFO_LAST \<and> (\<forall>t \<in> set (bm_windows_frame_info bm). crm_ok t \<and> frames_ok t \<and> frames_valid t) \<and>
     map_ok (bm_cfi_initial_rules bm) \<and> (\<forall>r \<in> set (bm_cfi_initial_rules bm). 0 \<notin> set (range_entry (snd r))) \<and>
     map_ok (bm_cfi_delta_rules bm) \<and> (\<forall>e \<in> set (bm_cfi_delta_rules bm). 0 \<notin> set (snd e))"

abbreviation frame_bytes :: "(MemAddr, WindowsFrameInfo option) ContainedRangeMap \<Rightarrow> u8 list" where
  "frame_bytes \<equiv> contained_bytes (linked_SizeOf WFI_SizeOf) (case_option [] wfi_bytes)"

definition part_bytes :: "BasicModule \<Rightarrow> u8 list list" where
  "part_bytes bm =
     [map_bytes 4 string_SizeOf (\<lambda>str. str @ [0]) (bm_files bm),
      map_bytes 8 (Range_SizeOf (linked_SizeOf Function_SizeOf)) (range_bytes (case_option [] function_bytes)) (bm_functions bm),
      map_bytes 8 (linked_SizeOf PublicSymbol_SizeOf) (case_option [] symbol_bytes) (bm_public_symbols bm)] @
     map frame_bytes (bm_windows_frame_info bm) @
     [map_bytes 8 (Range_SizeOf string_SizeOf) (range_bytes (\<lambda>str. str @ [0])) (bm_cfi_initial_rules bm),
      map_bytes 8 string_SizeOf (\<lambda>str. str @ [0]) (bm_cfi_delta_rules bm)]"

definition sizes_bytes :: "nat list \<Rightarrow> u8 list" where
  "sizes_bytes ns = concat (map (\<lambda>n. le_bytes 4 (unat (of_nat n :: u32))) ns)"

definition module_bytes :: "BasicModule \<Rightarrow> u8 list" where
  "module_bytes bm =
     [if bm_is_corrupt bm then 255 else 0] @ sizes_bytes (map_sizes bm) @ concat (part_bytes bm) @ [0]"

lemma module_good:
  assumes "module_ok bm"
  shows "good_map (\<lambda>str. 0 \<notin> set str) (bm_files bm)"
    and "good_map (\<lambda>r. case_option True (\<lambda>f. 0 \<notin> set (fn_name f)) (range_entry r)) (bm_functions bm)"
    and "good_map (case_option True (\<lambda>p. 0 \<notin> set (ps_name p))) (bm_public_symbols bm)"
    and "\<forall>t \<in> set (bm_windows_frame_info bm). contained_good (case_option True (\<lambda>w. 0 \<notin> set (program_string w))) t"
    and "good_map (\<lambda>r. 0 \<notin> set (range_entry r)) (bm_cfi_initial_rules bm)"
    and "good_map (\<lambda>str. 0 \<notin> set str) (bm_cfi_delta_rules bm)"
proof -
  have "case_option True (\<lambda>f. 0 \<notin> set (fn_name f)) (range_entry (snd r))" if r: "r \<in> set (bm_functions bm)" for r
  proof -
    from assms r obtain f where "range_entry (snd r) = Some f" "function_ok f" unfolding module_ok_def by blast
    then show ?thesis by (simp add: function_ok_def)
  qed
  then show "good_map (\<lambda>r. case_option True (\<lambda>f. 0 \<notin> set (fn_name f)) (range_entry r)) (bm_functions bm)"
    by (simp add: good_map_def)
  have "case_option True (\<lambda>p. 0 \<notin> set (ps_name p)) (snd e)" if e: "e \<in> set (bm_public_symbols bm)" for e
  proof -
    from assms e obtain q where "snd e = Some q" "0 \<notin> set (ps_name q)" unfolding module_ok_def by blast
    then show ?thesis by simp
  qed
  then show "good_map (case_option True (\<lambda>p. 0 \<notin> set (ps_name p))) (bm_public_symbols bm)"
    by (simp add: good_map_def)
qed (use assms in \<open>simp_all add: module_ok_def good_map_def frames_ok_def\<close>)

lemma length_parts:
  assumes "module_ok bm"
  shows "map length (part_bytes bm) = map_sizes bm"
  using module_good [OF assms]
  by (simp add: part_bytes_def map_sizes_def cstr.length_map_bytes func_range.length_map_bytes symbol_ptr.length_map_bytes
      cstr_range.length_map_bytes RangeMapSerializer_std wfi_tree.size_bytes)

lemma writes_frames:
  assumes "\<forall>t \<in> set ts. contained_good (case_option True (\<lambda>w. 0 \<notin> set (program_string w))) t"
  shows "writes (frames_Write ts) (concat (map frame_bytes ts))"
  using assms
proof (induction ts)
  case Nil
  then show ?case using writes_empty by (simp add: writes_def)
next
  case (Cons t ts)
  then show ?case
    using writes_seq [OF wfi_tree.write_bytes [of t], of "frames_Write ts"] by (simp add: writes_def)
qed

lemma writes_sizes: "writes (sizes_Write ns) (sizes_bytes ns)"
proof (induction ns)
  case Nil
  then show ?case using writes_empty by (simp add: writes_def sizes_bytes_def)
next
  case (Cons n ns)
  then show ?case
    using writes_seq [OF writes_Simple [of 4 "of_nat n :: u32"] Cons] by (simp add: writes_def sizes_bytes_def)
qed

lemma Module_writes:
  assumes "module_ok bm"
  shows "writes (Module_Write bm) (module_bytes bm)"
proof -
  note good = module_good [OF assms]
  have zero: "writes (Simple_Write 1 (0 :: u8)) [0]" using writes_Simple [of 1 "0 :: u8"] by simp
  have bytes: "module_bytes bm =
      [if bm_is_corrupt bm then 255 else 0] @ sizes_bytes (map_sizes bm) @
      map_bytes 4 string_SizeOf (\<lambda>str. str @ [0]) (bm_files bm) @
      map_bytes 8 (Range_SizeOf (linked_SizeOf Function_SizeOf)) (range_bytes (case_option [] function_bytes)) (bm_functions bm) @
      map_bytes 8 (linked_SizeOf PublicSymbol_SizeOf) (case_option [] symbol_bytes) (bm_public_symbols bm) @
      concat (map frame_bytes (bm_windows_frame_info bm)) @
      map_bytes 8 (Range_SizeOf string_SizeOf) (range_bytes (\<lambda>str. str @ [0])) (bm_cfi_initial_rules bm) @
      map_bytes 8 string_SizeOf (\<lambda>str. str @ [0]) (bm_cfi_delta_rules bm) @ [0]"
    by (simp add: module_bytes_def part_bytes_def)
  show ?thesis
    unfolding Module_Write_def [abs_def] bytes RangeMapSerializer_std
    by (intro writes_seq writes_bool writes_sizes writes_frames zero good cstr.StdMapSerializer_writes
        func_range.StdMapSerializer_writes symbol_ptr.StdMapSerializer_writes cstr_range.StdMapSerializer_writes)
qed

lemma length_sizes_bytes [simp]: "length (sizes_bytes ns) = 4 * length ns"
  by (induction ns) (simp_all add: sizes_bytes_def)

lemma length_map_sizes: "module_ok bm \<Longrightarrow> length (map_sizes bm) = kNumberMaps"
  by (simp add: map_sizes_def module_ok_def kNumberMaps_def)

lemma length_module_bytes:
  assumes "module_ok bm"
  shows "length (module_bytes bm) = Module_SizeOf bm"
  by (simp add: module_bytes_def Module_SizeOf_def length_concat length_parts [OF assms] length_map_sizes [OF assms])

lemma Module_Serialize_bytes:
  assumes "module_ok bm" "Module_SizeOf bm < 2 ^ 32"
  shows "Module_Serialize fill bm = ret (module_bytes bm, Module_SizeOf bm)"
proof -
  have len: "length (alloc fill (Module_SizeOf bm)) = length (module_bytes bm)"
    by (simp add: alloc_def length_module_bytes [OF assms(1)])
  show ?thesis
    using assms(2) writesD [OF Module_writes [OF assms(1)] len, of "[]" "[]"]
    by (simp add: Module_Serialize_def Let_def)
qed

section \<open>Loading what was written\<close>

text \<open>The block as it is loaded, which may be longer than what the serializer wrote.\<close>

definition loaded :: "BasicModule \<Rightarrow> u8 list \<Rightarrow> u8 list" where
  "loaded bm rest = module_bytes bm @ rest"

lemma length_loaded: "module_ok bm \<Longrightarrow> length (loaded bm rest) = Module_SizeOf bm + length rest"
  by (simp add: loaded_def length_module_bytes)

text \<open>The position of a part of the module in the block.\<close>

definition part_pos :: "BasicModule \<Rightarrow> nat \<Rightarrow> nat" where
  "part_pos bm i = 41 + sum_list (take i (map_sizes bm))"

definition fast_view :: "BasicModule \<Rightarrow> u8 list \<Rightarrow> FastModule" where
  "fast_view bm rest =
     (let mem = loaded bm rest; view = (\<lambda>i. static_view (mem, part_pos bm i)) in
      \<lparr>fm_files = view 0, fm_functions = view 1, fm_public_symbols = view 2, fm_is_corrupt = bm_is_corrupt bm,
       fm_windows_frame_info =
         map (\<lambda>i. contained_view (linked_SizeOf WFI_SizeOf) (bm_windows_frame_info bm ! i) mem (part_pos bm (3 + i)))
           [0..<STACK_INFO_LAST],
       fm_cfi_initial_rules = view 8, fm_cfi_delta_rules = view 9\<rparr>)"

lemma map_offsets_sizes:
  assumes "n \<le> length ns"
  shows "map_offsets (A @ sizes_bytes ns @ R) (length A) ofs n =
    ret (map (\<lambda>i. ofs + of_nat (sum_list (take i ns))) [0..<Suc n])"
  using assms
proof (induction n arbitrary: A ns ofs)
  case (Suc n)
  then obtain k ns' where ns: "ns = k # ns'" "n \<le> length ns'" by (cases ns) auto
  let ?k = "le_bytes 4 (unat (of_nat k :: u32))"
  have peek: "peek (A @ sizes_bytes ns @ R) 4 (length A) = ret (of_nat k :: u32)"
    using peek_append [of 4 "length A" A "of_nat k :: u32" "sizes_bytes ns' @ R"] by (simp add: ns(1) sizes_bytes_def)
  have mem: "A @ sizes_bytes ns @ R = (A @ ?k) @ sizes_bytes ns' @ R" by (simp add: ns(1) sizes_bytes_def)
  have "map_offsets (A @ sizes_bytes ns @ R) (length A + 4) (ofs + of_nat k) n =
      ret (map (\<lambda>i. ofs + of_nat k + of_nat (sum_list (take i ns'))) [0..<Suc n])"
    unfolding mem using Suc.IH [OF ns(2), of "A @ ?k" "ofs + of_nat k"] by simp
  moreover have "map (\<lambda>i. ofs + of_nat (sum_list (take i ns))) [0..<Suc (Suc n)] =
      ofs # map (\<lambda>i. ofs + of_nat k + of_nat (sum_list (take i ns'))) [0..<Suc n]"
    by (rule nth_equalityI) (auto simp: nth_Cons ns(1) add.assoc simp del: upt_Suc split: nat.split)
  ultimately show ?case by (simp only: map_offsets.simps peek bindc_ret)
qed simp

lemma part_at:
  assumes "module_ok bm" "i < kNumberMaps"
  obtains pre post where "loaded bm rest = pre @ part_bytes bm ! i @ post" "length pre = part_pos bm i"
proof -
  let ?head = "[if bm_is_corrupt bm then 255 else 0] @ sizes_bytes (map_sizes bm)"
  let ?ps = "part_bytes bm"
  have i: "i < length ?ps" using assms length_map_sizes [OF assms(1)] length_parts [OF assms(1)] by (metis length_map)
  have "loaded bm rest = (?head @ concat (take i ?ps)) @ ?ps ! i @ (concat (drop (Suc i) ?ps) @ [0] @ rest)"
    unfolding loaded_def module_bytes_def by (subst id_take_nth_drop [OF i]) simp
  moreover have "length (?head @ concat (take i ?ps)) = part_pos bm i"
    by (simp add: part_pos_def length_concat take_map [symmetric] length_parts [OF assms(1)] length_map_sizes [OF assms(1)]
        kNumberMaps_def STACK_INFO_LAST_def)
  ultimately show thesis by (rule that)
qed

lemma part_pos_small:
  assumes "module_ok bm" "i \<le> kNumberMaps"
  shows "part_pos bm i + 1 \<le> Module_SizeOf bm"
proof -
  have "sum_list (take i (map_sizes bm)) \<le> sum_list (map_sizes bm)"
    by (metis append_take_drop_id le_add1 sum_list_append)
  then show ?thesis by (simp add: part_pos_def Module_SizeOf_def kNumberMaps_def STACK_INFO_LAST_def)
qed

lemma contained_maps_all:
  assumes "list_all2 (\<lambda>p c. StaticContained_new mem p = ret c) ps cs"
  shows "contained_maps mem ps = ret cs"
  using assms by (induction rule: list_all2_induct) auto

lemma count_held_map:
  fixes m :: "('k::len word, 'e) std_map"
  assumes ser: "serializer szof wr bytes good" and good: "good_map good m"
    and small: "StdMapSerializer_SizeOf kn szof m < 2 ^ 32" and pos: "p = length pre"
  shows "count_held (pre @ map_bytes kn szof bytes m @ post, p)" "static_count (pre @ map_bytes kn szof bytes m @ post, p) = length m"
proof -
  note raw = serializer.written_raw(1-2) [OF ser good, where kn = kn and pre = pre and post = post]
  have le: "le_word (le_bytes 4 (unat w)) = w" for w :: u32 by (rule le_word_bytes) simp
  have n: "length m < 2 ^ 30"
    using small by (simp add: StdMapSerializer_SizeOf_def Simple_SizeOf_def sum_entries)
  show cnt: "static_count (pre @ map_bytes kn szof bytes m @ post, p) = length m"
    unfolding static_count_def fst_conv snd_conv pos raw(1) le using n by (simp add: unat_of_nat)
  show "count_held (pre @ map_bytes kn szof bytes m @ post, p)"
    unfolding count_held_def cnt unfolding fst_conv snd_conv pos using n raw(2) by simp
qed

text \<open>The parts of a module, with their sizes.\<close>

lemma part_simps:
  assumes "module_ok bm"
  shows "part_bytes bm ! 0 = map_bytes 4 string_SizeOf (\<lambda>str. str @ [0]) (bm_files bm)"
    and "map_sizes bm ! 0 = StdMapSerializer_SizeOf 4 string_SizeOf (bm_files bm)"
    and "part_bytes bm ! 1 = map_bytes 8 (Range_SizeOf (linked_SizeOf Function_SizeOf)) (range_bytes (case_option [] function_bytes)) (bm_functions bm)"
    and "map_sizes bm ! 1 = RangeMapSerializer_SizeOf (linked_SizeOf Function_SizeOf) (bm_functions bm)"
    and "part_bytes bm ! 2 = map_bytes 8 (linked_SizeOf PublicSymbol_SizeOf) (case_option [] symbol_bytes) (bm_public_symbols bm)"
    and "map_sizes bm ! 2 = StdMapSerializer_SizeOf 8 (linked_SizeOf PublicSymbol_SizeOf) (bm_public_symbols bm)"
    and "\<And>i. i < STACK_INFO_LAST \<Longrightarrow> part_bytes bm ! (3 + i) = frame_bytes (bm_windows_frame_info bm ! i)"
    and "\<And>i. i < STACK_INFO_LAST \<Longrightarrow> map_sizes bm ! (3 + i) = Contained_SizeOf (linked_SizeOf WFI_SizeOf) (bm_windows_frame_info bm ! i)"
    and "part_bytes bm ! 8 = map_bytes 8 (Range_SizeOf string_SizeOf) (range_bytes (\<lambda>str. str @ [0])) (bm_cfi_initial_rules bm)"
    and "map_sizes bm ! 8 = RangeMapSerializer_SizeOf string_SizeOf (bm_cfi_initial_rules bm)"
    and "part_bytes bm ! 9 = map_bytes 8 string_SizeOf (\<lambda>str. str @ [0]) (bm_cfi_delta_rules bm)"
    and "map_sizes bm ! 9 = StdMapSerializer_SizeOf 8 string_SizeOf (bm_cfi_delta_rules bm)"
  using assms by (simp_all add: part_bytes_def map_sizes_def module_ok_def STACK_INFO_LAST_def nth_append nth_Cons')

lemma part_cases:
  assumes "module_ok bm" "Module_SizeOf bm + length rest < 2 ^ 32" "i < 10"
  obtains pre post where "loaded bm rest = pre @ part_bytes bm ! i @ post" "part_pos bm i = length pre" "map_sizes bm ! i < 2 ^ 32"
proof -
  have "map_sizes bm ! i \<le> sum_list (map_sizes bm)"
    using assms(3) length_map_sizes [OF assms(1)] by (intro member_le_sum_list) (auto simp: kNumberMaps_def STACK_INFO_LAST_def)
  then have "map_sizes bm ! i < 2 ^ 32" using assms(2) by (simp add: Module_SizeOf_def)
  moreover obtain pre post where "loaded bm rest = pre @ part_bytes bm ! i @ post" "length pre = part_pos bm i"
    using part_at [OF assms(1), of i] assms(3) by (auto simp: kNumberMaps_def STACK_INFO_LAST_def)
  ultimately show thesis using that by metis
qed

lemma parts_held:
  assumes "module_ok bm" "Module_SizeOf bm + length rest < 2 ^ 32" "i \<in> {0, 1, 2, 8, 9}"
  shows "count_held (loaded bm rest, part_pos bm i)"
proof -
  have "i < 10" using assms(3) by auto
  from part_cases [OF assms(1,2) this] obtain pre post where
    at: "loaded bm rest = pre @ part_bytes bm ! i @ post" "part_pos bm i = length pre" "map_sizes bm ! i < 2 ^ 32" by metis
  note parts = part_simps [OF assms(1)] and good = module_good [OF assms(1)]
  have sizes: "i = 0 \<Longrightarrow> StdMapSerializer_SizeOf 4 string_SizeOf (bm_files bm) < 2 ^ 32"
    "i = 1 \<Longrightarrow> StdMapSerializer_SizeOf 8 (Range_SizeOf (linked_SizeOf Function_SizeOf)) (bm_functions bm) < 2 ^ 32"
    "i = 2 \<Longrightarrow> StdMapSerializer_SizeOf 8 (linked_SizeOf PublicSymbol_SizeOf) (bm_public_symbols bm) < 2 ^ 32"
    "i = 8 \<Longrightarrow> StdMapSerializer_SizeOf 8 (Range_SizeOf string_SizeOf) (bm_cfi_initial_rules bm) < 2 ^ 32"
    "i = 9 \<Longrightarrow> StdMapSerializer_SizeOf 8 string_SizeOf (bm_cfi_delta_rules bm) < 2 ^ 32"
    using at(3) parts(2,4,6,10,12) by (simp_all add: RangeMapSerializer_std)
  from assms(3) consider "i = 0" | "i = 1" | "i = 2" | "i = 8" | "i = 9" by blast
  then show ?thesis
  proof cases
    case 1
    show ?thesis unfolding at(1) unfolding 1 parts(1)
      by (rule count_held_map(1) [OF cstr.serializer_axioms good(1) sizes(1) [OF 1] at(2) [unfolded 1]])
  next
    case 2
    show ?thesis unfolding at(1) unfolding 2 parts(3)
      by (rule count_held_map(1) [OF func_range.serializer_axioms good(2) sizes(2) [OF 2] at(2) [unfolded 2]])
  next
    case 3
    show ?thesis unfolding at(1) unfolding 3 parts(5)
      by (rule count_held_map(1) [OF symbol_ptr.serializer_axioms good(3) sizes(3) [OF 3] at(2) [unfolded 3]])
  next
    case 4
    show ?thesis unfolding at(1) unfolding 4 parts(9)
      by (rule count_held_map(1) [OF cstr_range.serializer_axioms good(5) sizes(4) [OF 4] at(2) [unfolded 4]])
  next
    case 5
    show ?thesis unfolding at(1) unfolding 5 parts(11)
      by (rule count_held_map(1) [OF cstr.serializer_axioms good(6) sizes(5) [OF 5] at(2) [unfolded 5]])
  qed
qed

text \<open>A tree of frame records at its place.\<close>

lemma frame_part:
  assumes "module_ok bm" "Module_SizeOf bm + length rest < 2 ^ 32" "i < STACK_INFO_LAST"
  defines "t \<equiv> bm_windows_frame_info bm ! i" and "p \<equiv> part_pos bm (3 + i)"
  shows "contained_good (case_option True (\<lambda>w. 0 \<notin> set (program_string w))) t"
    and "Contained_SizeOf (linked_SizeOf WFI_SizeOf) t < 2 ^ 32" "crm_ok t" "frames_ok t" "frames_valid t"
    and "p + Contained_SizeOf (linked_SizeOf WFI_SizeOf) t \<le> length (loaded bm rest)"
    and "take (Contained_SizeOf (linked_SizeOf WFI_SizeOf) t) (drop p (loaded bm rest)) = frame_bytes t"
proof -
  have "t \<in> set (bm_windows_frame_info bm)" using assms(1,3) by (simp add: t_def module_ok_def)
  then show "crm_ok t" "frames_ok t" "frames_valid t" using assms(1) by (auto simp: module_ok_def)
  then show good: "contained_good (case_option True (\<lambda>w. 0 \<notin> set (program_string w))) t" by (simp add: frames_ok_def)
  have "3 + i < 10" using assms(3) by (simp add: STACK_INFO_LAST_def)
  from part_cases [OF assms(1,2) this] obtain pre post where
    at: "loaded bm rest = pre @ frame_bytes t @ post" "length pre = p" "Contained_SizeOf (linked_SizeOf WFI_SizeOf) t < 2 ^ 32"
    using part_simps(7,8) [OF assms(1,3)] by (metis t_def p_def)
  then show "Contained_SizeOf (linked_SizeOf WFI_SizeOf) t < 2 ^ 32"
    "p + Contained_SizeOf (linked_SizeOf WFI_SizeOf) t \<le> length (loaded bm rest)"
    "take (Contained_SizeOf (linked_SizeOf WFI_SizeOf) t) (drop p (loaded bm rest)) = frame_bytes t"
    using wfi_tree.size_bytes [OF good] by auto
qed

lemma Fast_LoadMapFromMemory_written:
  assumes ok: "module_ok bm" and small: "Module_SizeOf bm + length rest < 2 ^ 32"
  shows "Fast_LoadMapFromMemory (Some (loaded bm rest)) fm = ret (True, fast_view bm rest)"
proof -
  let ?mem = "loaded bm rest" and ?p = "part_pos bm"
  note defs = kNumberMaps_def STACK_INFO_LAST_def
  let ?ofs = "map (\<lambda>i. 40 + of_nat (sum_list (take i (map_sizes bm))) :: u32) [0..<10]"
  have corrupt: "bool_Read ?mem 0 = ret (bm_is_corrupt bm, 1)"
    by (simp add: bool_Read_def loaded_def module_bytes_def peek_def le_word_def)
  have offsets: "map_offsets ?mem 1 40 9 = ret ?ofs"
    using map_offsets_sizes [of 9 "map_sizes bm" "[if bm_is_corrupt bm then 255 else 0]" "concat (part_bytes bm) @ [0] @ rest"]
      length_map_sizes [OF ok] by (simp add: loaded_def module_bytes_def defs del: upt_Suc map_offsets.simps)
  have pos: "1 + unat (?ofs ! i) = ?p i" if "i < 10" for i
  proof -
    have "40 + sum_list (take i (map_sizes bm)) < 2 ^ 32"
      using part_pos_small [OF ok, of i] small that by (simp add: part_pos_def defs)
    then have "unat (of_nat (40 + sum_list (take i (map_sizes bm))) :: u32) = 40 + sum_list (take i (map_sizes bm))"
      unfolding unat_of_nat by simp
    then show ?thesis using that by (simp add: part_pos_def)
  qed
  have new: "StaticMap_new ?mem (?p i) = ret (static_view (?mem, ?p i))" if "i \<in> {0, 1, 2, 8, 9}" for i
    using StaticMap_new_count [OF parts_held [OF ok small that]] by simp
  let ?view = "\<lambda>i. contained_view (linked_SizeOf WFI_SizeOf) (bm_windows_frame_info bm ! i) ?mem (?p (3 + i))"
  have "contained_maps ?mem (map (\<lambda>i. ?p i) [3..<8]) = ret (map ?view [0..<5])"
  proof (intro contained_maps_all list_all2_all_nthI)
    fix i assume "i < length (map ?p [3..<8])"
    then have i: "i < 5" by simp
    note part = frame_part [OF ok small i [folded STACK_INFO_LAST_def]]
    show "StaticContained_new ?mem (map ?p [3..<8] ! i) = ret (map ?view [0..<5] ! i)"
      using wfi_ptr.contained_node(5) [OF part(1-3,6,7)] i by (simp del: upt_rec_numeral)
  qed simp
  moreover have "map (\<lambda>i. 1 + unat (?ofs ! i)) [3..<8] = map ?p [3..<8]" using pos by (intro map_cong) auto
  ultimately have frames: "contained_maps ?mem (map (\<lambda>i. 1 + unat (?ofs ! i)) [3..<8]) = ret (map ?view [0..<5])" by (simp only:)
  show ?thesis
    unfolding Fast_LoadMapFromMemory_def option.case corrupt bindc_ret prod.case Let_def defs
    using offsets frames pos new by (simp add: fast_view_def STACK_INFO_LAST_def Let_def del: upt_Suc map_offsets.simps nth_map)
qed

section \<open>Queries of the two modules\<close>

text \<open>Results of a retrieval agree: the same range, and an entry that the block holds at the pointer.\<close>

definition same_range :: "('e \<Rightarrow> 'p \<Rightarrow> bool) \<Rightarrow> 'e \<times> MemAddr \<times> MemAddr \<Rightarrow> 'p \<times> MemAddr \<times> MemAddr \<Rightarrow> bool" where
  "same_range Q r r' \<longleftrightarrow> Q (fst r) (fst r') \<and> snd r = snd r'"

lemma relabel_bounds:
  "lower_bound a (relabel f m) = lower_bound a m" "upper_bound a (relabel f m) = upper_bound a m"
proof -
  have "map fst (relabel f m) = map fst m" by (rule nth_equalityI) (simp_all add: relabel_def)
  then show "lower_bound a (relabel f m) = lower_bound a m" "upper_bound a (relabel f m) = upper_bound a m"
    by (simp_all add: lower_bound_keys upper_bound_keys)
qed

lemma relabel_out:
  "i < length m \<Longrightarrow> Q (range_entry (snd (m ! i))) (f i) \<Longrightarrow> same_range Q (range_out (m ! i)) (range_out (relabel f m ! i))"
  by (simp add: same_range_def range_out_def relabel_nth)

lemma relabel_retrieve:
  assumes "\<And>i. i < length m \<Longrightarrow> Q (range_entry (snd (m ! i))) (f i)"
  shows "rel_option (same_range Q) (RangeMap_RetrieveRange a m) (RangeMap_RetrieveRange a (relabel f m))"
  using relabel_out [of "lower_bound a m" m Q f] assms [of "lower_bound a m"] lower_bound_le [of a m]
  by (cases "lower_bound a m = length m") (auto simp: RangeMap_RetrieveRange_def relabel_bounds Let_def relabel_nth)

lemma relabel_nearest:
  assumes "\<And>i. i < length m \<Longrightarrow> Q (range_entry (snd (m ! i))) (f i)"
  shows "rel_option (same_range Q) (RangeMap_RetrieveNearestRange a m) (RangeMap_RetrieveNearestRange a (relabel f m))"
proof -
  have up: "upper_bound a m - 1 < length m" if "upper_bound a m \<noteq> 0"
    using that length_takeWhile_le [of "\<lambda>e. fst e \<le> a" m] unfolding upper_bound_def by linarith
  from relabel_retrieve [of m Q f a, OF assms] show ?thesis
    using relabel_out [OF up, of Q f] assms [OF up] up
    by (cases rule: option.rel_cases) (auto simp: RangeMap_RetrieveNearestRange_def relabel_bounds Let_def)
qed

text \<open>The lines of a function, read from the block.\<close>

definition line_at :: "u8 list \<Rightarrow> Line option \<Rightarrow> nat \<Rightarrow> bool" where
  "line_at mem e p \<longleftrightarrow> (\<exists>l. e = Some l \<and> Line_CopyFrom mem p = ret l)"

definition function_at :: "u8 list \<Rightarrow> BasicFunction option \<Rightarrow> nat \<Rightarrow> bool" where
  "function_at mem e p \<longleftrightarrow>
     (\<exists>f ff. e = Some f \<and> Function_CopyFrom mem p = ret ff \<and> fn_name ff = fn_name f \<and>
        fn_parameter_size ff = fn_parameter_size f \<and>
        (\<forall>a. \<exists>r. StaticRangeMap_RetrieveRange mem (fn_lines ff) a = ret r \<and>
           rel_option (same_range (line_at mem)) (RangeMap_RetrieveRange a (fn_lines f)) r))"

lemma function_at_written:
  assumes ok: "function_ok f" and here: "p + Function_SizeOf f \<le> length mem" "take (Function_SizeOf f) (drop p mem) = function_bytes f"
    and small: "Function_SizeOf f < 2 ^ 32"
  shows "function_at mem (Some f) p"
proof -
  let ?l = "map_bytes 8 (Range_SizeOf (linked_SizeOf Line_SizeOf)) (range_bytes (case_option [] line_bytes)) (fn_lines f)"
  define pre post where "pre = take p mem" and "post = drop (p + Function_SizeOf f) mem"
  have mem: "mem = pre @ function_bytes f @ post" unfolding pre_def post_def by (rule block_split [OF here])
  have p: "length pre = p" using here(1) by (simp add: pre_def)
  have name: "0 \<notin> set (fn_name f)" and mok: "map_ok (fn_lines f)" and lines: "\<forall>r \<in> set (fn_lines f). range_entry (snd r) \<noteq> None"
    using ok by (auto simp: function_ok_def)
  have small': "RangeMapSerializer_SizeOf (linked_SizeOf Line_SizeOf) (fn_lines f) < 2 ^ 32"
    using small by (simp add: Function_SizeOf_def)
  let ?x = "(mem, length pre + length (fn_name f) + 21)"
  let ?pre = "pre @ (fn_name f @ [0]) @ le_bytes 8 (unat (fn_address f)) @ le_bytes 8 (unat (fn_size f)) @
      le_bytes 4 (unat (fn_parameter_size f))"
  have split: "mem = ?pre @ ?l @ post" by (simp add: mem function_bytes_def)
  have x: "?x = (?pre @ ?l @ post, length ?pre)" using split by simp
  have good: "\<forall>r \<in> set (fn_lines f). case_option True (\<lambda>_. True) (range_entry (snd r))" by (auto split: option.split)
  note w = line_ptr.written_ranges [OF good small' mok, where pre = ?pre and post = post, folded x, folded split]
  have entry: "line_at mem (range_entry (snd (fn_lines f ! i))) (static_value ?x i + 8)" if i: "i < length (fn_lines f)" for i
  proof -
    obtain l where l: "range_entry (snd (fn_lines f ! i)) = Some l" using lines nth_mem [OF i] by blast
    have "Line_CopyFrom mem (static_value ?x i + 8) = ret l"
      using w(4) [OF i] by (intro Line_CopyFrom_bytes) (simp_all add: l linked_SizeOf_def Line_SizeOf_def Simple_SizeOf_def)
    with l show ?thesis by (simp add: line_at_def)
  qed
  have "\<exists>r. StaticRangeMap_RetrieveRange mem (static_view ?x) a = ret r \<and>
      rel_option (same_range (line_at mem)) (RangeMap_RetrieveRange a (fn_lines f)) r" for a
    using StaticRangeMap_RetrieveRange_block [OF w(1,2), of a]
      relabel_retrieve [where m = "fn_lines f" and f = "\<lambda>i. static_value ?x i + 8" and Q = "line_at mem", OF entry, of a]
    unfolding w(3) by simp
  moreover note Function_CopyFrom_written(1) [OF name mok small', of pre post, folded mem, unfolded p]
  ultimately show ?thesis unfolding function_at_def by (simp add: p)
qed

lemma fast_functions:
  assumes ok: "module_ok bm" and small: "Module_SizeOf bm + length rest < 2 ^ 32"
  shows "\<exists>r. StaticRangeMap_RetrieveNearestRange (loaded bm rest) (fm_functions (fast_view bm rest)) a = ret r \<and>
    rel_option (same_range (function_at (loaded bm rest))) (RangeMap_RetrieveNearestRange a (bm_functions bm)) r"
proof -
  let ?m = "bm_functions bm" and ?mem = "loaded bm rest"
  obtain pre post where at: "?mem = pre @ part_bytes bm ! 1 @ post" "part_pos bm 1 = length pre" "map_sizes bm ! 1 < 2 ^ 32"
    by (rule part_cases [OF ok small, of 1]) simp
  note parts = part_simps(3,4) [OF ok]
  have good: "\<forall>r \<in> set ?m. case_option True (\<lambda>f. 0 \<notin> set (fn_name f)) (range_entry (snd r))"
    using module_good(2) [OF ok] by (simp add: good_map_def)
  have mok: "map_ok ?m" using ok by (simp add: module_ok_def)
  let ?x = "(?mem, part_pos bm 1)"
  have x: "?x = (pre @ map_bytes 8 (Range_SizeOf (linked_SizeOf Function_SizeOf)) (range_bytes (case_option [] function_bytes)) ?m @ post, length pre)"
    unfolding at(2) parts(1) [symmetric] at(1) [symmetric] ..
  have mem: "?mem = pre @ map_bytes 8 (Range_SizeOf (linked_SizeOf Function_SizeOf)) (range_bytes (case_option [] function_bytes)) ?m @ post"
    unfolding parts(1) [symmetric] at(1) [symmetric] ..
  note w = func_ptr.written_ranges [OF good at(3) [unfolded parts(2)] mok, where pre = pre and post = post, folded x, folded mem]
  have entry: "function_at ?mem (range_entry (snd (?m ! i))) (static_value ?x i + 8)" if i: "i < length ?m" for i
  proof -
    obtain f where f: "range_entry (snd (?m ! i)) = Some f" "function_ok f"
      using ok nth_mem [OF i] unfolding module_ok_def by blast
    have here: "static_value ?x i + 8 + Function_SizeOf f \<le> length ?mem"
      "take (Function_SizeOf f) (drop (static_value ?x i + 8) ?mem) = function_bytes f"
      using w(4) [OF i] by (simp_all add: f linked_SizeOf_def)
    then have "Function_SizeOf f < 2 ^ 32" using small length_loaded [OF ok, of rest] by linarith
    from function_at_written [OF f(2) here this] f(1) show ?thesis by simp
  qed
  have "fm_functions (fast_view bm rest) = static_view ?x" by (simp add: fast_view_def Let_def)
  then show ?thesis
    using StaticRangeMap_RetrieveNearestRange_block [OF w(1,2), of a]
      relabel_nearest [where m = ?m and f = "\<lambda>i. static_value ?x i + 8" and Q = "function_at ?mem", OF entry, of a]
    unfolding w(3) by simp
qed

definition symbol_at :: "u8 list \<Rightarrow> PublicSymbol option \<times> MemAddr \<Rightarrow> nat option \<times> MemAddr \<Rightarrow> bool" where
  "symbol_at mem e e' \<longleftrightarrow> snd e = snd e' \<and> (\<exists>q p. fst e = Some q \<and> fst e' = Some p \<and> PublicSymbol_CopyFrom mem p = ret q)"

lemma fast_symbols:
  assumes ok: "module_ok bm" and small: "Module_SizeOf bm + length rest < 2 ^ 32"
  shows "\<exists>r. StaticAddressMap_Retrieve (loaded bm rest) (fm_public_symbols (fast_view bm rest)) a = ret r \<and>
    rel_option (symbol_at (loaded bm rest)) (AddressMap_Retrieve a (bm_public_symbols bm)) r"
proof -
  let ?m = "bm_public_symbols bm" and ?mem = "loaded bm rest"
  obtain pre post where at: "?mem = pre @ part_bytes bm ! 2 @ post" "part_pos bm 2 = length pre" "map_sizes bm ! 2 < 2 ^ 32"
    by (rule part_cases [OF ok small, of 2]) simp
  note parts = part_simps(5,6) [OF ok]
  note good = module_good(3) [OF ok] and sz = at(3) [unfolded parts(2)]
  have mok: "map_ok ?m" and syms: "\<And>e. e \<in> set ?m \<Longrightarrow> \<exists>q. snd e = Some q \<and> 0 \<notin> set (ps_name q)"
    using ok by (auto simp: module_ok_def)
  let ?x = "(?mem, part_pos bm 2)"
  have mem: "?mem = pre @ map_bytes 8 (linked_SizeOf PublicSymbol_SizeOf) (case_option [] symbol_bytes) ?m @ post"
    unfolding parts(1) [symmetric] at(1) [symmetric] ..
  have x: "?x = (pre @ map_bytes 8 (linked_SizeOf PublicSymbol_SizeOf) (case_option [] symbol_bytes) ?m @ post, length pre)"
    unfolding at(2) mem [symmetric] ..
  note w = symbol_ptr.written_block [OF good sz, where pre = pre and post = post, folded x, folded mem]
  note okx = symbol_ptr.written_ok [OF good sz mok, of pre post, folded x]
  have "map fst (block_addresses ?x) = map fst ?m" using w(1,3) by (intro nth_equalityI) (simp_all add: block_addresses_def)
  then have up: "upper_bound a (block_addresses ?x) = upper_bound a ?m" by (simp add: upper_bound_keys)
  have view: "fm_public_symbols (fast_view bm rest) = static_view ?x" by (simp add: fast_view_def Let_def)
  note ret = StaticAddressMap_Retrieve_block [OF okx, of a, simplified, folded view]
  show ?thesis
  proof (cases "upper_bound a ?m = 0")
    case True
    then show ?thesis by (simp add: ret AddressMap_Retrieve_def up)
  next
    case False
    let ?i = "upper_bound a ?m - 1"
    have i: "?i < length ?m" using False std.upper_le [OF mok, of a] by simp
    obtain q where q: "snd (?m ! ?i) = Some q" "0 \<notin> set (ps_name q)" using syms nth_mem [OF i] by blast
    have "PublicSymbol_CopyFrom ?mem (static_value ?x ?i) = ret q"
      using w(4) [OF i] q by (intro PublicSymbol_CopyFrom_bytes) (simp_all add: linked_SizeOf_def)
    moreover have "block_addresses ?x ! ?i = (fst (?m ! ?i), static_value ?x ?i)" using i w(1,3) by (simp add: block_addresses_def)
    ultimately show ?thesis using False q by (simp add: ret AddressMap_Retrieve_def up Let_def symbol_at_def)
  qed
qed

lemma cstring_at:
  assumes "0 \<notin> set str" "p + string_SizeOf str \<le> length mem" "take (string_SizeOf str) (drop p mem) = str @ [0]"
  shows "cstring mem p = ret str"
proof -
  have "length (take p mem) = p" using assms(2) by simp
  with cstring_append [OF assms(1), of "take p mem" "drop (p + string_SizeOf str) mem"] block_split [OF assms(2,3)]
  show ?thesis by simp
qed

lemma value_at_map:
  fixes m :: "('k::len word, 'e) std_map" and pre post :: "u8 list"
  assumes ser: "serializer szof wr bytes good" and good: "good_map good m"
    and small: "StdMapSerializer_SizeOf kn szof m < 2 ^ 32" and i: "i < length m"
  defines "mem \<equiv> pre @ map_bytes kn szof bytes m @ post"
  shows "static_value (mem, length pre) i + szof (snd (m ! i)) \<le> length mem"
    and "take (szof (snd (m ! i))) (drop (static_value (mem, length pre) i) mem) = bytes (snd (m ! i))"
proof -
  note raw = serializer.written_raw(3,5) [OF ser good i, where kn = kn and pre = pre and post = post, folded mem_def]
  have le: "le_word (le_bytes 4 (unat w)) = w" for w :: u32 by (rule le_word_bytes) simp
  let ?k = "4 + 4 * length m + kn * length m + sum_list (map (\<lambda>e. szof (snd e)) (take i m))"
  have "?k < 2 ^ 32" using serializer.written_raw(6) [OF ser good i, of kn] small by simp
  then have "unat (of_nat ?k :: u32) = ?k" unfolding unat_of_nat by simp
  then have "static_value (mem, length pre) i = length pre + ?k"
    unfolding static_value_def static_offset_def fst_conv snd_conv raw(1) le by (simp only:)
  then show "static_value (mem, length pre) i + szof (snd (m ! i)) \<le> length mem"
    "take (szof (snd (m ! i))) (drop (static_value (mem, length pre) i) mem) = bytes (snd (m ! i))"
    using raw(2) by (simp_all only:)
qed

lemma sint_word_eq: "sint (a :: 'w::len word) = sint b \<longleftrightarrow> a = b"
  by (metis signed_word_eqI)

lemma fast_file:
  assumes ok: "module_ok bm" and small: "Module_SizeOf bm + length rest < 2 ^ 32"
  shows "Fast_file (loaded bm rest) (fast_view bm rest) k = ret (map_find k (bm_files bm))"
proof -
  let ?m = "bm_files bm" and ?mem = "loaded bm rest" and ?n = "length (bm_files bm)"
  obtain pre post where at: "?mem = pre @ part_bytes bm ! 0 @ post" "part_pos bm 0 = length pre" "map_sizes bm ! 0 < 2 ^ 32"
    by (rule part_cases [OF ok small, of 0]) simp
  note parts = part_simps(1,2) [OF ok] and good = module_good(1) [OF ok]
  note sz = at(3) [unfolded parts(2)]
  have sorted: "sorted_wrt (<) (map (\<lambda>e. sint (fst e)) ?m)" using ok by (simp add: module_ok_def)
  let ?x = "(?mem, part_pos bm 0)"
  have mem: "?mem = pre @ map_bytes 4 string_SizeOf (\<lambda>str. str @ [0]) ?m @ post"
    unfolding parts(1) [symmetric] at(1) [symmetric] ..
  note held = parts_held [OF ok small, of 0, simplified]
  have cnt: "static_count ?x = ?n" unfolding at(2) by (subst mem) (rule count_held_map(2) [OF cstr.serializer_axioms good sz refl])
  have view: "fm_files (fast_view bm rest) = static_view ?x" by (simp add: fast_view_def Let_def)
  note raw = cstr.written_raw(2,4) [OF good, where kn = 4 and pre = pre and post = post, folded mem]
  have le: "le_word (le_bytes 4 (unat w)) = w" for w :: u32 by (rule le_word_bytes) simp
  have key: "FileMap_GetKeyAtIndex ?mem (static_view ?x) (int i) = ret (sint (fst (?m ! i)))" if i: "i < ?n" for i
  proof -
    have "nat (keys (static_view ?x) + 4 * int i) = length pre + 4 + 4 * ?n + 4 * i"
      unfolding static_view_def cnt by (simp add: at(2))
    moreover have "peek ?mem 4 (length pre + 4 + 4 * ?n + 4 * i) = ret (fst (?m ! i))"
      using raw(1) raw(2) [OF i] i by (simp add: peek_def le)
    ultimately show ?thesis using i by (simp add: FileMap_GetKeyAtIndex_def cnt)
  qed
  have incr: "sint (fst (?m ! i)) < sint (fst (?m ! j))" if "i < j" "j < ?n" for i j
    using sorted_wrt_nth_less [OF sorted, of i j] that by simp
  have distinct: "distinct (map fst ?m)"
    using sorted distinct_map [of sint "map fst ?m"] by (simp add: strict_sorted_iff o_def)
  note iter = IteratorAtIndex_count [OF held, simplified]
  have ends: "IteratorAtIndex ?mem (static_view ?x) (int ?n) = ret (static_iter ?x ?n)" by (rule iter)
  have "(\<exists>i < ?n. StaticMap_loop (FileMap_GetKeyAtIndex ?mem (static_view ?x)) (sint k) (int 0) (int ?n) = ret (Inl (int i)) \<and>
        sint (fst (?m ! i)) = sint k) \<or>
    (\<exists>i \<le> ?n. StaticMap_loop (FileMap_GetKeyAtIndex ?mem (static_view ?x)) (sint k) (int 0) (int ?n) = ret (Inr (int i)) \<and>
       (\<forall>j < i. sint (fst (?m ! j)) < sint k) \<and> (\<forall>j. i \<le> j \<longrightarrow> j < ?n \<longrightarrow> sint k < sint (fst (?m ! j))))"
    by (rule StaticMap_loop_spec [where key = "\<lambda>i. sint (fst (?m ! i))"]) (auto simp: key incr)
  then show ?thesis
  proof (elim disjE exE conjE)
    fix i assume i: "i < ?n" and found: "StaticMap_loop (FileMap_GetKeyAtIndex ?mem (static_view ?x)) (sint k) (int 0) (int ?n) = ret (Inl (int i))"
      and "sint (fst (?m ! i)) = sint k"
    then have k: "fst (?m ! i) = k" by (simp add: sint_word_eq)
    have "(k, snd (?m ! i)) \<in> set ?m" using nth_mem [OF i] k by (metis prod.collapse)
    then have val: "map_find k ?m = Some (snd (?m ! i))" using distinct by (simp add: map_find_def)
    have "cstring ?mem (static_value ?x i) = ret (snd (?m ! i))"
      using value_at_map [OF cstr.serializer_axioms good sz i, of pre post, folded mem] good nth_mem [OF i]
      by (intro cstring_at) (simp_all add: at(2) good_map_def)
    then show ?thesis
      using found i iter_value_count [OF held, of i] val
      by (simp add: Fast_file_def view FileMap_find_def cnt iter ends iter_equal)
  next
    fix i assume none: "StaticMap_loop (FileMap_GetKeyAtIndex ?mem (static_view ?x)) (sint k) (int 0) (int ?n) = ret (Inr (int i))"
      and side: "\<forall>j < i. sint (fst (?m ! j)) < sint k" "\<forall>j. i \<le> j \<longrightarrow> j < ?n \<longrightarrow> sint k < sint (fst (?m ! j))"
    have "k \<notin> fst ` set ?m"
    proof
      assume "k \<in> fst ` set ?m"
      then obtain j where "j < ?n" "fst (?m ! j) = k" by (auto simp: in_set_conv_nth)
      with side show False by (metis less_irrefl not_le)
    qed
    then have "map_find k ?m = None" by (simp add: map_find_def map_of_eq_None_iff)
    then show ?thesis using none by (simp add: Fast_file_def view FileMap_find_def cnt ends iter_equal)
  qed
qed

text \<open>Frame records and rules.\<close>

definition frame_at :: "u8 list \<Rightarrow> WindowsFrameInfo option \<Rightarrow> nat option \<Rightarrow> bool" where
  "frame_at mem e q \<longleftrightarrow> (\<exists>w p. e = Some w \<and> q = Some p \<and> CopyWFI mem p = ret w)"

lemma fast_frames:
  assumes ok: "module_ok bm" and small: "Module_SizeOf bm + length rest < 2 ^ 32" and i: "i < STACK_INFO_LAST"
  shows "\<exists>r. StaticContained_RetrieveRange (loaded bm rest) (fm_windows_frame_info (fast_view bm rest) ! i) a = ret r \<and>
    rel_option (frame_at (loaded bm rest)) (ContainedRangeMap_RetrieveRange a (bm_windows_frame_info bm ! i)) r"
proof -
  let ?t = "bm_windows_frame_info bm ! i" and ?mem = "loaded bm rest"
  let ?at = "entry_at (linked_SizeOf WFI_SizeOf) (case_option [] wfi_bytes) ?mem"
  note part = frame_part [OF ok small i]
  obtain r where r: "StaticContained_RetrieveRange ?mem (fm_windows_frame_info (fast_view bm rest) ! i) a = ret r"
    "rel_option ?at (ContainedRangeMap_RetrieveRange a ?t) r"
    using wfi_ptr.contained_retrieve [OF part(1-3,6,7)] i by (auto simp: fast_view_def Let_def)
  have "frame_at ?mem e q" if e: "ContainedRangeMap_RetrieveRange a ?t = Some e" and q: "?at e q" for e q
  proof -
    obtain b h where "(b, h, e) \<in> desc ?t" using Retrieve_smallest [OF part(3) e] by (auto simp: smallest_at_def)
    then obtain w where w: "e = Some w" "0 \<notin> set (program_string w)" "wfi_valid w = - 1"
      using part(4,5) contained_good_entries [OF part(1)] by (fastforce simp: frames_ok_def frames_valid_def)
    then obtain p where p: "q = Some p" "p + WFI_SizeOf w \<le> length ?mem" "take (WFI_SizeOf w) (drop p ?mem) = wfi_bytes w"
      using q by (auto simp: entry_at_def linked_SizeOf_def WFI_SizeOf_def split: if_splits)
    have "w\<lparr>wfi_valid := - 1\<rparr> = w" using w(3) by (cases w) simp
    then show ?thesis using CopyWFI_at [OF w(2) p(2,3)] w(1) p(1) by (simp add: frame_at_def)
  qed
  with r show ?thesis by (auto simp: option_rel_Some1 elim!: option.rel_cases)
qed

lemma fast_initial:
  assumes ok: "module_ok bm" and small: "Module_SizeOf bm + length rest < 2 ^ 32"
  shows "\<exists>r. StaticRangeMap_RetrieveRange (loaded bm rest) (fm_cfi_initial_rules (fast_view bm rest)) a = ret r \<and>
    rel_option (same_range (\<lambda>str p. cstring (loaded bm rest) p = ret str)) (RangeMap_RetrieveRange a (bm_cfi_initial_rules bm)) r"
proof -
  let ?m = "bm_cfi_initial_rules bm" and ?mem = "loaded bm rest"
  obtain pre post where at: "?mem = pre @ part_bytes bm ! 8 @ post" "part_pos bm 8 = length pre" "map_sizes bm ! 8 < 2 ^ 32"
    by (rule part_cases [OF ok small, of 8]) simp
  note parts = part_simps(9,10) [OF ok]
  have good: "\<forall>r \<in> set ?m. 0 \<notin> set (range_entry (snd r))" and mok: "map_ok ?m" using ok by (simp_all add: module_ok_def)
  let ?x = "(?mem, part_pos bm 8)"
  have mem: "?mem = pre @ map_bytes 8 (Range_SizeOf string_SizeOf) (range_bytes (\<lambda>str. str @ [0])) ?m @ post"
    unfolding parts(1) [symmetric] at(1) [symmetric] ..
  have x: "?x = (pre @ map_bytes 8 (Range_SizeOf string_SizeOf) (range_bytes (\<lambda>str. str @ [0])) ?m @ post, length pre)"
    unfolding at(2) mem [symmetric] ..
  note w = cstr.written_ranges [OF good at(3) [unfolded parts(2)] mok, where pre = pre and post = post, folded x, folded mem]
  have entry: "cstring ?mem (static_value ?x i + 8) = ret (range_entry (snd (?m ! i)))" if i: "i < length ?m" for i
    using w(4) [OF i] good nth_mem [OF i] by (intro cstring_at) simp_all
  have "fm_cfi_initial_rules (fast_view bm rest) = static_view ?x" by (simp add: fast_view_def Let_def)
  then show ?thesis
    using StaticRangeMap_RetrieveRange_block [OF w(1,2), of a]
      relabel_retrieve [where m = ?m and f = "\<lambda>i. static_value ?x i + 8" and Q = "\<lambda>str p. cstring ?mem p = ret str", OF entry, of a]
    unfolding w(3) by simp
qed

lemma fast_deltas:
  assumes ok: "module_ok bm" and small: "Module_SizeOf bm + length rest < 2 ^ 32"
  shows "bindc (StaticMap_lower_bound (loaded bm rest) (fm_cfi_delta_rules (fast_view bm rest)) b) (\<lambda>delta.
      Fast_deltas (loaded bm rest) (fm_cfi_delta_rules (fast_view bm rest)) a delta rules) =
    ret (Basic_deltas a (drop (lower_bound b (bm_cfi_delta_rules bm)) (bm_cfi_delta_rules bm)) rules)"
proof -
  let ?m = "bm_cfi_delta_rules bm" and ?mem = "loaded bm rest" and ?n = "length (bm_cfi_delta_rules bm)"
  obtain pre post where at: "?mem = pre @ part_bytes bm ! 9 @ post" "part_pos bm 9 = length pre" "map_sizes bm ! 9 < 2 ^ 32"
    by (rule part_cases [OF ok small, of 9]) simp
  note parts = part_simps(11,12) [OF ok] and good = module_good(6) [OF ok]
  note sz = at(3) [unfolded parts(2)]
  have mok: "map_ok ?m" using ok by (simp add: module_ok_def)
  let ?x = "(?mem, part_pos bm 9)"
  have mem: "?mem = pre @ map_bytes 8 string_SizeOf (\<lambda>str. str @ [0]) ?m @ post"
    unfolding parts(1) [symmetric] at(1) [symmetric] ..
  have x: "?x = (pre @ map_bytes 8 string_SizeOf (\<lambda>str. str @ [0]) ?m @ post, length pre)" unfolding at(2) mem [symmetric] ..
  note w = cstr.written_block [OF good sz, where pre = pre and post = post, folded x, folded mem]
  note okx = cstr.written_ok [OF good sz mok, of pre post, folded x]
  note held = w(2)
  have view: "fm_cfi_delta_rules (fast_view bm rest) = static_view ?x" by (simp add: fast_view_def Let_def)
  have "map (\<lambda>i. (static_key ?x i, snd (?m ! i))) [0..<static_count ?x] = ?m"
    using w(1,3) by (intro nth_equalityI) simp_all
  then have low: "static_lower b ?x = lower_bound b ?m" using bounds_upt(1) [OF okx, of b "\<lambda>i. snd (?m ! i)"] by simp
  have ends: "IteratorAtIndex ?mem (static_view ?x) (int ?n) = ret (static_iter ?x ?n)"
    using iterator_ends(1) [OF held] w(1) by simp
  have str: "cstring ?mem (static_value ?x i) = ret (snd (?m ! i))" if i: "i < ?n" for i
    using w(4) [OF i] good nth_mem [OF i] by (intro cstring_at) (simp_all add: good_map_def)
  have next_it: "it_incr_post (static_iter ?x i) = ret (static_iter ?x i, static_iter ?x (Suc i))" if i: "i < ?n" for i
    using i held unfolding it_incr_post_def it_incr_def
    by (simp add: iter_valid w(1) static_held_def) (simp add: static_iter_def w(1))
  have loop: "Fast_deltas ?mem (static_view ?x) a (static_iter ?x i) rules = ret (Basic_deltas a (drop i ?m) rules)"
    if "i \<le> ?n" for i rules
    using that
  proof (induction "?n - i" arbitrary: i rules)
    case 0
    then have "i = ?n" by simp
    then show ?case using ends by (subst Fast_deltas.simps) (simp add: w(1) iter_equal)
  next
    case (Suc d)
    then have i: "i < ?n" by simp
    have ih: "Fast_deltas ?mem (static_view ?x) a (static_iter ?x (Suc i)) rules = ret (Basic_deltas a (drop (Suc i) ?m) rules)" for rules
      using Suc(1) [of "Suc i" rules] Suc(2) i by simp
    obtain k v where kv: "?m ! i = (k, v)" by (cases "?m ! i")
    have key: "it_GetKey ?mem (static_iter ?x i) = ret k" and val: "it_GetValueRawPtr ?mem (static_iter ?x i) = ret (Some (static_value ?x i))"
      using iter_key [OF held, of i] iter_value [OF held, of i] i w(1,3) kv by simp_all
    have drop: "drop i ?m = (k, v) # drop (Suc i) ?m" using Cons_nth_drop_Suc [OF i] kv by simp
    have ne: "\<not> it_equal (static_iter ?x i) (static_iter ?x ?n)" using i by (simp add: iter_equal)
    show ?case
      unfolding drop using str [OF i] kv
      by (subst Fast_deltas.simps) (simp add: w(1) ends ne key val next_it [OF i] ih)
  qed
  show ?thesis
    unfolding view using static_lower_iter [OF okx, of b] loop [of "lower_bound b ?m" rules] lower_bound_le [of b ?m]
    by (simp add: low)
qed

section \<open>Properties\<close>

text \<open>A module that is serialised and loaded by the fast resolver: the block and the module in it.\<close>

definition converted :: "(nat \<Rightarrow> u8) \<Rightarrow> BasicModule \<Rightarrow> (u8 list \<times> FastModule) comp" where
  "converted fill bm =
     bindc (Module_Serialize fill bm) (\<lambda>(mem, n).
     bindc (Fast_LoadMapFromMemory (Some mem) FastModule_new) (\<lambda>(ok, fm).
     ret (mem, fm)))"

lemma converted_view:
  "module_ok bm \<Longrightarrow> Module_SizeOf bm < 2 ^ 32 \<Longrightarrow> converted fill bm = ret (module_bytes bm, fast_view bm [])"
  using Fast_LoadMapFromMemory_written [of bm "[]" FastModule_new]
  by (simp add: converted_def Module_Serialize_bytes loaded_def)

lemma beyond_same:
  assumes "rel_option (same_range (function_at mem)) found found'"
  shows "beyond (as_ptr found') p = beyond found p"
  using assms
  by (cases rule: option.rel_cases) (auto simp: beyond_def as_ptr_def same_range_def function_at_def split_beta)

lemma Fast_line_same:
  assumes ok: "module_ok bm" and small: "Module_SizeOf bm + length rest < 2 ^ 32"
    and lines: "\<exists>r. StaticRangeMap_RetrieveRange (loaded bm rest) (fn_lines ff) a = ret r \<and>
      rel_option (same_range (line_at (loaded bm rest))) (RangeMap_RetrieveRange a (fn_lines f)) r"
  shows "Fast_line (loaded bm rest) (fast_view bm rest) a ff frame = Basic_line bm a f frame"
proof -
  obtain r where r: "StaticRangeMap_RetrieveRange (loaded bm rest) (fn_lines ff) a = ret r"
    "rel_option (same_range (line_at (loaded bm rest))) (RangeMap_RetrieveRange a (fn_lines f)) r" using lines by blast
  from r(2) show ?thesis
    by (cases rule: option.rel_cases)
      (auto simp: Fast_line_def Basic_line_def r(1) same_range_def line_at_def fast_file [OF ok small] split_beta Let_def)
qed

lemma Fast_public_same:
  assumes ok: "module_ok bm" and small: "Module_SizeOf bm + length rest < 2 ^ 32"
    and found: "rel_option (same_range (function_at (loaded bm rest))) found found'"
  shows "Fast_public (loaded bm rest) (fast_view bm rest) a found' frame = Basic_public bm a found frame"
proof -
  obtain r where r: "StaticAddressMap_Retrieve (loaded bm rest) (fm_public_symbols (fast_view bm rest)) a = ret r"
    "rel_option (symbol_at (loaded bm rest)) (AddressMap_Retrieve a (bm_public_symbols bm)) r"
    using fast_symbols [OF ok small] by blast
  from r(2) show ?thesis
    by (cases rule: option.rel_cases)
      (auto simp: Fast_public_def Basic_public_def r(1) symbol_at_def beyond_same [OF found] split_beta)
qed

lemma Fast_LookupAddress_view:
  assumes ok: "module_ok bm" and small: "Module_SizeOf bm + length rest < 2 ^ 32"
  shows "Fast_LookupAddress (loaded bm rest) (fast_view bm rest) frame = Basic_LookupAddress bm frame"
proof -
  let ?mem = "loaded bm rest" and ?a = "sf_address frame"
  obtain r where r: "StaticRangeMap_RetrieveNearestRange ?mem (fm_functions (fast_view bm rest)) ?a = ret r"
    "rel_option (same_range (function_at ?mem)) (RangeMap_RetrieveNearestRange ?a (bm_functions bm)) r"
    using fast_functions [OF ok small] by blast
  have public: "Fast_public ?mem (fast_view bm rest) ?a r frame =
      Basic_public bm ?a (RangeMap_RetrieveNearestRange ?a (bm_functions bm)) frame"
    by (rule Fast_public_same [OF ok small r(2)])
  show ?thesis
  proof (cases "RangeMap_RetrieveNearestRange ?a (bm_functions bm)")
    case None
    with r(2) have "r = None" by simp
    then show ?thesis using None public by (simp add: Fast_LookupAddress_def Basic_LookupAddress_def Let_def r(1))
  next
    case (Some e)
    then obtain e' where e': "r = Some e'" "same_range (function_at ?mem) e e'" using r(2) by (auto simp: option_rel_Some1)
    then obtain f ff where f: "fst e = Some f" "Function_CopyFrom ?mem (fst e') = ret ff" "fn_name ff = fn_name f"
      and lines: "\<exists>r. StaticRangeMap_RetrieveRange ?mem (fn_lines ff) ?a = ret r \<and>
           rel_option (same_range (line_at ?mem)) (RangeMap_RetrieveRange ?a (fn_lines f)) r"
      by (auto simp: same_range_def function_at_def)
    have "snd e' = snd e" using e'(2) by (simp add: same_range_def)
    then show ?thesis
      using Some e'(1) f public Fast_line_same [OF ok small lines]
      by (cases e, cases e') (simp add: Fast_LookupAddress_def Basic_LookupAddress_def Let_def r(1))
  qed
qed

lemma Fast_FindWindowsFrameInfo_view:
  assumes ok: "module_ok bm" and small: "Module_SizeOf bm + length rest < 2 ^ 32"
  shows "Fast_FindWindowsFrameInfo (loaded bm rest) (fast_view bm rest) frame = Basic_FindWindowsFrameInfo bm frame"
proof -
  let ?mem = "loaded bm rest" and ?a = "sf_address frame" and ?fm = "fast_view bm rest"
  let ?data = "bm_windows_frame_info bm ! STACK_INFO_FRAME_DATA" and ?fpo = "bm_windows_frame_info bm ! STACK_INFO_FPO"
  have idx: "STACK_INFO_FRAME_DATA < STACK_INFO_LAST" "STACK_INFO_FPO < STACK_INFO_LAST"
    by (simp_all add: STACK_INFO_FRAME_DATA_def STACK_INFO_FPO_def STACK_INFO_LAST_def)
  have len: "length (bm_windows_frame_info bm) = STACK_INFO_LAST" "length (fm_windows_frame_info ?fm) = STACK_INFO_LAST"
    using ok by (simp_all add: module_ok_def fast_view_def Let_def)
  obtain r where r: "StaticRangeMap_RetrieveNearestRange ?mem (fm_functions ?fm) ?a = ret r"
    "rel_option (same_range (function_at ?mem)) (RangeMap_RetrieveNearestRange ?a (bm_functions bm)) r"
    using fast_functions [OF ok small] by blast
  obtain q where q: "StaticAddressMap_Retrieve ?mem (fm_public_symbols ?fm) ?a = ret q"
    "rel_option (symbol_at ?mem) (AddressMap_Retrieve ?a (bm_public_symbols bm)) q"
    using fast_symbols [OF ok small] by blast
  obtain d where d: "StaticContained_RetrieveRange ?mem (fm_windows_frame_info ?fm ! STACK_INFO_FRAME_DATA) ?a = ret d"
    "rel_option (frame_at ?mem) (ContainedRangeMap_RetrieveRange ?a ?data) d" using fast_frames [OF ok small idx(1)] by blast
  obtain p where p: "StaticContained_RetrieveRange ?mem (fm_windows_frame_info ?fm ! STACK_INFO_FPO) ?a = ret p"
    "rel_option (frame_at ?mem) (ContainedRangeMap_RetrieveRange ?a ?fpo) p" using fast_frames [OF ok small idx(2)] by blast
  define public :: "WindowsFrameInfo option comp" where "public = (case AddressMap_Retrieve ?a (bm_public_symbols bm) of
      None \<Rightarrow> ret None
    | Some (s, b) \<Rightarrow> if beyond (RangeMap_RetrieveNearestRange ?a (bm_functions bm)) b then bindc (deref s) (\<lambda>_. ret None) else ret None)"
  have pub: "(case q of None \<Rightarrow> ret None
      | Some (s, b) \<Rightarrow> if beyond (as_ptr r) b then bindc (deref s) (\<lambda>p. bindc (PublicSymbol_CopyFrom ?mem p) (\<lambda>_. ret None)) else ret None) = public"
    using q(2) by (cases rule: option.rel_cases) (auto simp: public_def symbol_at_def beyond_same [OF r(2)] split_beta)
  have func: "(case r of Some (f, b, s) \<Rightarrow> if in_range ?a b s
        then bindc (Function_CopyFrom ?mem f) (\<lambda>f. ret (Some (with_parameter_size (fn_parameter_size f) WindowsFrameInfo_new)))
        else public | None \<Rightarrow> public) =
      (case RangeMap_RetrieveNearestRange ?a (bm_functions bm) of Some (f, b, s) \<Rightarrow> if in_range ?a b s
        then bindc (deref f) (\<lambda>f. ret (Some (with_parameter_size (fn_parameter_size f) WindowsFrameInfo_new)))
        else public | None \<Rightarrow> public)"
    using r(2) by (cases rule: option.rel_cases) (auto simp: same_range_def function_at_def)
  have arrays: "at (fm_windows_frame_info ?fm) STACK_INFO_FRAME_DATA = ret (fm_windows_frame_info ?fm ! STACK_INFO_FRAME_DATA)"
    "at (fm_windows_frame_info ?fm) STACK_INFO_FPO = ret (fm_windows_frame_info ?fm ! STACK_INFO_FPO)"
    "at (bm_windows_frame_info bm) STACK_INFO_FRAME_DATA = ret ?data" "at (bm_windows_frame_info bm) STACK_INFO_FPO = ret ?fpo"
    using idx by (simp_all add: len)
  have fallback: "(case d of Some i \<Rightarrow> ret (Some i)
      | None \<Rightarrow> StaticContained_RetrieveRange ?mem (fm_windows_frame_info ?fm ! STACK_INFO_FPO) ?a) =
    ret (case d of Some i \<Rightarrow> Some i | None \<Rightarrow> p)" by (cases d) (simp_all add: p(1))
  show "Fast_FindWindowsFrameInfo ?mem ?fm frame = Basic_FindWindowsFrameInfo bm frame"
    unfolding Fast_FindWindowsFrameInfo_def Basic_FindWindowsFrameInfo_def Let_def arrays bindc_ret d(1) fallback r(1) q(1)
      pub func public_def [symmetric]
    using d(2) p(2) by (cases rule: option.rel_cases; cases p) (auto simp: frame_at_def option_rel_Some2)
qed

lemma Fast_FindCFIFrameInfo_view:
  assumes ok: "module_ok bm" and small: "Module_SizeOf bm + length rest < 2 ^ 32"
  shows "Fast_FindCFIFrameInfo (loaded bm rest) (fast_view bm rest) frame = ret (Basic_FindCFIFrameInfo bm frame)"
proof -
  let ?mem = "loaded bm rest" and ?a = "sf_address frame" and ?fm = "fast_view bm rest"
  obtain r where r: "StaticRangeMap_RetrieveRange ?mem (fm_cfi_initial_rules ?fm) ?a = ret r"
    "rel_option (same_range (\<lambda>str p. cstring ?mem p = ret str)) (RangeMap_RetrieveRange ?a (bm_cfi_initial_rules bm)) r"
    using fast_initial [OF ok small] by blast
  have deltas: "bindc (StaticMap_lower_bound ?mem (fm_cfi_delta_rules ?fm) b) (\<lambda>delta.
      bindc (Fast_deltas ?mem (fm_cfi_delta_rules ?fm) ?a delta rules) (\<lambda>rules. ret (Some rules))) =
    ret (Some (Basic_deltas ?a (drop (lower_bound b (bm_cfi_delta_rules bm)) (bm_cfi_delta_rules bm)) rules))" for b rules
    using fast_deltas [OF ok small, of b ?a rules] by (simp add: bindc_assoc [symmetric])
  show "Fast_FindCFIFrameInfo ?mem ?fm frame = ret (Basic_FindCFIFrameInfo bm frame)"
    using r(2)
    by (cases rule: option.rel_cases)
      (auto simp: Fast_FindCFIFrameInfo_def Basic_FindCFIFrameInfo_def r(1) same_range_def deltas Let_def split_beta)
qed

text \<open>A module of symbols in ordered maps that is serialised into a block and loaded by the fast
  resolver resolves every address to the same function, file and line as the maps do.\<close>

lemma Fast_LookupAddress_same:
  assumes ok: "module_ok bm" and small: "Module_SizeOf bm < 2 ^ 32"
  shows "bindc (converted fill bm) (\<lambda>(mem, fm). Fast_LookupAddress mem fm frame) = Basic_LookupAddress bm frame"
  using Fast_LookupAddress_view [OF ok, of "[]" frame] small by (simp add: converted_view [OF ok small] loaded_def)

text \<open>A module with a function of one line, a public symbol, a frame record and rules.\<close>

definition small_module :: BasicModule where
  "small_module = \<lparr>
     bm_files = [(1, [97, 46, 99])],
     bm_functions = [(0x10FF, \<lparr>range_base = 0x1000, range_entry = Some \<lparr>fn_name = [109], fn_address = 0x1000, fn_size = 0x100,
        fn_parameter_size = 8,
        fn_lines = [(0x100F, \<lparr>range_base = 0x1000, range_entry = Some \<lparr>line_address = 0x1000, line_size = 0x10,
          source_file_id = 1, line_number = 42\<rparr>\<rparr>)]\<rparr>\<rparr>)],
     bm_public_symbols = [(0x2000, Some \<lparr>ps_name = [112], ps_address = 0x2000, ps_parameter_size = 4\<rparr>)],
     bm_is_corrupt = False,
     bm_windows_frame_info = [CRMap 0 None None, CRMap 0 None None, CRMap 0 None None, CRMap 0 None None,
        CRMap 0 None (Some [(0x100F, CRMap 0x1000 (Some (frame_of 1 [36])) None)])],
     bm_cfi_initial_rules = [(0x10FF, \<lparr>range_base = 0x1000, range_entry = [46, 99, 102, 97, 58, 32, 115]\<rparr>)],
     bm_cfi_delta_rules = [(0x1002, [46, 114, 97, 58, 32, 116])]\<rparr>"

definition frame_in :: "MemAddr \<Rightarrow> StackFrame" where
  "frame_in pc = \<lparr>sf_instruction = pc, sf_module_base = 0x40000000, sf_function_name = [], sf_function_base = 0,
     sf_source_file_name = [], sf_source_line = 0, sf_source_line_base = 0\<rparr>"

lemma small_module_ok: "module_ok small_module"
  by (simp add: module_ok_def small_module_def function_ok_def frames_ok_def frames_valid_def frame_of_def STACK_INFO_LAST_def
      span_ok_Cons)

lemma small_module_fits: "Module_SizeOf small_module + 1 < 2 ^ 32"
  by (simp add: Module_SizeOf_def small_module_def map_sizes_def kNumberMaps_def STACK_INFO_LAST_def StdMapSerializer_SizeOf_def
      RangeMapSerializer_SizeOf_def Simple_SizeOf_def linked_SizeOf_def Function_SizeOf_def string_SizeOf_def Line_SizeOf_def
      PublicSymbol_SizeOf_def WFI_SizeOf_def frame_of_def)

lemma small_module_size: "Module_SizeOf small_module < 2 ^ 32"
  using small_module_fits by simp

text \<open>C40: The serializer fills the block it allocates exactly: a module as the parser builds it that fits below 4 GB is written without a fault into as
  many bytes as \<open>SizeOf\<close> announced, and none of them keeps what the allocation left there.\<close>

theorem Module_Serialize_exact:
  assumes "module_ok bm" and "Module_SizeOf bm < 2 ^ 32"
  shows "\<exists>mem. length mem = Module_SizeOf bm \<and> (\<forall>fill. Module_Serialize fill bm = ret (mem, Module_SizeOf bm))"
  using Module_Serialize_bytes [OF assms] length_module_bytes [OF assms(1)] by blast

theorem Module_Serialize_exact_witness:
  "\<exists>mem. length mem = Module_SizeOf small_module \<and>
     Module_Serialize (\<lambda>_. 0) small_module = ret (mem, Module_SizeOf small_module) \<and>
     Module_Serialize (\<lambda>_. 0xCC) small_module = ret (mem, Module_SizeOf small_module)"
  using Module_Serialize_exact [OF small_module_ok small_module_size] by blast

text \<open>C33: For a module as the parser builds it that fits below 4 GB, the fast resolver finds for every frame the same frame
  record as the maps, and the same lack of one.\<close>

theorem Fast_FindWindowsFrameInfo_same:
  assumes ok: "module_ok bm" and small: "Module_SizeOf bm < 2 ^ 32"
  shows "bindc (converted fill bm) (\<lambda>(mem, fm). Fast_FindWindowsFrameInfo mem fm frame) = Basic_FindWindowsFrameInfo bm frame"
  using Fast_FindWindowsFrameInfo_view [OF ok, of "[]" frame] small by (simp add: converted_view [OF ok small] loaded_def)

theorem Fast_FindWindowsFrameInfo_same_witness:
  "bindc (converted (\<lambda>_. 0xCC) small_module) (\<lambda>(mem, fm). Fast_FindWindowsFrameInfo mem fm (frame_in 0x40001004)) =
     ret (Some (frame_of 1 [36]))"
  using Fast_FindWindowsFrameInfo_same [OF small_module_ok small_module_size, of "\<lambda>_. 0xCC" "frame_in 0x40001004"]
  by (simp add: Basic_FindWindowsFrameInfo_def small_module_def sf_address_def frame_in_def STACK_INFO_FRAME_DATA_def
      STACK_INFO_FPO_def ContainedRangeMap_RetrieveRange.simps lower_bound_def Let_def)

text \<open>C34: For a module as the parser builds it that fits below 4 GB, the fast resolver ends for every frame and composes the same rules for the registers of the caller
  as the maps: the initial rules of the range around the address and the changes up to the address.\<close>

theorem Fast_FindCFIFrameInfo_same:
  assumes ok: "module_ok bm" and small: "Module_SizeOf bm < 2 ^ 32"
  shows "bindc (converted fill bm) (\<lambda>(mem, fm). Fast_FindCFIFrameInfo mem fm frame) = ret (Basic_FindCFIFrameInfo bm frame)"
  using Fast_FindCFIFrameInfo_view [OF ok, of "[]" frame] small by (simp add: converted_view [OF ok small] loaded_def)

theorem Fast_FindCFIFrameInfo_same_witness:
  "bindc (converted (\<lambda>_. 0xCC) small_module) (\<lambda>(mem, fm). Fast_FindCFIFrameInfo mem fm (frame_in 0x40001004)) =
     ret (Some \<lparr>cfa_rule = ''s'', ra_rule = ''t'', register_rules = []\<rparr>)"
proof -
  have "Basic_FindCFIFrameInfo small_module (frame_in 0x40001004) = Some \<lparr>cfa_rule = ''s'', ra_rule = ''t'', register_rules = []\<rparr>"
    by code_simp
  then show ?thesis
    using Fast_FindCFIFrameInfo_same [OF small_module_ok small_module_size, of "\<lambda>_. 0xCC" "frame_in 0x40001004"] by simp
qed

end
