(* ===== verification/Symbol_Loader.thy ===== *)
theory Symbol_Loader
  imports Source_Resolver
begin

text \<open>
  The parser of symbol files: \<^verbatim>\<open>BasicSourceLineResolver::Module::LoadMapFromMemory\<close> with the parsers of the
  records, \<^verbatim>\<open>SymbolParseHelper\<close> (both in \<^verbatim>\<open>basic_source_line_resolver.cc\<close>) and
  \<^verbatim>\<open>WindowsFrameInfo::ParseFromString\<close> (\<^verbatim>\<open>windows_frame_info.h\<close>), with the functions of \<^verbatim>\<open><stdlib.h>\<close> they use.

  The buffer is a list of characters that \<^verbatim>\<open>strtok_r\<close> cuts into lines.  \<^verbatim>\<open>long\<close> has 32 bits.  A parsed function
  is shared by the map of the functions and the variable \<^verbatim>\<open>cur_func\<close>, through which lines are added to it, so
  functions live in a store and pointers to them are positions in it.
\<close>

section \<open>Numbers\<close>

definition c_isspace :: "char \<Rightarrow> bool" where
  "c_isspace c \<longleftrightarrow> c = CHR '' '' \<or> c \<in> {CHR 0x09, CHR 0x0A, CHR 0x0B, CHR 0x0C, CHR 0x0D}"

definition digit_value :: "char \<Rightarrow> int" where
  "digit_value c =
     (let n = of_char c :: int in
      if 48 \<le> n \<and> n \<le> 57 then n - 48
      else if 97 \<le> n \<and> n \<le> 122 then n - 87
      else if 65 \<le> n \<and> n \<le> 90 then n - 55
      else 36)"

definition is_digit :: "int \<Rightarrow> char \<Rightarrow> bool" where
  "is_digit base c \<longleftrightarrow> digit_value c < base"

definition digits_number :: "int \<Rightarrow> string \<Rightarrow> int" where
  "digits_number base ds = foldl (\<lambda>n c. n * base + digit_value c) 0 ds"

text \<open>What the conversions share: the sign, the magnitude and the text behind the number; \<open>None\<close> when there are
  no digits.\<close>

definition scan_sign :: "string \<Rightarrow> bool \<times> string" where
  "scan_sign s =
     (case s of [] \<Rightarrow> (False, s)
      | c # t \<Rightarrow> if c = CHR ''-'' then (True, t) else if c = CHR ''+'' then (False, t) else (False, s))"

definition scan_prefix :: "int \<Rightarrow> string \<Rightarrow> string" where
  "scan_prefix base s =
     (case s of c # x # d # t \<Rightarrow>
        if base = 16 \<and> c = CHR ''0'' \<and> (x = CHR ''x'' \<or> x = CHR ''X'') \<and> is_digit 16 d then d # t else s
      | _ \<Rightarrow> s)"

definition scan_number :: "int \<Rightarrow> string \<Rightarrow> (bool \<times> int \<times> string) option" where
  "scan_number base str =
     (let (negative, s) = scan_sign (dropWhile c_isspace str);
          s = scan_prefix base s;
          ds = takeWhile (is_digit base) s in
      if ds = [] then None else Some (negative, digits_number base ds, dropWhile (is_digit base) s))"

definition strtou :: "int \<Rightarrow> string \<Rightarrow> 'w::len word \<times> string" where
  "strtou base str =
     (case scan_number base str of
        None \<Rightarrow> (0, str)
      | Some (negative, n, rest) \<Rightarrow>
          (if n \<ge> 2 ^ LENGTH('w) then - 1 else if negative then - of_int n else of_int n, rest))"

definition strtoull :: "int \<Rightarrow> string \<Rightarrow> u64 \<times> string" where
  "strtoull = strtou"

definition strtoul :: "int \<Rightarrow> string \<Rightarrow> u32 \<times> string" where
  "strtoul = strtou"

definition LONG_MAX :: int where "LONG_MAX = 2 ^ 31 - 1"

definition strtol :: "int \<Rightarrow> string \<Rightarrow> int \<times> string" where
  "strtol base str =
     (case scan_number base str of
        None \<Rightarrow> (0, str)
      | Some (negative, n, rest) \<Rightarrow>
          (if negative then max (- (2 ^ 31)) (- n) else min LONG_MAX n, rest))"

section \<open>Records\<close>

definition kWhitespace :: "char \<Rightarrow> bool" where
  "kWhitespace c \<longleftrightarrow> c = CHR '' '' \<or> c = CHR 0x0D \<or> c = CHR 0x0A"

definition line_break :: "char \<Rightarrow> bool" where
  "line_break c \<longleftrightarrow> c = CHR 0x0D \<or> c = CHR 0x0A"

text \<open>\<^verbatim>\<open>strchr\<close> also finds the terminating zero, so the end of the text is valid behind a number.\<close>

definition IsValidAfterNumber :: "string \<Rightarrow> bool" where
  "IsValidAfterNumber after = (case after of [] \<Rightarrow> True | c # _ \<Rightarrow> kWhitespace c)"

definition bytes_of :: "string \<Rightarrow> u8 list" where
  "bytes_of = map (\<lambda>c. of_nat (of_char c))"

text \<open>The conversions with the tests that follow them.\<close>

definition parse_ull :: "string \<Rightarrow> u64 option" where
  "parse_ull tok =
     (let (v, after) = strtoull 16 tok in
      if \<not> IsValidAfterNumber after \<or> v = - 1 then None else Some v)"

definition parse_long :: "int \<Rightarrow> string \<Rightarrow> int option" where
  "parse_long base tok =
     (let (v, after) = strtol base tok in
      if \<not> IsValidAfterNumber after \<or> v < 0 \<or> v = LONG_MAX then None else Some v)"

definition Helper_ParseFile :: "string \<Rightarrow> (int \<times> string) option" where
  "Helper_ParseFile file_line =
     (let (ok, tokens) = Tokenize (drop 5 file_line) kWhitespace 2 in
      if \<not> ok then None
      else case parse_long 10 (tokens ! 0) of None \<Rightarrow> None | Some index \<Rightarrow> Some (index, tokens ! 1))"

definition Helper_ParseFunction :: "string \<Rightarrow> (u64 \<times> u64 \<times> int \<times> string) option" where
  "Helper_ParseFunction function_line =
     (let (ok, tokens) = Tokenize (drop 5 function_line) kWhitespace 4 in
      if \<not> ok then None
      else case parse_ull (tokens ! 0) of None \<Rightarrow> None | Some address \<Rightarrow>
           (case parse_ull (tokens ! 1) of None \<Rightarrow> None | Some sz \<Rightarrow>
           (case parse_long 16 (tokens ! 2) of None \<Rightarrow> None | Some stack_param_size \<Rightarrow>
            Some (address, sz, stack_param_size, tokens ! 3))))"

text \<open>The test for a negative line number comes last in the code; it rejects the same records.\<close>

definition Helper_ParseLine :: "string \<Rightarrow> (u64 \<times> u64 \<times> int \<times> int) option" where
  "Helper_ParseLine line_line =
     (let (ok, tokens) = Tokenize line_line kWhitespace 4 in
      if \<not> ok then None
      else case parse_ull (tokens ! 0) of None \<Rightarrow> None | Some address \<Rightarrow>
           (case parse_ull (tokens ! 1) of None \<Rightarrow> None | Some sz \<Rightarrow>
           (case parse_long 10 (tokens ! 2) of None \<Rightarrow> None | Some line_no \<Rightarrow>
           (case parse_long 10 (tokens ! 3) of None \<Rightarrow> None | Some source_file \<Rightarrow>
            Some (address, sz, line_no, source_file)))))"

definition Helper_ParsePublicSymbol :: "string \<Rightarrow> (u64 \<times> int \<times> string) option" where
  "Helper_ParsePublicSymbol public_line =
     (let (ok, tokens) = Tokenize (drop 7 public_line) kWhitespace 3 in
      if \<not> ok then None
      else case parse_ull (tokens ! 0) of None \<Rightarrow> None | Some address \<Rightarrow>
           (case parse_long 16 (tokens ! 1) of None \<Rightarrow> None | Some stack_param_size \<Rightarrow>
            Some (address, stack_param_size, tokens ! 2)))"

text \<open>A frame record with its type, its address and the size of its code.\<close>

definition ParseFromString :: "string \<Rightarrow> (WindowsFrameInfo \<times> nat \<times> u64 \<times> u64) option" where
  "ParseFromString str =
     (let (ok, tokens) = Tokenize str kWhitespace 11 in
      if \<not> ok then None
      else
        let type = fst (strtol 16 (tokens ! 0)) in
        if type < 0 \<or> type > int STACK_INFO_LAST - 1 then None
        else
          let num = (\<lambda>i. fst (strtoul 16 (tokens ! i)));
              has_program_string = (num 9 \<noteq> 0) in
          Some (\<lparr>wfi_type = of_int type, wfi_valid = - 1, prolog_size = num 3, epilog_size = num 4,
                 wfi_parameter_size = num 5, saved_register_size = num 6, local_size = num 7, max_stack_size = num 8,
                 allocates_base_pointer = (\<not> has_program_string \<and> num 10 \<noteq> 0),
                 program_string = (if has_program_string then bytes_of (tokens ! 10) else [])\<rparr>,
                nat type, fst (strtoull 16 (tokens ! 1)), fst (strtoull 16 (tokens ! 2))))"

section \<open>The module while it is loaded\<close>

record Loader =
  ld_files :: "(u32, u8 list) std_map"
  ld_functions :: "(64, nat) RangeMap"
  ld_store :: "BasicFunction list"
  ld_public_symbols :: "(64, PublicSymbol option) AddressMap"
  ld_windows_frame_info :: "(MemAddr, WindowsFrameInfo option) ContainedRangeMap list"
  ld_cfi_initial_rules :: "(64, u8 list) RangeMap"
  ld_cfi_delta_rules :: "(MemAddr, u8 list) std_map"
  ld_cur_func :: "nat option"
  ld_num_errors :: nat

definition Loader_new :: Loader where
  "Loader_new = \<lparr>ld_files = [], ld_functions = [], ld_store = [], ld_public_symbols = [],
     ld_windows_frame_info = replicate STACK_INFO_LAST (ContainedRangeMap_new None),
     ld_cfi_initial_rules = [], ld_cfi_delta_rules = [], ld_cur_func = None, ld_num_errors = 0\<rparr>"

definition LogParseError :: "Loader \<Rightarrow> Loader" where
  "LogParseError ld = ld\<lparr>ld_num_errors := ld_num_errors ld + 1\<rparr>"

text \<open>The identifiers of files that the parser accepts are not negative, so their order as \<^verbatim>\<open>int\<close> is the one of
  the words.\<close>

definition Basic_ParseFile :: "string \<Rightarrow> Loader \<Rightarrow> bool \<times> Loader" where
  "Basic_ParseFile file_line ld =
     (case Helper_ParseFile file_line of
        None \<Rightarrow> (False, ld)
      | Some (index, filename) \<Rightarrow>
          (True, ld\<lparr>ld_files := map_insert (of_int index) (bytes_of filename) (ld_files ld)\<rparr>))"

definition Basic_ParseFunction :: "string \<Rightarrow> BasicFunction option" where
  "Basic_ParseFunction function_line =
     (case Helper_ParseFunction function_line of
        None \<Rightarrow> None
      | Some (address, sz, stack_param_size, name) \<Rightarrow>
          Some \<lparr>fn_name = bytes_of name, fn_address = address, fn_size = sz, fn_parameter_size = of_int stack_param_size,
                fn_lines = []\<rparr>)"

definition Basic_ParseLine :: "string \<Rightarrow> Line option" where
  "Basic_ParseLine line_line =
     (case Helper_ParseLine line_line of
        None \<Rightarrow> None
      | Some (address, sz, line_no, source_file) \<Rightarrow>
          Some \<lparr>line_address = address, line_size = sz, source_file_id = of_int source_file, line_number = of_int line_no\<rparr>)"

definition Basic_ParsePublicSymbol :: "string \<Rightarrow> Loader \<Rightarrow> bool \<times> Loader" where
  "Basic_ParsePublicSymbol public_line ld =
     (case Helper_ParsePublicSymbol public_line of
        None \<Rightarrow> (False, ld)
      | Some (address, stack_param_size, name) \<Rightarrow>
          if address = 0 then (True, ld)
          else
            let symbol = \<lparr>ps_name = bytes_of name, ps_address = address, ps_parameter_size = of_int stack_param_size\<rparr>;
                (ok, m) = AddressMap_Store address (Some symbol) (ld_public_symbols ld) in
            (ok, ld\<lparr>ld_public_symbols := m\<rparr>))"

definition ParseCFIFrameInfo :: "string \<Rightarrow> Loader \<Rightarrow> bool \<times> Loader" where
  "ParseCFIFrameInfo stack_info_line ld =
     (case strtok_r kWhitespace stack_info_line of
        None \<Rightarrow> (False, ld)
      | Some (init_or_address, cursor) \<Rightarrow>
          if init_or_address = ''INIT'' then
            (case strtok_r kWhitespace cursor of None \<Rightarrow> (False, ld) | Some (address_field, cursor) \<Rightarrow>
            (case strtok_r kWhitespace cursor of None \<Rightarrow> (False, ld) | Some (size_field, cursor) \<Rightarrow>
            (case strtok_r line_break cursor of None \<Rightarrow> (False, ld) | Some (initial_rules, cursor) \<Rightarrow>
               let address = ucast (fst (strtoul 16 address_field));
                   sz = ucast (fst (strtoul 16 size_field)) in
               (True, ld\<lparr>ld_cfi_initial_rules :=
                  snd (RangeMap_StoreRange address sz (bytes_of initial_rules) (ld_cfi_initial_rules ld))\<rparr>))))
          else
            (case strtok_r line_break cursor of None \<Rightarrow> (False, ld) | Some (delta_rules, cursor) \<Rightarrow>
               let address = ucast (fst (strtoul 16 init_or_address)) in
               (True, ld\<lparr>ld_cfi_delta_rules := map_assign address (bytes_of delta_rules) (ld_cfi_delta_rules ld)\<rparr>)))"

text \<open>What a first \<^verbatim>\<open>strtok_r\<close> leaves visible of a text: it writes a zero behind the first token.\<close>

definition strtok_cut :: "(char \<Rightarrow> bool) \<Rightarrow> string \<Rightarrow> string" where
  "strtok_cut sep s = takeWhile sep s @ takeWhile (\<lambda>c. \<not> sep c) (dropWhile sep s)"

text \<open>
  A record for the stack.  The pointer is moved over the character behind the name of the platform, also when this is
  the zero at the end of the line; then it points to what lies behind the line in the buffer: \<open>behind\<close>, the text that
  is still to be cut into lines, a fault when the buffer ends there.  The last result is that text afterwards.
\<close>

definition Store_frame :: "string \<Rightarrow> Loader \<Rightarrow> bool \<times> Loader" where
  "Store_frame str ld =
     (case ParseFromString str of
        None \<Rightarrow> (False, ld)
      | Some (info, type, rva, code_size) \<Rightarrow>
          (True, ld\<lparr>ld_windows_frame_info := (ld_windows_frame_info ld)[type :=
             snd (ContainedRangeMap_StoreRange rva code_size (Some info) (ld_windows_frame_info ld ! type))]\<rparr>))"

definition ParseStackInfo :: "string \<Rightarrow> string comp \<Rightarrow> string \<Rightarrow> Loader \<Rightarrow> ((bool \<times> Loader) \<times> string) comp" where
  "ParseStackInfo line behind save ld =
     (let s = dropWhile (\<lambda>c. c = CHR '' '') (drop 6 line);
          platform = takeWhile (\<lambda>c. \<not> kWhitespace c) s;
          after = dropWhile (\<lambda>c. \<not> kWhitespace c) s in
      if platform = ''WIN'' then
        if after = [] then bindc behind (\<lambda>t. ret (Store_frame t ld, save))
        else ret (Store_frame (drop 1 after) ld, save)
      else if platform = ''CFI'' then
        if after = [] then bindc behind (\<lambda>t. ret (ParseCFIFrameInfo t ld, strtok_cut kWhitespace t))
        else ret (ParseCFIFrameInfo (drop 1 after) ld, save)
      else ret ((False, ld), save))"

section \<open>The lines of a symbol file\<close>

definition kMaxErrorsBeforeBailing :: nat where "kMaxErrorsBeforeBailing = 100"

definition logged :: "bool \<times> Loader \<Rightarrow> Loader" where
  "logged r = (if fst r then snd r else LogParseError (snd r))"

definition Load_function :: "string \<Rightarrow> Loader \<Rightarrow> Loader" where
  "Load_function line ld =
     (case Basic_ParseFunction line of
        None \<Rightarrow> LogParseError (ld\<lparr>ld_cur_func := None\<rparr>)
      | Some f \<Rightarrow>
          let p = length (ld_store ld) in
          ld\<lparr>ld_store := ld_store ld @ [f], ld_cur_func := Some p,
             ld_functions := snd (RangeMap_StoreRange (fn_address f) (fn_size f) p (ld_functions ld))\<rparr>)"

definition Load_source_line :: "string \<Rightarrow> Loader \<Rightarrow> Loader" where
  "Load_source_line line ld =
     (case ld_cur_func ld of
        None \<Rightarrow> LogParseError ld
      | Some p \<Rightarrow>
          (case Basic_ParseLine line of
             None \<Rightarrow> LogParseError ld
           | Some l \<Rightarrow>
               let f = ld_store ld ! p;
                   lines = snd (RangeMap_StoreRange (line_address l) (line_size l) (Some l) (fn_lines f)) in
               ld\<lparr>ld_store := (ld_store ld)[p := f\<lparr>fn_lines := lines\<rparr>]\<rparr>))"

definition Load_line :: "string \<Rightarrow> string comp \<Rightarrow> string \<Rightarrow> Loader \<Rightarrow> (Loader \<times> string) comp" where
  "Load_line line behind save ld =
     (if take 5 line = ''FILE '' then ret (logged (Basic_ParseFile line ld), save)
      else if take 6 line = ''STACK '' then
        bindc (ParseStackInfo line behind save ld) (\<lambda>(r, save). ret (logged r, save))
      else if take 5 line = ''FUNC '' then ret (Load_function line ld, save)
      else if take 7 line = ''PUBLIC '' then
        ret (logged (Basic_ParsePublicSymbol line (ld\<lparr>ld_cur_func := None\<rparr>)), save)
      else if take 7 line = ''MODULE '' then ret (ld, save)
      else if take 5 line = ''INFO '' then ret (ld, save)
      else ret (Load_source_line line ld, save))"

text \<open>The line ends with the text, not with a line break.\<close>

definition unended :: "string \<Rightarrow> bool" where
  "unended s \<longleftrightarrow> dropWhile (\<lambda>c. \<not> line_break c) (dropWhile line_break s) = []"

lemma strtok_cut_length: "length (strtok_cut sep s) \<le> length s"
proof -
  have "length (takeWhile sep s) + length (dropWhile sep s) = length s"
    by (metis length_append takeWhile_dropWhile_id)
  moreover have "length (takeWhile (\<lambda>c. \<not> sep c) (dropWhile sep s)) \<le> length (dropWhile sep s)"
    by (rule length_takeWhile_le)
  ultimately show ?thesis by (simp add: strtok_cut_def)
qed

lemma ParseStackInfo_rest:
  assumes "ParseStackInfo line behind save ld = ret (r, save')"
  shows "save' = save \<or> (\<exists>t. behind = ret t \<and> save' = strtok_cut kWhitespace t)"
  using assms by (auto simp: ParseStackInfo_def Let_def bindc_eq_ret split: if_splits)

lemma Load_line_rest:
  assumes "Load_line line behind save ld = ret (ld', save')"
  shows "save' = save \<or> (\<exists>t. behind = ret t \<and> save' = strtok_cut kWhitespace t)"
  using assms ParseStackInfo_rest [of line behind save ld]
  by (auto simp: Load_line_def bindc_eq_ret split: if_splits)

function Load_loop :: "bool \<Rightarrow> string \<Rightarrow> Loader \<Rightarrow> Loader comp" where
  "Load_loop spare s ld =
     (case strtok_r line_break s of
        None \<Rightarrow> ret ld
      | Some (line, save) \<Rightarrow>
          let behind = (if \<not> unended s then ret save else if spare then ret [] else fail OutOfRange) in
          bindc (Load_line line behind save ld) (\<lambda>(ld, save).
          if ld_num_errors ld > kMaxErrorsBeforeBailing then ret ld else Load_loop spare save ld))"
  by pat_completeness auto
termination
proof (relation "measure (\<lambda>(spare, s, ld). length s)", goal_cases)
  case (2 spare s ld tok line save behind r ld' save')
  then have "length save < length s" by (auto dest: strtok_r_shorter)
  moreover have "save' = save \<or> save' = strtok_cut kWhitespace save \<or> save' = strtok_cut kWhitespace []"
    using 2 Load_line_rest [of line behind save ld ld' save'] by (auto split: if_splits)
  ultimately show ?case using strtok_cut_length [of kWhitespace save] by (auto simp: strtok_cut_def)
qed simp

declare Load_loop.simps [simp del]

definition module_of :: "Loader \<Rightarrow> BasicModule" where
  "module_of ld = \<lparr>
     bm_files = ld_files ld,
     bm_functions = map (\<lambda>(k, r). (k, \<lparr>range_base = range_base r, range_entry = Some (ld_store ld ! range_entry r)\<rparr>)) (ld_functions ld),
     bm_public_symbols = ld_public_symbols ld,
     bm_is_corrupt = (ld_num_errors ld > 0),
     bm_windows_frame_info = ld_windows_frame_info ld,
     bm_cfi_initial_rules = ld_cfi_initial_rules ld,
     bm_cfi_delta_rules = ld_cfi_delta_rules ld\<rparr>"

text \<open>The buffer without the zeros at its end, the last character of which is overwritten by a zero.\<close>

definition buffer_text :: "string \<Rightarrow> string" where
  "buffer_text buf = rev (dropWhile (\<lambda>c. c = CHR 0x00) (rev (buf[length buf - 1 := CHR 0x00])))"

definition Basic_LoadMapFromMemory :: "string \<Rightarrow> (bool \<times> BasicModule) comp" where
  "Basic_LoadMapFromMemory buf =
     (if buf = [] then ret (True, module_of Loader_new)
      else
        let s = buffer_text buf;
            ld = (if CHR 0x00 \<in> set s then LogParseError Loader_new else Loader_new) in
        bindc (Load_loop (length s < length buf - 1) (map (\<lambda>c. if c = CHR 0x00 then CHR ''_'' else c) s) ld) (\<lambda>ld.
        ret (True, module_of ld)))"

section \<open>The characters of tokens\<close>

lemma strtok_r_chars:
  assumes "strtok_r sep s = Some (t, r)"
  shows "set t \<subseteq> set s" "set r \<subseteq> set s"
proof -
  let ?t = "dropWhile sep s"
  have parts: "t = takeWhile (\<lambda>c. \<not> sep c) ?t" "r = drop 1 (dropWhile (\<lambda>c. \<not> sep c) ?t)"
    using assms by (auto simp: strtok_r_def Let_def split: if_splits)
  have sub: "set ?t \<subseteq> set s" by (auto dest: set_dropWhileD)
  show "set t \<subseteq> set s" unfolding parts(1) using sub by (auto dest!: set_takeWhileD)
  show "set r \<subseteq> set s" unfolding parts(2) using sub by (auto dest!: in_set_dropD set_dropWhileD)
qed

declare Tokenize_loop.simps [simp del]

lemma strtok_r_sub: "strtok_r sep s = Some (t, r) \<Longrightarrow> set t \<subseteq> set s \<and> set r \<subseteq> set s"
  using strtok_r_chars by blast

lemma Tokenize_loop_chars:
  assumes "Tokenize_loop sep n tok save ts = (n', save', ts')" "\<forall>t. tok = Some t \<longrightarrow> set t \<subseteq> A" "set save \<subseteq> A" "\<forall>t \<in> set ts. set t \<subseteq> A"
  shows "set save' \<subseteq> A" "\<forall>t \<in> set ts'. set t \<subseteq> A"
proof -
  have "set save' \<subseteq> A \<and> (\<forall>t \<in> set ts'. set t \<subseteq> A)"
    using assms
  proof (induction sep n tok save ts arbitrary: n' save' ts' rule: Tokenize_loop.induct)
    case (1 sep n tok save ts)
    note run = 1(4) [unfolded Tokenize_loop.simps [of sep n tok save ts]]
    show ?case
    proof (cases tok)
      case None
      then show ?thesis using run 1(6,7) by simp
    next
      case (Some t)
      then have grown: "\<forall>u \<in> set (ts @ [t]). set u \<subseteq> A" using 1(5,7) by auto
      show ?thesis
      proof (cases "n - 1 > 0")
        case False
        then show ?thesis using run 1(6,7) Some by (simp add: Let_def)
      next
        case more: True
        show ?thesis
        proof (cases "n - 1 > 1")
          case False
          with more Some run have "Tokenize_loop sep (n - 1) tok save (ts @ [t]) = (n', save', ts')" by (simp add: Let_def)
          from 1(3) [OF Some refl more False this 1(5,6) grown] show ?thesis .
        next
          case two: True
          show ?thesis
          proof (cases "strtok_r sep save")
            case None
            with more two Some run have "Tokenize_loop sep (n - 1) None save (ts @ [t]) = (n', save', ts')" by (simp add: Let_def)
            from 1(1) [OF Some refl more two None this _ 1(6) grown] show ?thesis by simp
          next
            case next_tok: (Some p)
            obtain t' s' where p: "p = (t', s')" by (cases p)
            note chars = strtok_r_chars [OF next_tok [unfolded p]]
            have "Tokenize_loop sep (n - 1) (Some t') s' (ts @ [t]) = (n', save', ts')"
              using more two Some run next_tok p by (simp add: Let_def)
            moreover have "\<forall>t. Some t' = Some t \<longrightarrow> set t \<subseteq> A" "set s' \<subseteq> A" using chars 1(6) by auto
            ultimately show ?thesis by (rule 1(2) [OF Some refl more two next_tok p [symmetric] _ _ _ grown])
          qed
        qed
      qed
    qed
  qed
  then show "set save' \<subseteq> A" "\<forall>t \<in> set ts'. set t \<subseteq> A" by auto
qed

lemma Tokenize_chars:
  assumes "Tokenize line sep n = (ok, tokens)" "t \<in> set tokens"
  shows "set t \<subseteq> set line"
proof -
  obtain tok save where start: "(case strtok_r sep line of None \<Rightarrow> (None, []) | Some (t, s) \<Rightarrow> (Some t, s)) = (tok, save)"
    by (metis surj_pair)
  have tok: "\<forall>t. tok = Some t \<longrightarrow> set t \<subseteq> set line" "set save \<subseteq> set line"
    using start strtok_r_chars [of sep line] by (auto split: option.splits)
  obtain n' save' ts where loop: "Tokenize_loop sep n tok save [] = (n', save', ts)" by (metis surj_pair)
  note chars = Tokenize_loop_chars [OF loop tok]
  have "tokens = (if n' = 0 then (case strtok_r (\<lambda>c. c = CHR 0x0D \<or> c = CHR 0x0A) save' of
      None \<Rightarrow> ts | Some (t, _) \<Rightarrow> ts @ [t]) else ts)"
    using assms(1) unfolding Tokenize_def start Let_def by (simp add: loop)
  then show ?thesis
    using assms(2) chars strtok_r_chars [of "\<lambda>c. c = CHR 0x0D \<or> c = CHR 0x0A" save']
    by (fastforce split: if_splits option.splits)
qed

lemma Tokenize_nth:
  assumes "Tokenize line sep n = (True, tokens)" "CHR 0x00 \<notin> set line" "int i < n"
  shows "CHR 0x00 \<notin> set (tokens ! i)"
proof -
  have "int (length tokens) = n" using assms(1) by (auto simp: Tokenize_def split_beta Let_def)
  then have "tokens ! i \<in> set tokens" using assms(3) by simp
  from Tokenize_chars [OF assms(1) this] assms(2) show ?thesis by blast
qed

lemma bytes_of_zero [simp]: "0 \<in> set (bytes_of s) \<longleftrightarrow> CHR 0x00 \<in> set s"
proof -
  have "(0 = (of_nat (of_char c) :: u8)) \<longleftrightarrow> c = CHR 0x00" for c :: char
  proof -
    have "of_char c < (256 :: nat)" by simp
    then have "unat (of_nat (of_char c) :: u8) = of_char c" by (simp add: unat_of_nat)
    then have "(0 = (of_nat (of_char c) :: u8)) \<longleftrightarrow> of_char c = (0 :: nat)" using unat_eq_zero by fastforce
    also have "\<dots> \<longleftrightarrow> of_char c = (of_char (CHR 0x00) :: nat)" by simp
    also have "\<dots> \<longleftrightarrow> c = CHR 0x00" by (rule of_char_eq_iff)
    finally show ?thesis .
  qed
  then show ?thesis by (auto simp: bytes_of_def image_iff)
qed

section \<open>What loading keeps\<close>

lemma StoreRange_keeps:
  assumes "range_ok m"
  shows "range_ok (snd (RangeMap_StoreRange base sz e m))"
proof (cases "RangeMap_StoreRange base sz e m")
  case (Pair r m')
  then show ?thesis
    using StoreRange_effect(1) [OF assms, of base sz e m'] StoreRange_cases [OF assms, of base sz e] assms
    by (cases r) (auto split: if_splits)
qed

lemma StoreRange_entries:
  "r \<in> set (snd (RangeMap_StoreRange base sz e m)) \<Longrightarrow> range_entry (snd r) = e \<or> r \<in> set m"
  by (auto simp: RangeMap_StoreRange_def Let_def dest!: map_insert_set split: if_splits)

lemma contained_good_iff:
  "contained_good good t \<longleftrightarrow> good (crm_entry t) \<and> (\<forall>(b, h, e) \<in> desc t. good e)"
proof (induction "size t" arbitrary: t rule: less_induct)
  case less
  have "contained_good good (snd c) \<longleftrightarrow> (\<forall>(b, h, e) \<in> family c. good e)" if "c \<in> set (crm_children t)" for c
    using less [OF size_in_children [OF that]] by (auto simp: family_def)
  then have "(\<forall>c \<in> set (crm_children t). contained_good good (snd c)) \<longleftrightarrow>
      (\<forall>c \<in> set (crm_children t). \<forall>(b, h, e) \<in> family c. good e)" by blast
  then show ?case by (auto simp: contained_good_children [of good t] good_map_def desc_children)
qed

text \<open>The trees of frame records.\<close>

definition tree_ok :: "(MemAddr, WindowsFrameInfo option) ContainedRangeMap \<Rightarrow> bool" where
  "tree_ok t \<longleftrightarrow> crm_ok t \<and> crm_entry t = None \<and>
     (\<forall>(b, h, e) \<in> desc t. \<exists>w. e = Some w \<and> wfi_valid w = - 1 \<and> 0 \<notin> set (program_string w))"

lemma tree_ok_frames: "tree_ok t \<Longrightarrow> crm_ok t \<and> frames_ok t \<and> frames_valid t"
  by (fastforce simp: tree_ok_def frames_ok_def frames_valid_def contained_good_iff)

lemma tree_ok_store:
  assumes "tree_ok t" "wfi_valid w = - 1" "0 \<notin> set (program_string w)"
  shows "tree_ok (snd (ContainedRangeMap_StoreRange base sz (Some w) t))"
proof (cases "sz = 0 \<or> base + sz - 1 < base")
  case True
  then show ?thesis using assms(1) by (simp add: Store_invalid)
next
  case False
  have crm: "crm_ok t" using assms(1) by (simp add: tree_ok_def)
  have "sz \<noteq> 0" "base \<le> base + sz - 1" using False by auto
  from Store_spec [OF crm this, of "Some w"] Store_keeps(2) [of base sz "Some w" t] assms show ?thesis
    by (auto simp: store_spec_def tree_ok_def split: if_splits)
qed

definition load_ok :: "Loader \<Rightarrow> bool" where
  "load_ok ld \<longleftrightarrow>
     map_ok (ld_files ld) \<and> (\<forall>e \<in> set (ld_files ld). unat (fst e) < 2 ^ 31 \<and> 0 \<notin> set (snd e)) \<and>
     range_ok (ld_functions ld) \<and> (\<forall>r \<in> set (ld_functions ld). range_entry (snd r) < length (ld_store ld)) \<and>
     (\<forall>f \<in> set (ld_store ld). function_ok f \<and> range_ok (fn_lines f)) \<and>
     (\<forall>p. ld_cur_func ld = Some p \<longrightarrow> p < length (ld_store ld)) \<and>
     map_ok (ld_public_symbols ld) \<and> (\<forall>e \<in> set (ld_public_symbols ld). \<exists>q. snd e = Some q \<and> 0 \<notin> set (ps_name q)) \<and>
     length (ld_windows_frame_info ld) = STACK_INFO_LAST \<and> (\<forall>t \<in> set (ld_windows_frame_info ld). tree_ok t) \<and>
     range_ok (ld_cfi_initial_rules ld) \<and> (\<forall>r \<in> set (ld_cfi_initial_rules ld). 0 \<notin> set (range_entry (snd r))) \<and>
     map_ok (ld_cfi_delta_rules ld) \<and> (\<forall>e \<in> set (ld_cfi_delta_rules ld). 0 \<notin> set (snd e))"

lemma load_ok_new: "load_ok Loader_new"
  by (simp add: load_ok_def Loader_new_def ContainedRangeMap_new_def tree_ok_def STACK_INFO_LAST_def)

lemma load_ok_log [simp]: "load_ok (LogParseError ld) \<longleftrightarrow> load_ok ld"
  by (simp add: load_ok_def LogParseError_def)

lemma load_ok_no_func [simp]: "load_ok ld \<Longrightarrow> load_ok (ld\<lparr>ld_cur_func := None\<rparr>)"
  by (simp add: load_ok_def)

lemma load_ok_logged: "load_ok (snd r) \<Longrightarrow> load_ok (logged r)"
  by (simp add: logged_def)

lemma digits_number_nonneg: "0 \<le> base \<Longrightarrow> 0 \<le> digits_number base ds"
proof -
  assume base: "0 \<le> base"
  have "0 \<le> digit_value c" for c by (simp add: digit_value_def Let_def)
  then have "0 \<le> foldl (\<lambda>n c. n * base + digit_value c) n ds" if "0 \<le> n" for n
    using that base by (induction ds arbitrary: n) simp_all
  then show ?thesis by (simp add: digits_number_def)
qed

lemma parse_long_range:
  assumes "parse_long base tok = Some v" "0 \<le> base"
  shows "0 \<le> v \<and> v < LONG_MAX"
proof -
  have "0 \<le> n" if "scan_number base tok = Some (negative, n, rest)" for negative n rest
    using that digits_number_nonneg [OF assms(2)] by (auto simp: scan_number_def Let_def split_beta split: if_splits)
  then show ?thesis
    using assms(1) by (auto simp: parse_long_def strtol_def LONG_MAX_def Let_def split: if_splits option.splits)
qed

lemma load_ok_file:
  assumes ok: "load_ok ld" and chars: "CHR 0x00 \<notin> set line"
  shows "load_ok (snd (Basic_ParseFile line ld))"
proof (cases "Helper_ParseFile line")
  case None
  with ok show ?thesis by (simp add: Basic_ParseFile_def)
next
  case (Some r)
  obtain index name where r: "r = (index, name)" by (cases r)
  obtain tokens where tok: "Tokenize (drop 5 line) kWhitespace 2 = (True, tokens)" "parse_long 10 (tokens ! 0) = Some index" "name = tokens ! 1"
    using Some by (auto simp: Helper_ParseFile_def r split_beta split: if_splits option.splits) (metis prod.collapse)
  have "CHR 0x00 \<notin> set (drop 5 line)" using chars by (auto dest: in_set_dropD)
  then have "CHR 0x00 \<notin> set name" using Tokenize_nth [OF tok(1), of 1] tok(3) by simp
  moreover have "unat (of_int index :: u32) < 2 ^ 31"
  proof -
    have range: "0 \<le> index" "index < 2 ^ 31 - 1" using parse_long_range [OF tok(2)] by (auto simp: LONG_MAX_def)
    then have "uint (of_int index :: u32) = index" by (simp add: uint_word_of_int)
    then have "unat (of_int index :: u32) = nat index" by (metis nat_uint_eq)
    with range show ?thesis by simp
  qed
  ultimately show ?thesis
    using ok by (auto simp: Basic_ParseFile_def Some r load_ok_def dest!: map_insert_set)
qed

lemma load_ok_public:
  assumes ok: "load_ok ld" and chars: "CHR 0x00 \<notin> set line"
  shows "load_ok (snd (Basic_ParsePublicSymbol line ld))"
proof (cases "Helper_ParsePublicSymbol line")
  case None
  with ok show ?thesis by (simp add: Basic_ParsePublicSymbol_def)
next
  case (Some r)
  obtain a n name where r: "r = (a, n, name)" by (cases r)
  obtain tokens where tok: "Tokenize (drop 7 line) kWhitespace 3 = (True, tokens)" "name = tokens ! 2"
    using Some by (auto simp: Helper_ParsePublicSymbol_def r split_beta split: if_splits option.splits) (metis prod.collapse)
  have "CHR 0x00 \<notin> set (drop 7 line)" using chars by (auto dest: in_set_dropD)
  then have "CHR 0x00 \<notin> set name" using Tokenize_nth [OF tok(1), of 2] tok(2) by simp
  then show ?thesis
    using ok by (auto simp: Basic_ParsePublicSymbol_def Some r load_ok_def AddressMap_Store_def Let_def dest!: map_insert_set)
qed

lemma load_ok_function:
  assumes ok: "load_ok ld" and chars: "CHR 0x00 \<notin> set line"
  shows "load_ok (Load_function line ld)"
proof (cases "Basic_ParseFunction line")
  case None
  with ok show ?thesis by (simp add: Load_function_def)
next
  case (Some f)
  then obtain a sz n name where h: "Helper_ParseFunction line = Some (a, sz, n, name)" and f: "fn_name f = bytes_of name" "fn_lines f = []"
    by (auto simp: Basic_ParseFunction_def split: option.splits)
  obtain tokens where tok: "Tokenize (drop 5 line) kWhitespace 4 = (True, tokens)" "name = tokens ! 3"
    using h by (auto simp: Helper_ParseFunction_def split_beta split: if_splits option.splits) (metis prod.collapse)
  have "CHR 0x00 \<notin> set (drop 5 line)" using chars by (auto dest: in_set_dropD)
  then have "CHR 0x00 \<notin> set name" using Tokenize_nth [OF tok(1), of 3] tok(2) by simp
  then have new: "function_ok f" "range_ok (fn_lines f)" by (simp_all add: function_ok_def f)
  let ?m = "snd (RangeMap_StoreRange (fn_address f) (fn_size f) (length (ld_store ld)) (ld_functions ld))"
  have "range_ok ?m" using ok by (intro StoreRange_keeps) (simp add: load_ok_def)
  moreover have "range_entry (snd r) < Suc (length (ld_store ld))" if "r \<in> set ?m" for r
    using StoreRange_entries [OF that] ok by (auto simp: load_ok_def intro: less_SucI)
  ultimately show ?thesis using ok new by (simp add: Load_function_def Some load_ok_def Let_def)
qed

lemma load_ok_source_line:
  assumes ok: "load_ok ld"
  shows "load_ok (Load_source_line line ld)"
proof (cases "ld_cur_func ld = None \<or> Basic_ParseLine line = None")
  case True
  with ok show ?thesis by (auto simp: Load_source_line_def split: option.split)
next
  case False
  then obtain p l where p: "ld_cur_func ld = Some p" and l: "Basic_ParseLine line = Some l" by auto
  let ?f = "ld_store ld ! p"
  let ?m = "snd (RangeMap_StoreRange (line_address l) (line_size l) (Some l) (fn_lines ?f))"
  have "p < length (ld_store ld)" using ok p by (simp add: load_ok_def)
  then have "?f \<in> set (ld_store ld)" by simp
  then have old: "function_ok ?f" "range_ok (fn_lines ?f)" using ok by (auto simp: load_ok_def)
  have keeps: "range_ok ?m" by (rule StoreRange_keeps [OF old(2)])
  then have "function_ok (?f\<lparr>fn_lines := ?m\<rparr>)"
    using old(1) StoreRange_entries [of _ "line_address l" "line_size l" "Some l" "fn_lines ?f"]
    by (fastforce simp: function_ok_def range_ok_map_ok)
  with keeps have "\<forall>f \<in> set ((ld_store ld)[p := ?f\<lparr>fn_lines := ?m\<rparr>]). function_ok f \<and> range_ok (fn_lines f)"
    using ok by (auto simp: load_ok_def dest!: set_update_subset_insert [THEN subsetD])
  with ok show ?thesis by (simp add: Load_source_line_def p l Let_def load_ok_def)
qed

lemma load_ok_frame:
  assumes ok: "load_ok ld" and chars: "CHR 0x00 \<notin> set str"
  shows "load_ok (snd (Store_frame str ld))"
proof (cases "ParseFromString str")
  case None
  with ok show ?thesis by (simp add: Store_frame_def)
next
  case (Some r)
  obtain w i rva sz where r: "r = (w, i, rva, sz)" by (cases r)
  obtain ok tokens where t: "Tokenize str kWhitespace 11 = (ok, tokens)" by (metis surj_pair)
  have good: "ok" using Some by (simp add: ParseFromString_def t split: if_splits)
  have w: "wfi_valid w = - 1" and i: "i < STACK_INFO_LAST" and prog: "program_string w = [] \<or> program_string w = bytes_of (tokens ! 10)"
    using Some good by (auto simp: ParseFromString_def t r Let_def STACK_INFO_LAST_def split: if_splits)
  note tok = t [unfolded eqTrueI [OF good]] prog
  have zero: "0 \<notin> set (program_string w)" using Tokenize_nth [OF tok(1) chars, of 10] tok(2) by auto
  let ?t = "ld_windows_frame_info ld ! i"
  have "?t \<in> set (ld_windows_frame_info ld)" using ok i by (simp add: load_ok_def)
  then have "tree_ok ?t" using ok by (simp add: load_ok_def)
  from tree_ok_store [OF this w zero, of rva sz]
  have "\<forall>t \<in> set ((ld_windows_frame_info ld)[i := snd (ContainedRangeMap_StoreRange rva sz (Some w) ?t)]). tree_ok t"
    using ok by (auto simp: load_ok_def dest!: set_update_subset_insert [THEN subsetD])
  with ok show ?thesis by (simp add: Store_frame_def Some r load_ok_def)
qed

lemma load_ok_cfi:
  assumes ok: "load_ok ld" and chars: "CHR 0x00 \<notin> set str"
  shows "load_ok (snd (ParseCFIFrameInfo str ld))"
proof -
  have init: "load_ok (ld\<lparr>ld_cfi_initial_rules := snd (RangeMap_StoreRange a sz (bytes_of t) (ld_cfi_initial_rules ld))\<rparr>)"
    if "CHR 0x00 \<notin> set t" for a sz t
    using ok that StoreRange_keeps [of "ld_cfi_initial_rules ld" a sz "bytes_of t"]
      StoreRange_entries [of _ a sz "bytes_of t" "ld_cfi_initial_rules ld"] by (fastforce simp: load_ok_def)
  have delta: "load_ok (ld\<lparr>ld_cfi_delta_rules := map_assign a (bytes_of t) (ld_cfi_delta_rules ld)\<rparr>)"
    if "CHR 0x00 \<notin> set t" for a t
    using ok that by (auto simp: load_ok_def dest!: map_assign_set)
  show ?thesis
    using ok chars
    by (auto simp: ParseCFIFrameInfo_def Let_def intro!: init delta dest!: strtok_r_sub split: option.splits if_splits)
      (meson subsetD)+
qed

lemma zero_while: "CHR 0x00 \<notin> set s \<Longrightarrow> CHR 0x00 \<notin> set (dropWhile P s)" "CHR 0x00 \<notin> set s \<Longrightarrow> CHR 0x00 \<notin> set (takeWhile P s)"
  by (auto dest: set_dropWhileD set_takeWhileD)

lemma load_ok_stack:
  assumes ok: "load_ok ld" and chars: "CHR 0x00 \<notin> set line" "\<And>t. behind = ret t \<Longrightarrow> CHR 0x00 \<notin> set t"
    and run: "ParseStackInfo line behind save ld = ret (r, save')"
  shows "load_ok (snd r)"
proof -
  define after where "after = dropWhile (\<lambda>c. \<not> kWhitespace c) (dropWhile (\<lambda>c. c = CHR '' '') (drop 6 line))"
  have "CHR 0x00 \<notin> set (drop 6 line)" using chars(1) by (auto dest: in_set_dropD)
  then have "CHR 0x00 \<notin> set after" unfolding after_def by (intro zero_while)
  then have "CHR 0x00 \<notin> set (drop 1 after)" by (meson in_set_dropD)
  then show ?thesis
    using run ok load_ok_frame [OF ok] load_ok_cfi [OF ok] chars(2)
    by (auto simp: ParseStackInfo_def Let_def after_def [symmetric] bindc_eq_ret split: if_splits)
qed

lemma load_ok_line:
  assumes ok: "load_ok ld" and chars: "CHR 0x00 \<notin> set line" "\<And>t. behind = ret t \<Longrightarrow> CHR 0x00 \<notin> set t"
    and run: "Load_line line behind save ld = ret (ld', save')"
  shows "load_ok ld'"
  using run load_ok_stack [OF ok chars(1,2)] load_ok_file [OF ok chars(1)] load_ok_function [OF ok chars(1)]
    load_ok_public [OF load_ok_no_func [OF ok] chars(1)] load_ok_source_line [OF ok, of line] ok
  by (auto simp: Load_line_def bindc_eq_ret intro!: load_ok_logged split: if_splits)

lemma strtok_cut_chars: "set (strtok_cut sep s) \<subseteq> set s"
  by (auto simp: strtok_cut_def dest!: set_takeWhileD set_dropWhileD)

lemma load_ok_loop:
  assumes "load_ok ld" "CHR 0x00 \<notin> set s" "Load_loop spare s ld = ret ld'"
  shows "load_ok ld'"
  using assms
proof (induction spare s ld rule: Load_loop.induct)
  case (1 spare s ld)
  note run = 1(4) [unfolded Load_loop.simps [of spare s ld]]
  show ?case
  proof (cases "strtok_r line_break s")
    case None
    then show ?thesis using run 1(2) by simp
  next
    case (Some p)
    obtain line save where p: "p = (line, save)" by (cases p)
    note chars = strtok_r_chars [OF Some [unfolded p]]
    define behind :: "string comp" where "behind = (if \<not> unended s then ret save else if spare then ret [] else fail OutOfRange)"
    have texts: "CHR 0x00 \<notin> set line" "CHR 0x00 \<notin> set save" "\<And>t. behind = ret t \<Longrightarrow> CHR 0x00 \<notin> set t"
      using chars 1(3) by (auto simp: behind_def split: if_splits)
    from run obtain ld1 save1 where line: "Load_line line behind save ld = ret (ld1, save1)"
      and rest: "(if ld_num_errors ld1 > kMaxErrorsBeforeBailing then ret ld1 else Load_loop spare save1 ld1) = ret ld'"
      by (auto simp: Some p Let_def behind_def bindc_eq_ret)
    have ok1: "load_ok ld1" by (rule load_ok_line [OF 1(2) texts(1,3) line])
    have "CHR 0x00 \<notin> set save1"
      using Load_line_rest [OF line] texts strtok_cut_chars by blast
    then show ?thesis
      using rest ok1 1(1) [OF Some p [symmetric] behind_def line refl _ ok1] by (auto split: if_splits)
  qed
qed

lemma module_of_ok:
  assumes "load_ok ld"
  shows "module_ok (module_of ld)"
proof -
  have sint: "sint a = int (unat a)" if "unat (a :: u32) < 2 ^ 31" for a by (rule sint_small [OF that])
  have "sorted_wrt (\<lambda>x y. fst x < fst y) (ld_files ld)" using assms by (simp add: load_ok_def map_ok_def sorted_wrt_map)
  then have "sorted_wrt (\<lambda>x y. sint (fst x) < sint (fst y)) (ld_files ld)"
  proof (rule sorted_wrt_mono_rel [rotated])
    fix x y assume "x \<in> set (ld_files ld)" "y \<in> set (ld_files ld)" "fst x < fst y"
    moreover from this(1,2) have "unat (fst x) < 2 ^ 31" "unat (fst y) < 2 ^ 31" using assms by (auto simp: load_ok_def)
    ultimately show "sint (fst x) < sint (fst y)" by (simp only: sint word_less_nat_alt of_nat_less_iff)
  qed
  then have files: "sorted_wrt (<) (map (\<lambda>e. sint (fst e)) (ld_files ld))" by (simp add: sorted_wrt_map)
  let ?fs = "map (\<lambda>(k, r). (k, \<lparr>range_base = range_base r, range_entry = Some (ld_store ld ! range_entry r)\<rparr>)) (ld_functions ld)"
  have "map fst ?fs = map fst (ld_functions ld)" by (simp add: split_beta comp_def)
  moreover have "map_ok (ld_functions ld)" using assms by (simp add: load_ok_def range_ok_map_ok)
  ultimately have mok: "map_ok ?fs" unfolding map_ok_def by (simp only:)
  have entries: "\<exists>f. range_entry (snd r) = Some f \<and> function_ok f" if r: "r \<in> set ?fs" for r
  proof -
    obtain k q where e: "(k, q) \<in> set (ld_functions ld)"
      "r = (k, \<lparr>range_base = range_base q, range_entry = Some (ld_store ld ! range_entry q)\<rparr>)"
      using r by auto
    then have "ld_store ld ! range_entry q \<in> set (ld_store ld)" using assms by (auto simp: load_ok_def)
    with e(2) assms show ?thesis by (simp add: load_ok_def)
  qed
  show ?thesis
    using assms files mok entries tree_ok_frames range_ok_map_ok [of "ld_cfi_initial_rules ld"]
    unfolding module_ok_def module_of_def load_ok_def by simp
qed

text \<open>The ranges of functions, of the lines of a function and of the rules at function entries do not overlap and
  are not empty.\<close>

definition ranges_apart :: "BasicModule \<Rightarrow> bool" where
  "ranges_apart bm \<longleftrightarrow>
     range_ok (bm_functions bm) \<and> range_ok (bm_cfi_initial_rules bm) \<and>
     (\<forall>r \<in> set (bm_functions bm). \<forall>f. range_entry (snd r) = Some f \<longrightarrow> range_ok (fn_lines f))"

lemma module_of_apart:
  assumes "load_ok ld"
  shows "ranges_apart (module_of ld)"
proof -
  have "range_ok (map (\<lambda>(k, r). (k, \<lparr>range_base = range_base r, range_entry = Some (ld_store ld ! range_entry r)\<rparr>)) m)"
    if "range_ok m" for m :: "(64, nat) RangeMap"
    using that by (induction m) (auto simp: range_ok_Cons)
  moreover have "ld_store ld ! range_entry q \<in> set (ld_store ld)" if "(k, q) \<in> set (ld_functions ld)" for k q
    using assms that by (auto simp: load_ok_def)
  ultimately show ?thesis using assms by (auto simp: load_ok_def ranges_apart_def module_of_def)
qed

section \<open>Loading returns\<close>

text \<open>A text whose lines all end with a line break, or one that \<^verbatim>\<open>strtok_r\<close> has cut behind its first word, in which no
  blank follows a word.\<close>

definition ended_text :: "string \<Rightarrow> bool" where
  "ended_text s \<longleftrightarrow> s = [] \<or> line_break (last s)"

definition cut_text :: "string \<Rightarrow> bool" where
  "cut_text s \<longleftrightarrow> sorted_wrt (\<lambda>a b. kWhitespace b \<longrightarrow> kWhitespace a) s"

lemma cut_text_strtok: "cut_text (strtok_cut kWhitespace s)"
proof -
  let ?le = "\<lambda>a b. kWhitespace b \<longrightarrow> kWhitespace a"
  have "sorted_wrt ?le (takeWhile kWhitespace s)"
    by (rule sorted_wrt_mono_rel [OF _ sorted_wrt_true]) (auto dest: set_takeWhileD)
  moreover have "sorted_wrt ?le (takeWhile (\<lambda>c. \<not> kWhitespace c) (dropWhile kWhitespace s))"
    by (rule sorted_wrt_mono_rel [OF _ sorted_wrt_true]) (auto dest: set_takeWhileD)
  ultimately show ?thesis by (auto simp: cut_text_def strtok_cut_def sorted_wrt_append dest: set_takeWhileD)
qed

lemma strtok_r_split:
  assumes "strtok_r sep s = Some (line, save)"
  obtains A B where "s = A @ line @ B" "save = drop 1 B" "B = dropWhile (\<lambda>c. \<not> sep c) (dropWhile sep s)"
proof -
  let ?t = "dropWhile sep s"
  have "s = takeWhile sep s @ takeWhile (\<lambda>c. \<not> sep c) ?t @ dropWhile (\<lambda>c. \<not> sep c) ?t"
    by (metis takeWhile_dropWhile_id)
  moreover have "line = takeWhile (\<lambda>c. \<not> sep c) ?t" "save = drop 1 (dropWhile (\<lambda>c. \<not> sep c) ?t)"
    using assms by (auto simp: strtok_r_def Let_def split: if_splits)
  ultimately show thesis using that by metis
qed

lemma strtok_r_nonempty: "strtok_r sep s = Some (line, save) \<Longrightarrow> line \<noteq> [] \<and> (\<forall>c \<in> set line. \<not> sep c)"
  using hd_dropWhile [of sep s] by (cases "dropWhile sep s") (auto simp: strtok_r_def Let_def dest: set_takeWhileD)

lemma cut_text_line:
  assumes "cut_text s" "strtok_r line_break s = Some (line, save)"
  shows "take 6 line \<noteq> ''STACK ''" "cut_text save"
proof -
  obtain A B where s: "s = A @ line @ B" "save = drop 1 B" using strtok_r_split [OF assms(2)] by blast
  have sorted: "sorted_wrt (\<lambda>a b. kWhitespace b \<longrightarrow> kWhitespace a) (A @ line @ B)" using assms(1) s(1) by (simp add: cut_text_def)
  then show "cut_text save" unfolding s(2) cut_text_def by (simp add: sorted_wrt_append sorted_wrt_drop)
  show "take 6 line \<noteq> ''STACK ''"
  proof
    assume "take 6 line = ''STACK ''"
    then obtain r where "line = CHR ''S'' # ''TACK'' @ CHR '' '' # r"
      by (metis append_take_drop_id append_Cons append_Nil)
    then have "kWhitespace CHR '' '' \<longrightarrow> kWhitespace CHR ''S''" using sorted by (simp only: sorted_wrt_append sorted_wrt.simps) simp
    then show False by (simp add: kWhitespace_def)
  qed
qed

lemma ended_text_line:
  assumes "ended_text s" "strtok_r line_break s = Some (line, save)"
  shows "\<not> unended s" "ended_text save"
proof -
  obtain A B where s: "s = A @ line @ B" "save = drop 1 B" "B = dropWhile (\<lambda>c. \<not> line_break c) (dropWhile line_break s)"
    using strtok_r_split [OF assms(2)] by blast
  note line = strtok_r_nonempty [OF assms(2)]
  have "line_break (last s)" using assms(1) line s(1) by (auto simp: ended_text_def)
  have "B \<noteq> []"
  proof
    assume "B = []"
    then have "last s = last line" "last line \<in> set line" using line s(1) by auto
    with line \<open>line_break (last s)\<close> show False by simp
  qed
  then show "\<not> unended s" using s(3) by (simp add: unended_def)
  have "last s = last B" using s(1) \<open>B \<noteq> []\<close> by simp
  with \<open>line_break (last s)\<close> \<open>B \<noteq> []\<close> show "ended_text save"
    unfolding s(2) ended_text_def by (cases B) (auto split: if_splits)
qed

lemma Load_line_returns:
  assumes "take 6 line \<noteq> ''STACK '' \<or> (\<exists>t. behind = ret t)"
  shows "\<exists>r. Load_line line behind save ld = ret r"
  using assms by (auto simp: Load_line_def ParseStackInfo_def Let_def)

lemma Load_line_plain:
  "take 6 line \<noteq> ''STACK '' \<Longrightarrow> Load_line line behind save ld = ret (ld', save') \<Longrightarrow> save' = save"
  by (auto simp: Load_line_def split: if_splits)

lemma Load_loop_returns:
  assumes "ended_text s \<or> cut_text s"
  shows "\<exists>ld'. Load_loop spare s ld = ret ld'"
  using assms
proof (induction spare s ld rule: Load_loop.induct)
  case (1 spare s ld)
  note step = Load_loop.simps [of spare s ld]
  show ?case
  proof (cases "strtok_r line_break s")
    case None
    then show ?thesis by (simp add: step)
  next
    case (Some p)
    obtain line save where p: "p = (line, save)" by (cases p)
    note tok = Some [unfolded p]
    define behind :: "string comp" where "behind = (if \<not> unended s then ret save else if spare then ret [] else fail OutOfRange)"
    have safe: "take 6 line \<noteq> ''STACK '' \<and> cut_text save \<or> behind = ret save \<and> ended_text save"
      using 1(2) cut_text_line [OF _ tok] ended_text_line [OF _ tok] by (auto simp: behind_def)
    then obtain ld1 save1 where line: "Load_line line behind save ld = ret (ld1, save1)"
      using Load_line_returns [of line behind save ld] by fastforce
    have "ended_text save1 \<or> cut_text save1"
      using safe Load_line_rest [OF line] Load_line_plain [OF _ line] cut_text_strtok by auto
    from 1(1) [OF Some p [symmetric] behind_def line refl _ this] show ?thesis
      using line by (auto simp: step Some p Let_def behind_def)
  qed
qed

section \<open>Properties\<close>

lemma Load_module_of:
  assumes "Basic_LoadMapFromMemory buf = ret (r, bm)"
  obtains ld where "load_ok ld" "bm = module_of ld" "r"
proof (cases "buf = []")
  case True
  then show thesis using assms load_ok_new that by (simp add: Basic_LoadMapFromMemory_def)
next
  case False
  let ?s = "buffer_text buf"
  let ?t = "map (\<lambda>c. if c = CHR 0x00 then CHR ''_'' else c) ?s"
  have zero: "CHR 0x00 \<notin> set ?t" by auto
  have "load_ok (if CHR 0x00 \<in> set ?s then LogParseError Loader_new else Loader_new)" using load_ok_new by simp
  from load_ok_loop [OF this zero] False assms that show thesis
    by (auto simp: Basic_LoadMapFromMemory_def Let_def bindc_eq_ret split: if_splits)
qed

lemma Load_module_ok:
  assumes "Basic_LoadMapFromMemory buf = ret (r, bm)"
  shows "module_ok bm"
  using Load_module_of [OF assms] module_of_ok by metis

text \<open>With a second zero behind the text there is always something to read behind the line.\<close>

lemma Load_loop_spare: "\<exists>ld'. Load_loop True s ld = ret ld'"
proof (induction True s ld rule: Load_loop.induct)
  case (1 s ld)
  note step = Load_loop.simps [of True s ld]
  show ?case
  proof (cases "strtok_r line_break s")
    case None
    then show ?thesis by (simp add: step)
  next
    case (Some p)
    obtain line save where p: "p = (line, save)" by (cases p)
    define behind :: "string comp" where "behind = (if \<not> unended s then ret save else if True then ret [] else fail OutOfRange)"
    have "\<exists>t. behind = ret t" by (simp add: behind_def)
    then obtain ld1 save1 where line: "Load_line line behind save ld = ret (ld1, save1)"
      using Load_line_returns [of line behind save ld] by auto
    from 1 [OF Some p [symmetric] behind_def line refl] show ?thesis
      using line by (auto simp: step Some p Let_def behind_def)
  qed
qed

text \<open>C32: Whatever a symbol file holds, the module that is loaded from it is well formed: the maps are ordered, the ranges of
  functions, lines and rules do not overlap, those of frame records nest properly, pointers are not null and no text holds
  a zero byte.  When the text ends with a line break, or the buffer has a second zero behind it, loading does return a
  module.\<close>

theorem Basic_LoadMapFromMemory_ok:
  "(\<forall>r bm. Basic_LoadMapFromMemory buf = ret (r, bm) \<longrightarrow> r \<and> module_ok bm \<and> ranges_apart bm) \<and>
   (ended_text (buffer_text buf) \<or> length (buffer_text buf) < length buf - 1 \<longrightarrow>
     (\<exists>bm. Basic_LoadMapFromMemory buf = ret (True, bm)))"
proof (intro conjI allI impI)
  fix r bm assume "Basic_LoadMapFromMemory buf = ret (r, bm)"
  then obtain ld where "load_ok ld" "bm = module_of ld" "r" by (rule Load_module_of)
  then show "r" "module_ok bm" "ranges_apart bm" using module_of_ok module_of_apart by simp_all
next
  assume a: "ended_text (buffer_text buf) \<or> length (buffer_text buf) < length buf - 1"
  let ?t = "map (\<lambda>c. if c = CHR 0x00 then CHR ''_'' else c) (buffer_text buf)"
  have "ended_text (buffer_text buf) \<Longrightarrow> ended_text ?t" by (auto simp: ended_text_def last_map line_break_def)
  then have "\<exists>ld'. Load_loop (length (buffer_text buf) < length buf - 1) ?t ld = ret ld'" for ld
    using a Load_loop_returns [of ?t _ ld] Load_loop_spare [of ?t ld] by (cases "length (buffer_text buf) < length buf - 1") auto
  from this [of "if CHR 0x00 \<in> set (buffer_text buf) then LogParseError Loader_new else Loader_new"]
  show "\<exists>bm. Basic_LoadMapFromMemory buf = ret (True, bm)"
    by (auto simp: Basic_LoadMapFromMemory_def Let_def)
qed

definition file_of :: "string list \<Rightarrow> string" where
  "file_of ls = concat (map (\<lambda>l. l @ [CHR 0x0A]) ls)"

definition small_file :: string where
  "small_file = file_of [''FILE 1 a.c'', ''FUNC 1000 100 8 m'', ''1000 10 42 1'', ''PUBLIC 2000 4 p'',
     ''STACK WIN 4 1000 10 1 0 8 4 10 0 1 $'', ''STACK CFI INIT 1000 100 .cfa: s'', ''STACK CFI 1002 .ra: t'']"

lemma small_file_loaded: "Basic_LoadMapFromMemory (small_file @ [CHR 0x00]) = ret (True, small_module)"
  by code_simp

theorem Basic_LoadMapFromMemory_ok_witness:
  "Basic_LoadMapFromMemory (small_file @ [CHR 0x00]) = ret (True, small_module) \<and> module_ok small_module \<and> ranges_apart small_module \<and>
   (\<exists>bm. Basic_LoadMapFromMemory (''FILE 1'' @ [CHR 0x0A, CHR 0x00]) = ret (True, bm)) \<and>
   (\<exists>bm. Basic_LoadMapFromMemory (''STACK WIN'' @ [CHR 0x00, CHR 0x00]) = ret (True, bm))"
proof -
  have "ended_text (buffer_text (''FILE 1'' @ [CHR 0x0A, CHR 0x00]))"
    by (simp add: buffer_text_def ended_text_def line_break_def)
  moreover have "length (buffer_text (''STACK WIN'' @ [CHR 0x00, CHR 0x00])) < length (''STACK WIN'' @ [CHR 0x00, CHR 0x00]) - 1"
    by (simp add: buffer_text_def)
  ultimately show ?thesis
    using Basic_LoadMapFromMemory_ok [of "small_file @ [CHR 0x00]"] Basic_LoadMapFromMemory_ok [of "''FILE 1'' @ [CHR 0x0A, CHR 0x00]"]
      Basic_LoadMapFromMemory_ok [of "''STACK WIN'' @ [CHR 0x00, CHR 0x00]"] small_file_loaded by blast
qed

text \<open>A record for the stack that ends behind the name of the platform makes the parser read what lies behind the line: the
  end of the buffer, or the next line.\<close>

lemma stack_line_faults: "Basic_LoadMapFromMemory (''STACK WIN'' @ [CHR 0x00]) = fail OutOfRange"
  by code_simp

text \<open>Addresses of rules are converted with \<^verbatim>\<open>strtoul\<close>, which has 32 bits here; those beyond are filed under the
  greatest value.\<close>

lemma cfi_address_saturates:
  "ParseCFIFrameInfo ''123456789 .ra: t'' Loader_new =
     (True, Loader_new\<lparr>ld_cfi_delta_rules := [(0xFFFFFFFF, bytes_of ''.ra: t'')]\<rparr>)"
  by code_simp

section \<open>From the symbol file to the fast resolver\<close>

definition SerializeSymbolFileData :: "(nat \<Rightarrow> u8) \<Rightarrow> string \<Rightarrow> (u8 list \<times> nat) option comp" where
  "SerializeSymbolFileData fill symbol_data =
     bindc (Basic_LoadMapFromMemory (symbol_data @ [CHR 0x00])) (\<lambda>(ok, module).
     if \<not> ok then ret None
     else bindc (Module_Serialize fill module) (\<lambda>r. ret (Some r)))"

lemma buffer_text_append: "s \<noteq> [] \<Longrightarrow> last s \<noteq> CHR 0x00 \<Longrightarrow> buffer_text (s @ [CHR 0x00]) = s"
  by (cases s rule: rev_cases) (simp_all add: buffer_text_def list_update_append)

lemma Basic_LookupAddress_returns:
  assumes "module_ok bm"
  shows "\<exists>frame'. Basic_LookupAddress bm frame = ret frame'"
proof -
  let ?a = "sf_address frame" and ?m = "bm_functions bm"
  have funs: "\<exists>f. range_entry (snd (?m ! i)) = Some f \<and> function_ok f" if "i < length ?m" for i
    using assms nth_mem [OF that] unfolding module_ok_def by blast
  have lines: "\<exists>frame'. Basic_line bm a f frame = ret frame'" if f: "function_ok f" for a f frame
  proof -
    have "\<exists>l. range_entry (snd (fn_lines f ! i)) = Some l" if "i < length (fn_lines f)" for i
      using f nth_mem [OF that] unfolding function_ok_def by blast
    then show ?thesis
      using RetrieveRange_entry [of a "fn_lines f"] by (fastforce simp: Basic_line_def Let_def split: option.split)
  qed
  have public: "\<exists>frame'. Basic_public bm ?a found frame = ret frame'" for found
  proof (cases "AddressMap_Retrieve ?a (bm_public_symbols bm)")
    case (Some r)
    have "map_ok (bm_public_symbols bm)" using assms by (simp add: module_ok_def)
    then have "(snd r, fst r) \<in> set (bm_public_symbols bm)"
      using AddressMap_Retrieve_floor(1) [of "bm_public_symbols bm" ?a "fst r" "snd r"] Some by simp
    then obtain q where "fst r = Some q" using assms unfolding module_ok_def by fastforce
    then show ?thesis by (cases r) (simp add: Basic_public_def Some)
  qed (simp add: Basic_public_def)
  have up: "upper_bound ?a ?m - 1 < length ?m" if "upper_bound ?a ?m \<noteq> 0"
    using that length_takeWhile_le [of "\<lambda>e. fst e \<le> ?a" ?m] unfolding upper_bound_def by linarith
  have found: "\<exists>f. fst r = Some f \<and> function_ok f" if "RangeMap_RetrieveNearestRange ?a ?m = Some r" for r
    using that funs [OF up] funs RetrieveRange_entry [of ?a ?m]
    by (cases r) (auto simp: RangeMap_RetrieveNearestRange_def range_out_def Let_def split: option.splits if_splits)
  show ?thesis
  proof (cases "RangeMap_RetrieveNearestRange ?a ?m")
    case None
    then show ?thesis using public by (simp add: Basic_LookupAddress_def Let_def)
  next
    case (Some r)
    obtain e b sz where r: "r = (e, b, sz)" by (cases r)
    obtain f where "e = Some f" "function_ok f" using found [OF Some] r by auto
    then show ?thesis using Some r public lines by (simp add: Basic_LookupAddress_def Let_def)
  qed
qed

text \<open>C4: Every symbol file that ends with a line break is loaded, and when its module fits into 4 GB its serialised
  form is loaded by the fast resolver.  Then both resolvers return for every frame, and with the same function, file
  and line.\<close>

theorem symbol_file_resolved:
  assumes data: "data \<noteq> []" "line_break (last data)"
  shows "\<exists>bm. Basic_LoadMapFromMemory (data @ [CHR 0x00]) = ret (True, bm) \<and>
    (Module_SizeOf bm < 2 ^ 32 \<longrightarrow>
      (\<exists>mem fm. SerializeSymbolFileData fill data = ret (Some (mem, Module_SizeOf bm)) \<and>
         Fast_LoadMapFromMemory (Some mem) FastModule_new = ret (True, fm) \<and>
         (\<forall>frame. \<exists>frame'. Basic_LookupAddress bm frame = ret frame' \<and> Fast_LookupAddress mem fm frame = ret frame')))"
proof -
  have "last data \<noteq> CHR 0x00" using data(2) by (auto simp: line_break_def)
  then have buf: "buffer_text (data @ [CHR 0x00]) = data" using data(1) by (intro buffer_text_append)
  have "ended_text (map (\<lambda>c. if c = CHR 0x00 then CHR ''_'' else c) data)"
    using data by (auto simp: ended_text_def last_map line_break_def)
  then obtain bm where bm: "Basic_LoadMapFromMemory (data @ [CHR 0x00]) = ret (True, bm)"
    using Load_loop_returns [of "map (\<lambda>c. if c = CHR 0x00 then CHR ''_'' else c) data" "length data < length data"
        "if CHR 0x00 \<in> set data then LogParseError Loader_new else Loader_new"]
    by (auto simp: Basic_LoadMapFromMemory_def Let_def buf)
  note ok = Load_module_ok [OF bm]
  show ?thesis
  proof (intro exI [of _ bm] conjI impI)
    assume small: "Module_SizeOf bm < 2 ^ 32"
    have "Fast_LookupAddress (module_bytes bm) (fast_view bm []) frame = Basic_LookupAddress bm frame" for frame
      using Fast_LookupAddress_same [OF ok small, of "\<lambda>_. 0" frame] by (simp add: converted_view [OF ok small])
    then show "\<exists>mem fm. SerializeSymbolFileData fill data = ret (Some (mem, Module_SizeOf bm)) \<and>
         Fast_LoadMapFromMemory (Some mem) FastModule_new = ret (True, fm) \<and>
         (\<forall>frame. \<exists>frame'. Basic_LookupAddress bm frame = ret frame' \<and> Fast_LookupAddress mem fm frame = ret frame')"
      using Basic_LookupAddress_returns [OF ok] bm small Fast_LoadMapFromMemory_written [OF ok, of "[]" FastModule_new]
      by (intro exI [of _ "module_bytes bm"] exI [of _ "fast_view bm []"])
        (simp add: SerializeSymbolFileData_def Module_Serialize_bytes [OF ok small] loaded_def)
  qed (rule bm)
qed

theorem symbol_file_resolved_witness:
  "\<exists>mem fm. SerializeSymbolFileData (\<lambda>_. 0xCC) small_file = ret (Some (mem, Module_SizeOf small_module)) \<and>
     Fast_LoadMapFromMemory (Some mem) FastModule_new = ret (True, fm) \<and>
     Fast_LookupAddress mem fm (frame_in 0x40001004) =
       ret (frame_in 0x40001004 \<lparr>sf_function_name := [109], sf_function_base := 0x40001000,
         sf_source_file_name := [97, 46, 99], sf_source_line := 42, sf_source_line_base := 0x40001000\<rparr>)"
proof -
  have "small_file \<noteq> []" "line_break (last small_file)" by (simp_all add: small_file_def file_of_def line_break_def)
  from symbol_file_resolved [OF this, of "\<lambda>_. 0xCC"] small_file_loaded small_module_size
  obtain mem fm where res: "SerializeSymbolFileData (\<lambda>_. 0xCC) small_file = ret (Some (mem, Module_SizeOf small_module))"
      "Fast_LoadMapFromMemory (Some mem) FastModule_new = ret (True, fm)"
    and same: "\<And>frame. \<exists>frame'. Basic_LookupAddress small_module frame = ret frame' \<and> Fast_LookupAddress mem fm frame = ret frame'"
    by auto
  have "Basic_LookupAddress small_module (frame_in 0x40001004) =
      ret (frame_in 0x40001004 \<lparr>sf_function_name := [109], sf_function_base := 0x40001000,
         sf_source_file_name := [97, 46, 99], sf_source_line := 42, sf_source_line_base := 0x40001000\<rparr>)"
    by (simp add: Basic_LookupAddress_def small_module_def sf_address_def frame_in_def RangeMap_RetrieveNearestRange_def
      RangeMap_RetrieveRange_def lower_bound_def range_out_def in_range_def Basic_line_def map_find_def Let_def)
  with same [of "frame_in 0x40001004"] res show ?thesis by auto
qed

section \<open>Printed records\<close>

definition hex_digit :: "nat \<Rightarrow> char" where
  "hex_digit d = char_of (if d < 10 then 48 + d else 87 + d)"

fun hex :: "nat \<Rightarrow> string" where
  "hex n = (if n < 16 then [hex_digit n] else hex (n div 16) @ [hex_digit (n mod 16)])"

declare hex.simps [simp del]

lemma hex_digit_value: "d < 16 \<Longrightarrow> digit_value (hex_digit d) = int d"
proof -
  have "\<forall>d \<in> set [0..<16]. digit_value (hex_digit d) = int d" by code_simp
  then show "d < 16 \<Longrightarrow> digit_value (hex_digit d) = int d" by simp
qed

lemma digits_number_append: "digits_number base (ds @ [c]) = digits_number base ds * base + digit_value c"
  by (simp add: digits_number_def)

lemma hex_number: "digits_number 16 (hex n) = int n \<and> (\<forall>c \<in> set (hex n). is_digit 16 c) \<and> hex n \<noteq> []"
proof (induction n rule: hex.induct)
  case (1 n)
  show ?case
  proof (cases "n < 16")
    case True
    then show ?thesis by (simp add: hex.simps [of n] digits_number_def hex_digit_value is_digit_def)
  next
    case False
    have "int (n div 16) * 16 + int (n mod 16) = int n" by presburger
    then show ?thesis
      using 1 False by (simp add: hex.simps [of n] digits_number_append hex_digit_value is_digit_def)
  qed
qed

lemma hex_scan: "scan_number 16 (hex n) = Some (False, int n, [])"
proof -
  note h = hex_number [of n]
  obtain c t where ct: "hex n = c # t" using h by (cases "hex n") auto
  have dig: "is_digit 16 c" using h ct by simp
  then have "\<not> c_isspace c" "c \<noteq> CHR ''-''" "c \<noteq> CHR ''+''"
    by (auto simp: is_digit_def digit_value_def c_isspace_def)
  then have sign: "scan_sign (dropWhile c_isspace (hex n)) = (False, hex n)" by (simp add: ct scan_sign_def)
  have "\<not> is_digit 16 CHR ''x''" "\<not> is_digit 16 CHR ''X''" by (simp_all add: is_digit_def digit_value_def)
  then have prefix: "scan_prefix 16 (hex n) = hex n"
    using h by (auto simp: scan_prefix_def split: list.split)
  have all: "takeWhile (is_digit 16) (hex n) = hex n" "dropWhile (is_digit 16) (hex n) = []"
    using h by (simp_all add: takeWhile_eq_all_conv dropWhile_eq_Nil_conv)
  show ?thesis using h by (simp add: scan_number_def sign prefix all)
qed

lemma parse_hex:
  "a \<noteq> - 1 \<Longrightarrow> parse_ull (hex (unat a)) = Some a"
  "int n < LONG_MAX \<Longrightarrow> parse_long 16 (hex n) = Some (int n)"
proof -
  have "unat a < 2 ^ 64" using unsigned_less [of a, where 'a = nat] by simp
  then have "int (unat a) < 2 ^ 64" by (metis of_nat_less_iff of_nat_numeral of_nat_power)
  then have "strtoull 16 (hex (unat a)) = (a, [])"
    by (simp add: strtoull_def strtou_def hex_scan)
  then show "a \<noteq> - 1 \<Longrightarrow> parse_ull (hex (unat a)) = Some a" by (simp add: parse_ull_def IsValidAfterNumber_def)
  show "int n < LONG_MAX \<Longrightarrow> parse_long 16 (hex n) = Some (int n)"
    by (simp add: parse_long_def strtol_def hex_scan IsValidAfterNumber_def)
qed

lemma hex_field: "field_ok kWhitespace (hex n)"
proof -
  have "\<not> kWhitespace c" if "is_digit 16 c" for c using that by (auto simp: kWhitespace_def is_digit_def digit_value_def)
  then show ?thesis using hex_number [of n] by (auto simp: field_ok_def)
qed

text \<open>C36: The record of a function with its address, its size and the size of its parameters in hexadecimal digits and
  any name within a line, which is not empty, is parsed to that function, when address and size are below the largest number
  of 64 bits and the size of the parameters is below \<open>LONG_MAX\<close>, values that \<^verbatim>\<open>strtoull\<close> and \<^verbatim>\<open>strtol\<close> also return for errors.\<close>

theorem ParseFunction_record:
  assumes "address \<noteq> - 1" "sz \<noteq> - 1" "int n < LONG_MAX" "name \<noteq> []" "\<forall>c \<in> set name. \<not> line_break c"
  shows "Basic_ParseFunction (''FUNC '' @ hex (unat address) @ '' '' @ hex (unat sz) @ '' '' @ hex n @ '' '' @ name) =
    Some \<lparr>fn_name = bytes_of name, fn_address = address, fn_size = sz, fn_parameter_size = of_nat n, fn_lines = []\<rparr>"
proof -
  let ?ws = "[hex (unat address), hex (unat sz), hex n]"
  have "field_ok (\<lambda>c. c = CHR 0x0D \<or> c = CHR 0x0A) name"
    using assms(4,5) by (auto simp: field_ok_def line_break_def)
  then have "Tokenize (Cfi_Frame_Info.fields ?ws name) kWhitespace (int (length ?ws) + 1) = (True, ?ws @ [name])"
    by (intro Tokenize_fields) (simp_all add: hex_field kWhitespace_def)
  moreover have "Cfi_Frame_Info.fields ?ws name = hex (unat address) @ '' '' @ hex (unat sz) @ '' '' @ hex n @ '' '' @ name" by (simp add: Cfi_Frame_Info.fields_def)
  ultimately show ?thesis
    using parse_hex(1) [OF assms(1)] parse_hex(1) [OF assms(2)] parse_hex(2) [OF assms(3)]
    by (simp add: Basic_ParseFunction_def Helper_ParseFunction_def)
qed

theorem ParseFunction_record_witness:
  "Basic_ParseFunction (''FUNC '' @ hex 0x1a40 @ '' '' @ hex 0x20 @ '' '' @ hex 12 @ '' '' @ ''operator new'') =
    Some \<lparr>fn_name = bytes_of ''operator new'', fn_address = 0x1a40, fn_size = 0x20, fn_parameter_size = 12, fn_lines = []\<rparr>"
  using ParseFunction_record [of "0x1a40" "0x20" 12 "''operator new''"] by (simp add: LONG_MAX_def line_break_def)

end
