(* ===== verification/Line_Resolver.thy ===== *)
theory Line_Resolver
  imports Symbol_Loader
begin

text \<open>
  The resolvers of source lines with the modules they have loaded: \<^verbatim>\<open>SourceLineResolverBase\<close>
  (\<^verbatim>\<open>source_line_resolver_base.cc\<close>), its two subclasses, and the conversions between them
  (\<^verbatim>\<open>module_serializer.cc\<close>).

  A resolver owns the buffers of its modules on the heap, a map from addresses to blocks.  The virtual functions
  of a module and of the resolver are a record of operations, with one value for each subclass; a module of the fast
  resolver is the address of its block with its maps.  Of a \<^verbatim>\<open>CodeModule\<close> only the name \<^verbatim>\<open>code_file()\<close> is used; the
  null pointer is \<open>None\<close>.  What the parser leaves of the buffer it cuts into lines is not kept: the
  resolver deletes that buffer behind the call.
\<close>

section \<open>Buffers on the heap\<close>

record Heap =
  blocks :: "(nat, u8 list) std_map"
  fresh :: nat

definition new_block :: "u8 list \<Rightarrow> Heap \<Rightarrow> nat \<times> Heap" where
  "new_block buf h = (fresh h, h\<lparr>blocks := map_assign (fresh h) buf (blocks h), fresh := fresh h + 1\<rparr>)"

definition delete_block :: "nat \<Rightarrow> Heap \<Rightarrow> Heap comp" where
  "delete_block p h =
     (case map_find p (blocks h) of None \<Rightarrow> fail FreedObject | Some _ \<Rightarrow> ret (h\<lparr>blocks := map_erase p (blocks h)\<rparr>))"

text \<open>The bytes at a pointer; a module that was not loaded has a null pointer and no bytes.\<close>

definition buffer_at :: "Heap \<Rightarrow> nat option \<Rightarrow> u8 list comp" where
  "buffer_at h p =
     (case p of
        None \<Rightarrow> ret []
      | Some p \<Rightarrow> (case map_find p (blocks h) of None \<Rightarrow> fail FreedObject | Some buf \<Rightarrow> ret buf))"

section \<open>Virtual functions\<close>

record 'm ModuleClass =
  CreateModule :: 'm
  LoadMapFromMemory :: "Heap \<Rightarrow> nat option \<Rightarrow> 'm \<Rightarrow> (bool \<times> 'm) comp"
  IsCorrupt :: "'m \<Rightarrow> bool"
  LookupAddress :: "Heap \<Rightarrow> 'm \<Rightarrow> StackFrame \<Rightarrow> StackFrame comp"
  Module_FindWindowsFrameInfo :: "Heap \<Rightarrow> 'm \<Rightarrow> StackFrame \<Rightarrow> WindowsFrameInfo option comp"
  Module_FindCFIFrameInfo :: "Heap \<Rightarrow> 'm \<Rightarrow> StackFrame \<Rightarrow> CFIFrameInfo option comp"
  ShouldDeleteMemoryBufferAfterLoadModule :: bool

definition BasicSourceLineResolver :: "BasicModule ModuleClass" where
  "BasicSourceLineResolver = \<lparr>
     CreateModule = module_of Loader_new,
     LoadMapFromMemory = (\<lambda>h p m. bindc (buffer_at h p) (\<lambda>buf. Basic_LoadMapFromMemory (chars buf))),
     IsCorrupt = bm_is_corrupt,
     LookupAddress = (\<lambda>h. Basic_LookupAddress),
     Module_FindWindowsFrameInfo = (\<lambda>h. Basic_FindWindowsFrameInfo),
     Module_FindCFIFrameInfo = (\<lambda>h m frame. ret (Basic_FindCFIFrameInfo m frame)),
     ShouldDeleteMemoryBufferAfterLoadModule = True\<rparr>"

type_synonym FastLoaded = "nat option \<times> FastModule"

definition Fast_load :: "Heap \<Rightarrow> nat option \<Rightarrow> FastLoaded \<Rightarrow> (bool \<times> FastLoaded) comp" where
  "Fast_load h p m =
     (case p of
        None \<Rightarrow> bindc (Fast_LoadMapFromMemory None (snd m)) (\<lambda>(ok, fm). ret (ok, (fst m, fm)))
      | Some q \<Rightarrow>
          bindc (buffer_at h p) (\<lambda>mem.
          bindc (Fast_LoadMapFromMemory (Some mem) (snd m)) (\<lambda>(ok, fm). ret (ok, (Some q, fm)))))"

definition FastSourceLineResolver :: "FastLoaded ModuleClass" where
  "FastSourceLineResolver = \<lparr>
     CreateModule = (None, FastModule_new),
     LoadMapFromMemory = Fast_load,
     IsCorrupt = (\<lambda>m. fm_is_corrupt (snd m)),
     LookupAddress = (\<lambda>h m frame. bindc (buffer_at h (fst m)) (\<lambda>mem. Fast_LookupAddress mem (snd m) frame)),
     Module_FindWindowsFrameInfo = (\<lambda>h m frame. bindc (buffer_at h (fst m)) (\<lambda>mem. Fast_FindWindowsFrameInfo mem (snd m) frame)),
     Module_FindCFIFrameInfo = (\<lambda>h m frame. bindc (buffer_at h (fst m)) (\<lambda>mem. Fast_FindCFIFrameInfo mem (snd m) frame)),
     ShouldDeleteMemoryBufferAfterLoadModule = False\<rparr>"

section \<open>The resolver\<close>

text \<open>Names are compared with \<^verbatim>\<open>strcmp\<close>, that is up to the first zero; the maps hold them up to there.\<close>

definition c_str :: "u8 list \<Rightarrow> u8 list" where
  "c_str s = takeWhile (\<lambda>b. b \<noteq> 0) s"

definition CompareString :: "u8 list \<Rightarrow> u8 list \<Rightarrow> bool" where
  "CompareString s1 s2 \<longleftrightarrow> c_str s1 < c_str s2"

record 'm Resolver =
  modules :: "(u8 list, 'm) std_map"
  corrupt_modules :: "u8 list list"
  memory_buffers :: "(u8 list, nat) std_map"
  rs_heap :: Heap

definition Resolver_new :: "'m Resolver" where
  "Resolver_new = \<lparr>modules = [], corrupt_modules = [], memory_buffers = [], rs_heap = \<lparr>blocks = [], fresh = 0\<rparr>\<rparr>"

fun delete_buffers :: "(u8 list, nat) std_map \<Rightarrow> Heap \<Rightarrow> Heap comp" where
  "delete_buffers [] h = ret h"
| "delete_buffers ((_, p) # bs) h = bindc (delete_block p h) (\<lambda>h. delete_buffers bs h)"

text \<open>The destructor; what is left is the heap.\<close>

definition Resolver_delete :: "'m Resolver \<Rightarrow> Heap comp" where
  "Resolver_delete r = delete_buffers (memory_buffers r) (rs_heap r)"

text \<open>A file as \<^verbatim>\<open>stat\<close> and \<^verbatim>\<open>fopen\<close> report it: its size and its bytes, if they can be had.  The number of bytes
  that were read is kept in an \<^verbatim>\<open>int\<close>, so a file of 2 GB or more is rejected.\<close>

record SymbolFile =
  st_size :: "nat option"
  file_data :: "u8 list option"

definition ReadSymbolFile :: "(nat \<Rightarrow> u8) \<Rightarrow> SymbolFile \<Rightarrow> Heap \<Rightarrow> (nat option \<times> Heap) comp" where
  "ReadSymbolFile fill map_file h =
     (case st_size map_file of
        None \<Rightarrow> ret (None, h)
      | Some file_size \<Rightarrow>
          let (p, h) = new_block (alloc fill (file_size + 1)) h in
          (case file_data map_file of
             None \<Rightarrow> bindc (delete_block p h) (\<lambda>h. ret (None, h))
           | Some bytes \<Rightarrow>
               let items = take file_size bytes in
               let items_read = sint (of_nat (length items) :: u32) in
               if items_read \<noteq> int file_size then bindc (delete_block p h) (\<lambda>h. ret (None, h))
               else ret (Some p, h\<lparr>blocks := map_assign p (items @ [0]) (blocks h)\<rparr>)))"

definition LoadModuleUsingMemoryBuffer ::
    "'m ModuleClass \<Rightarrow> u8 list option \<Rightarrow> nat option \<Rightarrow> 'm Resolver \<Rightarrow> (bool \<times> 'm Resolver) comp" where
  "LoadModuleUsingMemoryBuffer cls module memory_buffer r =
     (case module of
        None \<Rightarrow> ret (False, r)
      | Some code_file \<Rightarrow>
          let name = c_str code_file in
          if map_find name (modules r) \<noteq> None then ret (False, r)
          else
            bindc (LoadMapFromMemory cls (rs_heap r) memory_buffer (CreateModule cls)) (\<lambda>(ok, m).
            if \<not> ok \<and> \<not> IsCorrupt cls m then fail AssertFailed
            else
              let r = r\<lparr>modules := map_insert name m (modules r)\<rparr> in
              ret (True, if IsCorrupt cls m
                         then r\<lparr>corrupt_modules := std_set_insert name (corrupt_modules r)\<rparr> else r)))"

text \<open>The end of both functions that load a module into a buffer of their own: it stays alive with the module or
  is deleted.\<close>

definition Load_owned :: "'m ModuleClass \<Rightarrow> u8 list \<Rightarrow> nat \<Rightarrow> 'm Resolver \<Rightarrow> (bool \<times> 'm Resolver) comp" where
  "Load_owned cls code_file memory_buffer r =
     bindc (LoadModuleUsingMemoryBuffer cls (Some code_file) (Some memory_buffer) r) (\<lambda>(load_result, r).
     if load_result \<and> \<not> ShouldDeleteMemoryBufferAfterLoadModule cls
     then ret (load_result, r\<lparr>memory_buffers := map_insert (c_str code_file) memory_buffer (memory_buffers r)\<rparr>)
     else bindc (delete_block memory_buffer (rs_heap r)) (\<lambda>h. ret (load_result, r\<lparr>rs_heap := h\<rparr>)))"

definition LoadModule ::
    "'m ModuleClass \<Rightarrow> (nat \<Rightarrow> u8) \<Rightarrow> u8 list option \<Rightarrow> SymbolFile \<Rightarrow> 'm Resolver \<Rightarrow> (bool \<times> 'm Resolver) comp" where
  "LoadModule cls fill module map_file r =
     (case module of
        None \<Rightarrow> ret (False, r)
      | Some code_file \<Rightarrow>
          if map_find (c_str code_file) (modules r) \<noteq> None then ret (False, r)
          else
            bindc (ReadSymbolFile fill map_file (rs_heap r)) (\<lambda>(memory_buffer, h).
            case memory_buffer of
              None \<Rightarrow> ret (False, r\<lparr>rs_heap := h\<rparr>)
            | Some p \<Rightarrow> Load_owned cls code_file p (r\<lparr>rs_heap := h\<rparr>)))"

definition LoadModuleUsingMapBuffer ::
    "'m ModuleClass \<Rightarrow> u8 list option \<Rightarrow> u8 list \<Rightarrow> 'm Resolver \<Rightarrow> (bool \<times> 'm Resolver) comp" where
  "LoadModuleUsingMapBuffer cls module map_buffer r =
     (case module of
        None \<Rightarrow> ret (False, r)
      | Some code_file \<Rightarrow>
          if map_find (c_str code_file) (modules r) \<noteq> None then ret (False, r)
          else
            let (p, h) = new_block (map_buffer @ [0]) (rs_heap r) in
            Load_owned cls code_file p (r\<lparr>rs_heap := h\<rparr>))"

definition UnloadModule :: "'m ModuleClass \<Rightarrow> u8 list option \<Rightarrow> 'm Resolver \<Rightarrow> 'm Resolver comp" where
  "UnloadModule cls code_module r =
     (case code_module of
        None \<Rightarrow> ret r
      | Some code_file \<Rightarrow>
          let name = c_str code_file;
              r = (if map_find name (modules r) \<noteq> None
                   then r\<lparr>corrupt_modules := std_set_erase name (corrupt_modules r), modules := map_erase name (modules r)\<rparr>
                   else r) in
          if ShouldDeleteMemoryBufferAfterLoadModule cls then ret r
          else
            (case map_find name (memory_buffers r) of
               None \<Rightarrow> ret r
             | Some p \<Rightarrow>
                 bindc (delete_block p (rs_heap r)) (\<lambda>h.
                 ret (r\<lparr>rs_heap := h, memory_buffers := map_erase name (memory_buffers r)\<rparr>))))"

definition HasModule :: "u8 list option \<Rightarrow> 'm Resolver \<Rightarrow> bool" where
  "HasModule module r =
     (case module of None \<Rightarrow> False | Some code_file \<Rightarrow> map_find (c_str code_file) (modules r) \<noteq> None)"

definition IsModuleCorrupt :: "u8 list option \<Rightarrow> 'm Resolver \<Rightarrow> bool" where
  "IsModuleCorrupt module r =
     (case module of None \<Rightarrow> False | Some code_file \<Rightarrow> c_str code_file \<in> set (corrupt_modules r))"

text \<open>The queries, with the module of the frame as an argument.\<close>

definition FillSourceLineInfo :: "'m ModuleClass \<Rightarrow> 'm Resolver \<Rightarrow> u8 list option \<Rightarrow> StackFrame \<Rightarrow> StackFrame comp" where
  "FillSourceLineInfo cls r module frame =
     (case module of
        None \<Rightarrow> ret frame
      | Some code_file \<Rightarrow>
          (case map_find (c_str code_file) (modules r) of
             None \<Rightarrow> ret frame
           | Some m \<Rightarrow> LookupAddress cls (rs_heap r) m frame))"

definition FindWindowsFrameInfo ::
    "'m ModuleClass \<Rightarrow> 'm Resolver \<Rightarrow> u8 list option \<Rightarrow> StackFrame \<Rightarrow> WindowsFrameInfo option comp" where
  "FindWindowsFrameInfo cls r module frame =
     (case module of
        None \<Rightarrow> ret None
      | Some code_file \<Rightarrow>
          (case map_find (c_str code_file) (modules r) of
             None \<Rightarrow> ret None
           | Some m \<Rightarrow> Module_FindWindowsFrameInfo cls (rs_heap r) m frame))"

definition FindCFIFrameInfo ::
    "'m ModuleClass \<Rightarrow> 'm Resolver \<Rightarrow> u8 list option \<Rightarrow> StackFrame \<Rightarrow> CFIFrameInfo option comp" where
  "FindCFIFrameInfo cls r module frame =
     (case module of
        None \<Rightarrow> ret None
      | Some code_file \<Rightarrow>
          (case map_find (c_str code_file) (modules r) of
             None \<Rightarrow> ret None
           | Some m \<Rightarrow> Module_FindCFIFrameInfo cls (rs_heap r) m frame))"

section \<open>Conversion\<close>

definition SerializeModuleAndLoadIntoFastResolver ::
    "(nat \<Rightarrow> u8) \<Rightarrow> u8 list \<times> BasicModule \<Rightarrow> FastLoaded Resolver \<Rightarrow> (bool \<times> FastLoaded Resolver) comp" where
  "SerializeModuleAndLoadIntoFastResolver fill iter fast_resolver =
     bindc (Module_Serialize fill (snd iter)) (\<lambda>(symbol_data, n).
     LoadModuleUsingMapBuffer FastSourceLineResolver (Some (fst iter)) (take n symbol_data) fast_resolver)"

fun Convert_loop :: "(nat \<Rightarrow> u8) \<Rightarrow> (u8 list, BasicModule) std_map \<Rightarrow> FastLoaded Resolver \<Rightarrow> FastLoaded Resolver comp" where
  "Convert_loop fill [] fast_resolver = ret fast_resolver"
| "Convert_loop fill (iter # ms) fast_resolver =
     bindc (SerializeModuleAndLoadIntoFastResolver fill iter fast_resolver) (\<lambda>(_, fast_resolver).
     Convert_loop fill ms fast_resolver)"

definition ConvertAllModules ::
    "(nat \<Rightarrow> u8) \<Rightarrow> BasicModule Resolver option \<Rightarrow> FastLoaded Resolver option \<Rightarrow> FastLoaded Resolver option comp" where
  "ConvertAllModules fill basic_resolver fast_resolver =
     (case (basic_resolver, fast_resolver) of
        (Some b, Some f) \<Rightarrow> bindc (Convert_loop fill (modules b) f) (\<lambda>f. ret (Some f))
      | _ \<Rightarrow> ret fast_resolver)"

definition ConvertOneModule ::
    "(nat \<Rightarrow> u8) \<Rightarrow> u8 list \<Rightarrow> BasicModule Resolver option \<Rightarrow> FastLoaded Resolver option \<Rightarrow>
     (bool \<times> FastLoaded Resolver option) comp" where
  "ConvertOneModule fill moduleid basic_resolver fast_resolver =
     (case (basic_resolver, fast_resolver) of
        (Some b, Some f) \<Rightarrow>
          (case map_find (c_str moduleid) (modules b) of
             None \<Rightarrow> ret (False, fast_resolver)
           | Some m \<Rightarrow>
               bindc (SerializeModuleAndLoadIntoFastResolver fill (c_str moduleid, m) f) (\<lambda>(ok, f).
               ret (ok, Some f)))
      | _ \<Rightarrow> ret (False, fast_resolver))"

section \<open>Names and blocks\<close>

lemma c_str_c_str [simp]: "c_str (c_str s) = c_str s"
  by (simp add: c_str_def)

text \<open>The order of the code identifies exactly the names that are the same up to the first zero.\<close>

lemma CompareString_same: "\<not> CompareString s1 s2 \<and> \<not> CompareString s2 s1 \<longleftrightarrow> c_str s1 = c_str s2"
  by (auto simp: CompareString_def not_less)

definition heap_ok :: "Heap \<Rightarrow> bool" where
  "heap_ok h \<longleftrightarrow> map_ok (blocks h) \<and> (\<forall>p. fresh h \<le> p \<longrightarrow> map_find p (blocks h) = None)"

lemma new_block_spec:
  assumes "heap_ok h" "new_block buf h = (p, h')"
  shows "heap_ok h'" "p = fresh h" "map_find p (blocks h) = None"
    and "\<And>q. map_find q (blocks h') = (if q = p then Some buf else map_find q (blocks h))"
  using assms by (auto simp: new_block_def heap_ok_def map_find_assign)

lemma delete_block_spec:
  assumes "heap_ok h" "map_find p (blocks h) = Some buf"
  obtains h' where "delete_block p h = ret h'" "heap_ok h'" "fresh h' = fresh h"
    "\<And>q. map_find q (blocks h') = (if q = p then None else map_find q (blocks h))"
  using assms by (auto simp: delete_block_def heap_ok_def map_find_erase)

text \<open>Reading a file allocates one block with its bytes and a zero behind them, or nothing.\<close>

lemma items_read_iff:
  assumes "k \<le> n"
  shows "sint (of_nat k :: u32) = int n \<longleftrightarrow> k = n \<and> n < 2 ^ 31"
proof
  assume "sint (of_nat k :: u32) = int n"
  moreover have "sint (of_nat k :: u32) < 2 ^ 31" using sint_lt [of "of_nat k :: u32"] by simp
  ultimately have n: "n < 2 ^ 31" by simp
  then have "sint (of_nat k :: u32) = int k" using assms by (simp add: signed_of_nat signed_take_bit_int_eq_self_iff)
  with n show "k = n \<and> n < 2 ^ 31" using \<open>sint (of_nat k :: u32) = int n\<close> by simp
qed (simp add: signed_of_nat signed_take_bit_int_eq_self_iff)

lemma ReadSymbolFile_spec:
  assumes h: "heap_ok h"
  obtains (fails) h' where "ReadSymbolFile fill map_file h = ret (None, h')" "heap_ok h'"
      "\<And>q. map_find q (blocks h') = map_find q (blocks h)"
  | (reads) p h' buf where "ReadSymbolFile fill map_file h = ret (Some p, h')" "heap_ok h'" "map_find p (blocks h) = None"
      "\<And>q. map_find q (blocks h') = (if q = p then Some (buf @ [0]) else map_find q (blocks h))"
proof (cases "st_size map_file")
  case None
  then show thesis using fails [of h] h by (simp add: ReadSymbolFile_def)
next
  case (Some n)
  obtain p h1 where new: "new_block (alloc fill (n + 1)) h = (p, h1)" by (cases "new_block (alloc fill (n + 1)) h") 
  note n1 = new_block_spec [OF h new]
  obtain h2 where del: "delete_block p h1 = ret h2" "heap_ok h2"
    "\<And>q. map_find q (blocks h2) = (if q = p then None else map_find q (blocks h1))"
    using delete_block_spec [OF n1(1), of p "alloc fill (n + 1)"] n1(4) by (metis (full_types))
  have restored: "map_find q (blocks h2) = map_find q (blocks h)" for q using del(3) n1(3,4) by simp
  show thesis
  proof (cases "\<exists>bytes. file_data map_file = Some bytes \<and> n \<le> length bytes \<and> n < 2 ^ 31")
    case True
    then obtain bytes where bytes: "file_data map_file = Some bytes" "n \<le> length bytes" "n < 2 ^ 31" by blast
    let ?h = "h1\<lparr>blocks := map_assign p (take n bytes @ [0]) (blocks h1)\<rparr>"
    have "ReadSymbolFile fill map_file h = ret (Some p, ?h)"
      using bytes items_read_iff [of n n] by (simp add: ReadSymbolFile_def Some new [simplified] min_absorb2)
    moreover have "heap_ok ?h" "\<And>q. map_find q (blocks ?h) = (if q = p then Some (take n bytes @ [0]) else map_find q (blocks h))"
      using n1(1,4) by (auto simp: heap_ok_def map_find_assign)
    ultimately show thesis by (rule reads [OF _ _ n1(3)])
  next
    case False
    then have "ReadSymbolFile fill map_file h = ret (None, h2)"
      using del(1) by (auto simp: ReadSymbolFile_def Some new [simplified] Let_def items_read_iff min.absorb_iff2 [symmetric] split: option.split)
    then show thesis using del(2) restored by (rule fails)
  qed
qed

section \<open>What a resolver relies on\<close>

text \<open>
  The laws of a class of modules: loading from a block succeeds or does not return, a module that needs its block
  remembers where it is, and the answers of a module depend on nothing else on the heap.  \<open>good buf m\<close> says that \<open>m\<close>
  was loaded from the bytes \<open>buf\<close>.
\<close>

locale module_class =
  fixes cls :: "'m ModuleClass"
    and block_of :: "'m \<Rightarrow> nat option"
    and good :: "u8 list \<Rightarrow> 'm \<Rightarrow> bool"
  assumes load_good: "map_find p (blocks h) = Some buf \<Longrightarrow> LoadMapFromMemory cls h (Some p) (CreateModule cls) = ret (ok, m) \<Longrightarrow>
      ok \<and> good buf m \<and> block_of m = (if ShouldDeleteMemoryBufferAfterLoadModule cls then None else Some p)"
    and no_block: "ShouldDeleteMemoryBufferAfterLoadModule cls \<Longrightarrow> block_of m = None"
    and lookup_local: "(\<And>p. block_of m = Some p \<Longrightarrow> map_find p (blocks h) = map_find p (blocks h')) \<Longrightarrow>
      LookupAddress cls h m = LookupAddress cls h' m"
    and windows_local: "(\<And>p. block_of m = Some p \<Longrightarrow> map_find p (blocks h) = map_find p (blocks h')) \<Longrightarrow>
      Module_FindWindowsFrameInfo cls h m = Module_FindWindowsFrameInfo cls h' m"
    and cfi_local: "(\<And>p. block_of m = Some p \<Longrightarrow> map_find p (blocks h) = map_find p (blocks h')) \<Longrightarrow>
      Module_FindCFIFrameInfo cls h m = Module_FindCFIFrameInfo cls h' m"

text \<open>
  The invariant of a resolver: the corrupt modules are listed, the buffers that are kept are those the modules read, each
  module was loaded from the bytes its buffer still has, and there are no other blocks.
\<close>

definition resolver_ok :: "'m ModuleClass \<Rightarrow> ('m \<Rightarrow> nat option) \<Rightarrow> (u8 list \<Rightarrow> 'm \<Rightarrow> bool) \<Rightarrow> 'm Resolver \<Rightarrow> bool" where
  "resolver_ok cls block_of good r \<longleftrightarrow>
     heap_ok (rs_heap r) \<and> map_ok (modules r) \<and> map_ok (memory_buffers r) \<and> sorted_wrt (<) (corrupt_modules r) \<and>
     (\<forall>k m. map_find k (modules r) = Some m \<longrightarrow>
        c_str k = k \<and> (\<exists>buf. good buf m \<and> (\<forall>p. block_of m = Some p \<longrightarrow> map_find p (blocks (rs_heap r)) = Some buf))) \<and>
     (\<forall>k. k \<in> set (corrupt_modules r) \<longleftrightarrow> (\<exists>m. map_find k (modules r) = Some m \<and> IsCorrupt cls m)) \<and>
     (\<forall>k. map_find k (memory_buffers r) = Option.bind (map_find k (modules r)) block_of) \<and>
     (\<forall>p. map_find p (blocks (rs_heap r)) \<noteq> None \<longleftrightarrow> (\<exists>k. map_find k (memory_buffers r) = Some p)) \<and>
     (\<forall>k k' p. map_find k (memory_buffers r) = Some p \<and> map_find k' (memory_buffers r) = Some p \<longrightarrow> k = k')"

text \<open>All answers a resolver gives about a module.\<close>

definition answers :: "'m ModuleClass \<Rightarrow> 'm Resolver \<Rightarrow> u8 list option \<Rightarrow> (StackFrame \<Rightarrow> StackFrame comp) \<times>
    (StackFrame \<Rightarrow> WindowsFrameInfo option comp) \<times> (StackFrame \<Rightarrow> CFIFrameInfo option comp) \<times> bool \<times> bool" where
  "answers cls r module = (FillSourceLineInfo cls r module, FindWindowsFrameInfo cls r module, FindCFIFrameInfo cls r module,
     HasModule module r, IsModuleCorrupt module r)"

lemma resolver_ok_new: "resolver_ok cls block_of good Resolver_new"
  by (simp add: resolver_ok_def Resolver_new_def heap_ok_def map_find_def)

context module_class
begin

abbreviation ok :: "'m Resolver \<Rightarrow> bool" where
  "ok \<equiv> resolver_ok cls block_of good"

lemma ok_maps:
  assumes "ok r"
  shows "heap_ok (rs_heap r)" "map_ok (modules r)" "map_ok (memory_buffers r)" "sorted_wrt (<) (corrupt_modules r)"
  using assms unfolding resolver_ok_def by blast+

lemma ok_buffers: "ok r \<Longrightarrow> map_find k (memory_buffers r) = Option.bind (map_find k (modules r)) block_of"
  unfolding resolver_ok_def by blast

lemma ok_corrupt: "ok r \<Longrightarrow> k \<in> set (corrupt_modules r) \<longleftrightarrow> (\<exists>m. map_find k (modules r) = Some m \<and> IsCorrupt cls m)"
  unfolding resolver_ok_def by blast

lemma ok_blocks: "ok r \<Longrightarrow> map_find p (blocks (rs_heap r)) \<noteq> None \<longleftrightarrow> (\<exists>k. map_find k (memory_buffers r) = Some p)"
  unfolding resolver_ok_def by blast

lemma ok_inj: "ok r \<Longrightarrow> map_find k (memory_buffers r) = Some p \<Longrightarrow> map_find k' (memory_buffers r) = Some p \<Longrightarrow> k = k'"
  unfolding resolver_ok_def by blast

lemma ok_module:
  assumes "ok r" "map_find k (modules r) = Some m"
  obtains buf where "c_str k = k" "good buf m" "\<And>p. block_of m = Some p \<Longrightarrow> map_find p (blocks (rs_heap r)) = Some buf"
  using assms unfolding resolver_ok_def by blast

text \<open>Answers about a module that is loaded in both resolvers, with the bytes of its block the same.\<close>

lemma answers_same:
  assumes "ok r" "ok r'" "map_find (c_str n) (modules r') = map_find (c_str n) (modules r)"
    and "\<And>p. map_find (c_str n) (memory_buffers r) = Some p \<Longrightarrow>
      map_find p (blocks (rs_heap r')) = map_find p (blocks (rs_heap r))"
  shows "answers cls r' (Some n) = answers cls r (Some n)"
proof (cases "map_find (c_str n) (modules r)")
  case None
  then show ?thesis using assms(1-3)
    by (auto simp: answers_def FillSourceLineInfo_def FindWindowsFrameInfo_def FindCFIFrameInfo_def HasModule_def IsModuleCorrupt_def
        resolver_ok_def fun_eq_iff)
next
  case (Some m)
  have "map_find (c_str n) (memory_buffers r) = block_of m" using assms(1) Some unfolding resolver_ok_def by simp
  then have loc: "\<And>p. block_of m = Some p \<Longrightarrow> map_find p (blocks (rs_heap r')) = map_find p (blocks (rs_heap r))"
    using assms(4) by simp
  have "c_str n \<in> set (corrupt_modules r') \<longleftrightarrow> c_str n \<in> set (corrupt_modules r)"
    using assms(1-3) unfolding resolver_ok_def by simp
  then show ?thesis
    using Some assms(3) lookup_local [OF loc] windows_local [OF loc] cfi_local [OF loc]
    by (simp add: answers_def FillSourceLineInfo_def FindWindowsFrameInfo_def FindCFIFrameInfo_def HasModule_def IsModuleCorrupt_def
        fun_eq_iff)
qed

text \<open>A module is added under a new name, with its block.\<close>

lemma ok_add:
  assumes r: "ok r" and new: "map_find (c_str n) (modules r) = None" and m: "good buf m"
    and free: "\<And>p. block_of m = Some p \<Longrightarrow> map_find p (blocks (rs_heap r)) = None"
    and maps: "heap_ok (rs_heap r')" "map_ok (modules r')" "map_ok (memory_buffers r')" "sorted_wrt (<) (corrupt_modules r')"
    and mods: "\<And>k. map_find k (modules r') = (if k = c_str n then Some m else map_find k (modules r))"
    and bufs: "\<And>k. map_find k (memory_buffers r') = (if k = c_str n then block_of m else map_find k (memory_buffers r))"
    and heap: "\<And>q. map_find q (blocks (rs_heap r')) = (if block_of m = Some q then Some buf else map_find q (blocks (rs_heap r)))"
    and corr: "\<And>k. k \<in> set (corrupt_modules r') \<longleftrightarrow> (if k = c_str n then IsCorrupt cls m else k \<in> set (corrupt_modules r))"
  shows "ok r'"
proof -
  note used = ok_blocks [OF r] and inj = ok_inj [OF r]
  have other: "block_of m = Some p \<Longrightarrow> map_find k (memory_buffers r) \<noteq> Some p" for k p using free used by blast
  have none: "map_find (c_str n) (memory_buffers r) = None" by (simp add: ok_buffers [OF r] new)
  have "c_str k = k \<and> (\<exists>buf. good buf m' \<and> (\<forall>p. block_of m' = Some p \<longrightarrow> map_find p (blocks (rs_heap r')) = Some buf))"
    if k: "map_find k (modules r') = Some m'" for k m'
  proof (cases "k = c_str n")
    case True
    then show ?thesis using k m mods heap by auto
  next
    case False
    then have k': "map_find k (modules r) = Some m'" using k mods by simp
    then have buf: "map_find k (memory_buffers r) = block_of m'" by (simp add: ok_buffers [OF r])
    obtain buf' where "c_str k = k" "good buf' m'" "\<And>p. block_of m' = Some p \<Longrightarrow> map_find p (blocks (rs_heap r)) = Some buf'"
      using ok_module [OF r k'] by metis
    then show ?thesis using heap other [of _ k] buf by auto
  qed
  moreover have "\<forall>k. k \<in> set (corrupt_modules r') \<longleftrightarrow> (\<exists>m. map_find k (modules r') = Some m \<and> IsCorrupt cls m)"
    by (auto simp: corr mods ok_corrupt [OF r])
  moreover have "\<forall>k. map_find k (memory_buffers r') = Option.bind (map_find k (modules r')) block_of"
    by (simp add: bufs mods ok_buffers [OF r])
  moreover have "\<forall>p. map_find p (blocks (rs_heap r')) \<noteq> None \<longleftrightarrow> (\<exists>k. map_find k (memory_buffers r') = Some p)"
  proof
    fix p show "map_find p (blocks (rs_heap r')) \<noteq> None \<longleftrightarrow> (\<exists>k. map_find k (memory_buffers r') = Some p)"
    proof (cases "block_of m = Some p")
      case False
      then have "(\<exists>k. map_find k (memory_buffers r') = Some p) \<longleftrightarrow> (\<exists>k. map_find k (memory_buffers r) = Some p)"
        using none bufs by (metis option.distinct(1))
      with False show ?thesis using used [of p] by (simp add: heap)
    qed (use bufs heap in auto)
  qed
  moreover have "\<forall>k k' p. map_find k (memory_buffers r') = Some p \<and> map_find k' (memory_buffers r') = Some p \<longrightarrow> k = k'"
    using inj other bufs by (metis (full_types))
  ultimately show ?thesis using maps unfolding resolver_ok_def by blast
qed

text \<open>A block that holds the data of a new module.\<close>

lemma Load_owned_ok:
  assumes r: "ok r" and new: "map_find (c_str n) (modules r) = None" and h: "heap_ok h" "map_find p (blocks (rs_heap r)) = None"
    and blocks: "\<And>q. map_find q (blocks h) = (if q = p then Some buf else map_find q (blocks (rs_heap r)))"
    and load: "Load_owned cls n p (r\<lparr>rs_heap := h\<rparr>) = ret (res, r')"
  obtains m where "res" "ok r'" "LoadMapFromMemory cls h (Some p) (CreateModule cls) = ret (True, m)"
    "modules r' = map_insert (c_str n) m (modules r)"
    "\<And>q. map_find q (blocks (rs_heap r')) = (if block_of m = Some q then Some buf else map_find q (blocks (rs_heap r)))"
proof -
  obtain b m where lm: "LoadMapFromMemory cls h (Some p) (CreateModule cls) = ret (b, m)"
    using load new by (auto simp: Load_owned_def LoadModuleUsingMemoryBuffer_def bindc_eq_ret Let_def)
  have p: "map_find p (blocks h) = Some buf" using blocks by simp
  from load_good [OF p lm] have m: "b" "good buf m" "block_of m = (if ShouldDeleteMemoryBufferAfterLoadModule cls then None else Some p)"
    by auto
  obtain h2 where del: "delete_block p h = ret h2" "heap_ok h2" "\<And>q. map_find q (blocks h2) = (if q = p then None else map_find q (blocks h))"
    using delete_block_spec [OF h(1) p] by (metis (full_types))
  define r1 where "r1 = r\<lparr>modules := map_insert (c_str n) m (modules r),
    corrupt_modules := (if IsCorrupt cls m then std_set_insert (c_str n) (corrupt_modules r) else corrupt_modules r)\<rparr>"
  have "res" and r': "r' = (if ShouldDeleteMemoryBufferAfterLoadModule cls then r1\<lparr>rs_heap := h2\<rparr>
      else r1\<lparr>rs_heap := h, memory_buffers := map_insert (c_str n) p (memory_buffers r)\<rparr>)"
    using load new m(1) del(1)
    by (auto simp: Load_owned_def LoadModuleUsingMemoryBuffer_def bindc_eq_ret Let_def lm r1_def split: if_splits)
  note mok = ok_maps(2-4) [OF r]
  have none: "map_find (c_str n) (memory_buffers r) = None" "c_str n \<notin> set (corrupt_modules r)"
    using new by (simp_all add: ok_buffers [OF r] ok_corrupt [OF r])
  have heap: "map_find q (blocks (rs_heap r')) = (if block_of m = Some q then Some buf else map_find q (blocks (rs_heap r)))" for q
    using h(2) by (simp add: r' m(3) del(3) blocks r1_def)
  have "ok r'"
  proof (rule ok_add [OF r new m(2)])
    show "\<And>p. block_of m = Some p \<Longrightarrow> map_find p (blocks (rs_heap r)) = None" using h(2) m(3) by (auto split: if_splits)
    show "heap_ok (rs_heap r')" "map_ok (modules r')" "map_ok (memory_buffers r')" "sorted_wrt (<) (corrupt_modules r')"
      using h(1) del(2) mok by (simp_all add: r' r1_def sorted_std_set_insert)
  qed (use mok none m(3) new heap in \<open>auto simp: r' r1_def map_find_insert\<close>)
  moreover have "modules r' = map_insert (c_str n) m (modules r)" by (simp add: r' r1_def)
  moreover have "LoadMapFromMemory cls h (Some p) (CreateModule cls) = ret (True, m)" using lm m(1) by simp
  ultimately show thesis using \<open>res\<close> heap that by blast
qed

text \<open>What a call that loads a module did: nothing, or the module is there and answers as it was loaded, and all others
  answer as before.\<close>

definition added :: "u8 list \<Rightarrow> u8 list \<Rightarrow> 'm Resolver \<Rightarrow> 'm Resolver \<Rightarrow> bool" where
  "added n buf r r' \<longleftrightarrow> (\<exists>m. good buf m \<and> map_find (c_str n) (modules r) = None \<and> modules r' = map_insert (c_str n) m (modules r) \<and>
     (\<forall>q. block_of m = Some q \<longrightarrow> map_find q (blocks (rs_heap r)) = None) \<and>
     (\<forall>q. map_find q (blocks (rs_heap r')) = (if block_of m = Some q then Some buf else map_find q (blocks (rs_heap r)))))"

lemma answers_others:
  assumes "ok r" "ok r'" "c_str n' \<noteq> c_str n" "modules r' = map_insert (c_str n) m (modules r)"
    and "\<And>q. map_find q (blocks (rs_heap r)) \<noteq> None \<Longrightarrow> map_find q (blocks (rs_heap r')) = map_find q (blocks (rs_heap r))"
  shows "answers cls r' (Some n') = answers cls r (Some n')"
proof (rule answers_same [OF assms(1,2)])
  show "map_find (c_str n') (modules r') = map_find (c_str n') (modules r)"
    using assms(1,3,4) by (simp add: map_find_insert resolver_ok_def)
  show "map_find p (blocks (rs_heap r')) = map_find p (blocks (rs_heap r))" if "map_find (c_str n') (memory_buffers r) = Some p" for p
    using assms(1,5) that unfolding resolver_ok_def by blast
qed

lemma Load_owned_others:
  assumes r: "ok r" and new: "map_find (c_str n) (modules r) = None" and h: "heap_ok h" "map_find p (blocks (rs_heap r)) = None"
    and blocks: "\<And>q. map_find q (blocks h) = (if q = p then Some buf else map_find q (blocks (rs_heap r)))"
    and load: "Load_owned cls n p (r\<lparr>rs_heap := h\<rparr>) = ret (res, r')"
  shows "res \<and> ok r' \<and> added n buf r r' \<and> (\<forall>n'. c_str n' \<noteq> c_str n \<longrightarrow> answers cls r' (Some n') = answers cls r (Some n'))"
proof -
  from Load_owned_ok [OF assms] obtain m where m: "res" "ok r'" "LoadMapFromMemory cls h (Some p) (CreateModule cls) = ret (True, m)"
    "modules r' = map_insert (c_str n) m (modules r)"
    "\<And>q. map_find q (blocks (rs_heap r')) = (if block_of m = Some q then Some buf else map_find q (blocks (rs_heap r)))"
    by metis
  have "map_find p (blocks h) = Some buf" using blocks by simp
  from load_good [OF this m(3)] h(2) have "good buf m" "\<And>q. block_of m = Some q \<Longrightarrow> map_find q (blocks (rs_heap r)) = None"
    by (auto split: if_splits)
  moreover from this m(5) have "map_find q (blocks (rs_heap r')) = map_find q (blocks (rs_heap r))"
    if "map_find q (blocks (rs_heap r)) \<noteq> None" for q using that by auto
  ultimately show ?thesis
    using m(1,2,4,5) new answers_others [OF r m(2) _ m(4)] by (simp add: added_def) blast
qed

lemma LoadModuleUsingMapBuffer_ok:
  assumes r: "ok r" and load: "LoadModuleUsingMapBuffer cls (Some n) buf r = ret (res, r')"
  shows "ok r' \<and> (if res then added n (buf @ [0]) r r' else r' = r) \<and>
    (\<forall>n'. c_str n' \<noteq> c_str n \<longrightarrow> answers cls r' (Some n') = answers cls r (Some n'))"
proof (cases "map_find (c_str n) (modules r) = None")
  case True
  note h = ok_maps(1) [OF r]
  obtain p h' where new: "new_block (buf @ [0]) (rs_heap r) = (p, h')" by (cases "new_block (buf @ [0]) (rs_heap r)")
  note n = new_block_spec [OF h new]
  have "Load_owned cls n p (r\<lparr>rs_heap := h'\<rparr>) = ret (res, r')" using load True new by (simp add: LoadModuleUsingMapBuffer_def)
  from Load_owned_others [OF r True n(1,3,4) this] show ?thesis by simp
next
  case False
  then show ?thesis using load r by (auto simp: LoadModuleUsingMapBuffer_def)
qed

lemma ok_heap:
  assumes "ok r" "heap_ok h" "\<And>q. map_find q (blocks h) = map_find q (blocks (rs_heap r))"
  shows "ok (r\<lparr>rs_heap := h\<rparr>)"
  using assms unfolding resolver_ok_def by simp

lemma LoadModule_ok:
  assumes r: "ok r" and load: "LoadModule cls fill (Some n) map_file r = ret (res, r')"
  shows "ok r' \<and> (if res then \<exists>buf. added n buf r r' else modules r' = modules r) \<and>
    (\<forall>n'. c_str n' \<noteq> c_str n \<longrightarrow> answers cls r' (Some n') = answers cls r (Some n'))"
proof (cases "map_find (c_str n) (modules r) = None")
  case True
  note h = ok_maps(1) [OF r]
  show ?thesis
  proof (cases rule: ReadSymbolFile_spec [OF h, where fill = fill and map_file = map_file, case_names fails reads])
    case (fails h')
    then have r': "r' = r\<lparr>rs_heap := h'\<rparr>" "\<not> res" using load True by (auto simp: LoadModule_def)
    have "ok r'" unfolding r' by (rule ok_heap [OF r fails(2,3)])
    then show ?thesis using answers_same [OF r \<open>ok r'\<close>] fails(3) by (simp add: r')
  next
    case (reads p h' buf)
    then have "Load_owned cls n p (r\<lparr>rs_heap := h'\<rparr>) = ret (res, r')" using load True by (simp add: LoadModule_def)
    from Load_owned_others [OF r True reads(2-4) this] show ?thesis by auto
  qed
next
  case False
  then show ?thesis using load r by (auto simp: LoadModule_def)
qed

lemma UnloadModule_ok:
  assumes r: "ok r"
  obtains r' where "UnloadModule cls (Some n) r = ret r'" "ok r'" "modules r' = map_erase (c_str n) (modules r)"
    "\<And>q. map_find q (blocks (rs_heap r')) =
       (if map_find (c_str n) (memory_buffers r) = Some q then None else map_find q (blocks (rs_heap r)))"
    "\<And>n'. c_str n' \<noteq> c_str n \<Longrightarrow> answers cls r' (Some n') = answers cls r (Some n')"
proof -
  let ?k = "c_str n"
  note mok = ok_maps [OF r] and bufs = ok_buffers [OF r] and used = ok_blocks [OF r] and inj = ok_inj [OF r] and corr = ok_corrupt [OF r]
  define h where "h = (case map_find ?k (memory_buffers r) of None \<Rightarrow> rs_heap r
    | Some p \<Rightarrow> rs_heap r\<lparr>blocks := map_erase p (blocks (rs_heap r))\<rparr>)"
  define r' where "r' = r\<lparr>corrupt_modules := std_set_erase ?k (corrupt_modules r), modules := map_erase ?k (modules r),
    memory_buffers := map_erase ?k (memory_buffers r), rs_heap := h\<rparr>"
  have h: "heap_ok h" and hf: "\<And>q. map_find q (blocks h) = (if map_find ?k (memory_buffers r) = Some q then None else map_find q (blocks (rs_heap r)))"
    using mok(1) by (auto simp: h_def heap_ok_def map_find_erase split: option.split)
  have live: "delete_block p (rs_heap r) = ret h" if "map_find ?k (memory_buffers r) = Some p" for p
    using used [of p] that by (auto simp: delete_block_def h_def)
  have unload: "UnloadModule cls (Some n) r = ret r'"
  proof (cases "map_find ?k (modules r)")
    case None
    then have "map_find ?k (memory_buffers r) = None" "?k \<notin> set (corrupt_modules r)" using bufs corr by auto
    then show ?thesis using None
      by (simp add: UnloadModule_def r'_def h_def map_erase_absent std_set_erase_absent Let_def)
  next
    case (Some m)
    show ?thesis
    proof (cases "block_of m")
      case None
      then have "map_find ?k (memory_buffers r) = None" using Some bufs by simp
      then show ?thesis using Some by (simp add: UnloadModule_def r'_def h_def map_erase_absent Let_def)
    next
      case (Some p)
      then have b: "map_find ?k (memory_buffers r) = Some p" using \<open>map_find ?k (modules r) = Some m\<close> bufs by simp
      then show ?thesis
        using \<open>map_find ?k (modules r) = Some m\<close> live [OF b] no_block [of m] Some by (auto simp: UnloadModule_def r'_def Let_def)
    qed
  qed
  have keep: "map_find p (blocks h) = map_find p (blocks (rs_heap r))" if "map_find k (memory_buffers r) = Some p" "k \<noteq> ?k" for k p
    using inj [OF that(1)] that(2) hf by auto
  have "ok r'"
    unfolding resolver_ok_def
  proof (intro conjI allI impI)
    show "heap_ok (rs_heap r')" "map_ok (modules r')" "map_ok (memory_buffers r')" "sorted_wrt (<) (corrupt_modules r')"
      using h mok by (simp_all add: r'_def sorted_std_set_erase)
    fix k m assume k: "map_find k (modules r') = Some m"
    then have k': "map_find k (modules r) = Some m" "k \<noteq> ?k" by (auto simp: r'_def map_find_erase split: if_splits)
    obtain buf where buf: "c_str k = k" "good buf m" "\<And>p. block_of m = Some p \<Longrightarrow> map_find p (blocks (rs_heap r)) = Some buf"
      using ok_module [OF r k'(1)] by metis
    from buf(1) show "c_str k = k" .
    have "map_find p (blocks (rs_heap r')) = Some buf" if "block_of m = Some p" for p
      using keep [of k p] bufs [of k] k' buf(3) that by (simp add: r'_def)
    with buf(2) show "\<exists>buf. good buf m \<and> (\<forall>p. block_of m = Some p \<longrightarrow> map_find p (blocks (rs_heap r')) = Some buf)" by blast
  next
    fix k show "map_find k (memory_buffers r') = Option.bind (map_find k (modules r')) block_of"
      by (simp add: r'_def map_find_erase bufs)
    show "k \<in> set (corrupt_modules r') \<longleftrightarrow> (\<exists>m. map_find k (modules r') = Some m \<and> IsCorrupt cls m)"
      using corr by (simp add: r'_def map_find_erase)
  next
    fix p show "map_find p (blocks (rs_heap r')) \<noteq> None \<longleftrightarrow> (\<exists>k. map_find k (memory_buffers r') = Some p)"
    proof (cases "map_find ?k (memory_buffers r) = Some p")
      case True
      then show ?thesis using inj by (auto simp: r'_def map_find_erase hf)
    next
      case False
      then have "(\<exists>k. map_find k (memory_buffers r') = Some p) \<longleftrightarrow> (\<exists>k. map_find k (memory_buffers r) = Some p)"
        unfolding r'_def by (simp add: map_find_erase) metis
      with False show ?thesis using used [of p] by (simp add: r'_def hf)
    qed
  next
    fix k k' p assume "map_find k (memory_buffers r') = Some p \<and> map_find k' (memory_buffers r') = Some p"
    then show "k = k'" using inj by (auto simp: r'_def map_find_erase split: if_splits)
  qed
  moreover have "answers cls r' (Some n') = answers cls r (Some n')" if "c_str n' \<noteq> ?k" for n'
    using answers_same [OF r \<open>ok r'\<close>] keep that by (simp add: r'_def map_find_erase)
  ultimately show thesis using unload that [of r'] hf by (simp add: r'_def)
qed

text \<open>Unloading a module undoes loading it.\<close>

lemma load_unload:
  assumes r: "ok r" and load: "LoadModuleUsingMapBuffer cls (Some n) buf r = ret (True, r')"
  obtains r'' where "UnloadModule cls (Some n) r' = ret r''" "modules r'' = modules r" "corrupt_modules r'' = corrupt_modules r"
    "memory_buffers r'' = memory_buffers r" "blocks (rs_heap r'') = blocks (rs_heap r)"
proof -
  from LoadModuleUsingMapBuffer_ok [OF r load] have r': "ok r'" "added n (buf @ [0]) r r'" by auto
  then obtain m where m: "map_find (c_str n) (modules r) = None" "modules r' = map_insert (c_str n) m (modules r)"
      "\<And>q. block_of m = Some q \<Longrightarrow> map_find q (blocks (rs_heap r)) = None"
      "\<And>q. map_find q (blocks (rs_heap r')) = (if block_of m = Some q then Some (buf @ [0]) else map_find q (blocks (rs_heap r)))"
    unfolding added_def by metis
  obtain r'' where un: "UnloadModule cls (Some n) r' = ret r''" "ok r''" "modules r'' = map_erase (c_str n) (modules r')"
    "\<And>q. map_find q (blocks (rs_heap r'')) =
       (if map_find (c_str n) (memory_buffers r') = Some q then None else map_find q (blocks (rs_heap r')))"
    using UnloadModule_ok [OF r'(1), of n] by metis
  have mods: "modules r'' = modules r" using un(3) m(1,2) by (simp add: map_erase_insert)
  have "set (corrupt_modules r'') = set (corrupt_modules r)" using ok_corrupt [OF r] ok_corrupt [OF un(2)] mods by auto
  then have "corrupt_modules r'' = corrupt_modules r" by (intro strict_sorted_equal ok_maps r un(2))
  moreover have "memory_buffers r'' = memory_buffers r"
    using ok_buffers [OF r] ok_buffers [OF un(2)] mods by (intro map_ok_eqI ok_maps r un(2)) simp
  moreover have buf: "map_find (c_str n) (memory_buffers r') = block_of m"
    using m(2) by (simp add: ok_buffers [OF r'(1)] map_find_insert [OF ok_maps(2) [OF r]] m(1))
  have "blocks (rs_heap r'') = blocks (rs_heap r)"
  proof (rule map_ok_eqI)
    show "map_ok (blocks (rs_heap r''))" "map_ok (blocks (rs_heap r))"
      using ok_maps(1) [OF r] ok_maps(1) [OF un(2)] by (simp_all add: heap_ok_def)
    show "map_find q (blocks (rs_heap r'')) = map_find q (blocks (rs_heap r))" for q
      using m(3) [of q] unfolding un(4) buf m(4) by simp
  qed
  ultimately show thesis using that un(1) mods by blast
qed

lemma delete_buffers_all:
  assumes "heap_ok h" "distinct (map snd bs)" "\<And>p. map_find p (blocks h) \<noteq> None \<longleftrightarrow> p \<in> snd ` set bs"
  shows "\<exists>h'. delete_buffers bs h = ret h' \<and> blocks h' = []"
  using assms
proof (induction bs arbitrary: h)
  case Nil
  then have none: "map_find p (blocks h) = None" for p by simp
  have "blocks h = []"
  proof (cases "blocks h")
    case (Cons e es)
    then show ?thesis using none [of "fst e"] by (cases e) (simp add: map_find_def)
  qed
  then show ?case by simp
next
  case (Cons b bs)
  obtain k p where b: "b = (k, p)" by (cases b)
  then obtain buf where "map_find p (blocks h) = Some buf" using Cons(4) [of p] by auto
  then obtain h' where h': "delete_block p h = ret h'" "heap_ok h'" "\<And>q. map_find q (blocks h') = (if q = p then None else map_find q (blocks h))"
    using delete_block_spec [OF Cons(2)] by (metis (full_types))
  have "map_find q (blocks h') \<noteq> None \<longleftrightarrow> q \<in> snd ` set bs" for q
    using Cons(3) Cons(4) [of q] b by (auto simp: h'(3))
  from Cons.IH [OF h'(2) _ this] Cons(3) show ?case by (simp add: b h'(1))
qed

lemma Resolver_delete_ok:
  assumes "ok r"
  shows "\<exists>h. Resolver_delete r = ret h \<and> blocks h = []"
proof -
  note h = ok_maps(1) [OF assms] and mok = ok_maps(3) [OF assms] and used = ok_blocks [OF assms]
  have "distinct (memory_buffers r)" using mok by (simp add: map_ok_def strict_sorted_iff distinct_map)
  moreover have "inj_on snd (set (memory_buffers r))" using ok_inj [OF assms] by (auto simp: inj_on_def map_find_mem [OF mok])
  ultimately have "distinct (map snd (memory_buffers r))" by (simp add: distinct_map)
  moreover have "map_find p (blocks (rs_heap r)) \<noteq> None \<longleftrightarrow> p \<in> snd ` set (memory_buffers r)" for p
    unfolding used map_find_mem [OF mok] by force
  ultimately show ?thesis unfolding Resolver_delete_def using delete_buffers_all [OF h] by blast
qed

end

section \<open>The two classes\<close>

interpretation basic: module_class BasicSourceLineResolver "\<lambda>_. None"
    "\<lambda>buf m. Basic_LoadMapFromMemory (chars buf) = ret (True, m)"
  by unfold_locales
    (auto simp: BasicSourceLineResolver_def buffer_at_def Basic_LoadMapFromMemory_def bindc_eq_ret Let_def split: if_splits)

interpretation fast: module_class FastSourceLineResolver fst
    "\<lambda>buf m. fst m \<noteq> None \<and> Fast_LoadMapFromMemory (Some buf) FastModule_new = ret (True, snd m)"
proof unfold_locales
  fix p h buf ok m
  assume "map_find p (blocks h) = Some buf"
    "LoadMapFromMemory FastSourceLineResolver h (Some p) (CreateModule FastSourceLineResolver) = ret (ok, m)"
  then have "fst m = Some p" "Fast_LoadMapFromMemory (Some buf) FastModule_new = ret (ok, snd m)"
    by (auto simp: FastSourceLineResolver_def Fast_load_def buffer_at_def bindc_eq_ret)
  moreover from this(2) have "ok" by (auto simp: Fast_LoadMapFromMemory_def bindc_eq_ret Let_def)
  ultimately show "ok \<and> (fst m \<noteq> None \<and> Fast_LoadMapFromMemory (Some buf) FastModule_new = ret (True, snd m)) \<and>
      fst m = (if ShouldDeleteMemoryBufferAfterLoadModule FastSourceLineResolver then None else Some p)"
    by (simp add: FastSourceLineResolver_def)
qed (auto simp: FastSourceLineResolver_def buffer_at_def fun_eq_iff split: option.splits)

section \<open>Runs of a resolver\<close>

text \<open>The calls of a client, in any order.\<close>

inductive resolver_run :: "'m ModuleClass \<Rightarrow> 'm Resolver \<Rightarrow> bool" for cls where
  start: "resolver_run cls Resolver_new"
| load: "resolver_run cls r \<Longrightarrow> LoadModule cls fill module map_file r = ret (res, r') \<Longrightarrow> resolver_run cls r'"
| load_map: "resolver_run cls r \<Longrightarrow> LoadModuleUsingMapBuffer cls module map_buffer r = ret (res, r') \<Longrightarrow> resolver_run cls r'"
| unload: "resolver_run cls r \<Longrightarrow> UnloadModule cls module r = ret r' \<Longrightarrow> resolver_run cls r'"

lemma null_module [simp]:
  "LoadModule cls fill None map_file r = ret (False, r)" "LoadModuleUsingMapBuffer cls None map_buffer r = ret (False, r)"
  "UnloadModule cls None r = ret r"
  by (simp_all add: LoadModule_def LoadModuleUsingMapBuffer_def UnloadModule_def)

context module_class
begin

lemma run_ok: "resolver_run cls r \<Longrightarrow> ok r"
proof (induction rule: resolver_run.induct)
  case start
  show ?case by (rule resolver_ok_new)
next
  case (load r fill n map_file res r')
  then show ?case using LoadModule_ok [of r fill _ map_file res r'] by (cases n) auto
next
  case (load_map r n buf res r')
  then show ?case using LoadModuleUsingMapBuffer_ok [of r _ buf res r'] by (cases n) auto
next
  case (unload r n r')
  then show ?case using UnloadModule_ok [of r] by (cases n) (simp, metis ret_inject)
qed

end

text \<open>The modules of a basic resolver are well formed.\<close>

lemma basic_run_modules:
  assumes "resolver_run BasicSourceLineResolver r" "map_find k (modules r) = Some m"
  shows "module_ok m"
  using basic.ok_module [OF basic.run_ok [OF assms(1)] assms(2)] Load_module_ok by metis

section \<open>Conversion keeps the answers\<close>

lemma convert_new:
  assumes f: "fast.ok f" and new: "map_find k (modules f) = None" and k: "c_str k = k"
    and bm: "module_ok bm" "Module_SizeOf bm + 1 < 2 ^ 32"
  obtains f' p where "SerializeModuleAndLoadIntoFastResolver fill (k, bm) f = ret (True, f')" "fast.ok f'"
    "modules f' = map_insert k (Some p, fast_view bm [0]) (modules f)" "map_find p (blocks (rs_heap f')) = Some (loaded bm [0])"
    "\<And>n. c_str n \<noteq> k \<Longrightarrow> answers FastSourceLineResolver f' (Some n) = answers FastSourceLineResolver f (Some n)"
proof -
  let ?cls = FastSourceLineResolver
  have ser: "Module_Serialize fill bm = ret (module_bytes bm, Module_SizeOf bm)" using Module_Serialize_bytes [OF bm(1)] bm(2) by simp
  have fl: "Fast_LoadMapFromMemory (Some (loaded bm [0])) FastModule_new = ret (True, fast_view bm [0])"
    using Fast_LoadMapFromMemory_written [OF bm(1), of "[0]"] bm(2) by simp
  obtain p h where nb: "new_block (module_bytes bm @ [0]) (rs_heap f) = (p, h)" by (cases "new_block (module_bytes bm @ [0]) (rs_heap f)")
  note n = new_block_spec [OF fast.ok_maps(1) [OF f] nb]
  have lm: "LoadMapFromMemory ?cls h (Some p) (CreateModule ?cls) = ret (True, (Some p, fast_view bm [0]))"
    using fl by (simp add: FastSourceLineResolver_def Fast_load_def buffer_at_def n(4) loaded_def)
  have cls: "\<not> ShouldDeleteMemoryBufferAfterLoadModule ?cls" by (simp add: FastSourceLineResolver_def)
  obtain f' where lo: "Load_owned ?cls k p (f\<lparr>rs_heap := h\<rparr>) = ret (True, f')"
    using lm new k cls by (simp add: Load_owned_def LoadModuleUsingMemoryBuffer_def Let_def)
  have conv: "SerializeModuleAndLoadIntoFastResolver fill (k, bm) f = ret (True, f')"
    using ser nb lo new k
    by (simp add: SerializeModuleAndLoadIntoFastResolver_def LoadModuleUsingMapBuffer_def length_module_bytes [OF bm(1), symmetric])
  have new': "map_find (c_str k) (modules f) = None" using new k by simp
  obtain m where "True" and m: "fast.ok f'"
    "LoadMapFromMemory ?cls h (Some p) (CreateModule ?cls) = ret (True, m)" "modules f' = map_insert (c_str k) m (modules f)"
    "\<And>q. map_find q (blocks (rs_heap f')) = (if fst m = Some q then Some (module_bytes bm @ [0]) else map_find q (blocks (rs_heap f)))"
    by (rule fast.Load_owned_ok [OF f new' n(1,3,4) lo]) (rule that)
  have "m = (Some p, fast_view bm [0])" using m(2) lm by simp
  moreover have "c_str n \<noteq> k \<Longrightarrow> answers ?cls f' (Some n) = answers ?cls f (Some n)" for n
    using fast.Load_owned_others [OF f new' n(1,3,4) lo] k by simp
  ultimately show thesis using that [of f' p] conv m k by (simp add: loaded_def)
qed

text \<open>A module of the fast resolver answers as the module it was made from.\<close>

lemma converted_answers:
  assumes f: "fast.ok f" and b: "basic.ok b" and bm: "module_ok bm" "Module_SizeOf bm + 1 < 2 ^ 32"
    and mf: "map_find (c_str n) (modules f) = Some (Some p, fast_view bm [0])" "map_find p (blocks (rs_heap f)) = Some (loaded bm [0])"
    and mb: "map_find (c_str n) (modules b) = Some bm"
  shows "answers FastSourceLineResolver f (Some n) = answers BasicSourceLineResolver b (Some n)"
proof -
  have small: "Module_SizeOf bm + length [0] < 2 ^ 32" using bm(2) by simp
  have "c_str n \<in> set (corrupt_modules f) \<longleftrightarrow> c_str n \<in> set (corrupt_modules b)"
    by (simp add: fast.ok_corrupt [OF f] basic.ok_corrupt [OF b] mf(1) mb FastSourceLineResolver_def BasicSourceLineResolver_def
        fast_view_def Let_def)
  then show ?thesis
    using mf mb Fast_LookupAddress_view [OF bm(1) small] Fast_FindWindowsFrameInfo_view [OF bm(1) small] Fast_FindCFIFrameInfo_view [OF bm(1) small]
    by (simp add: answers_def FillSourceLineInfo_def FindWindowsFrameInfo_def FindCFIFrameInfo_def HasModule_def IsModuleCorrupt_def
        FastSourceLineResolver_def BasicSourceLineResolver_def buffer_at_def fun_eq_iff)
qed

lemma answers_absent:
  "map_find (c_str n) (modules r) = None \<Longrightarrow> c_str n \<notin> set (corrupt_modules r) \<Longrightarrow>
     answers cls r (Some n) = (\<lambda>frame. ret frame, \<lambda>_. ret None, \<lambda>_. ret None, False, False)"
  by (simp add: answers_def FillSourceLineInfo_def FindWindowsFrameInfo_def FindCFIFrameInfo_def HasModule_def IsModuleCorrupt_def fun_eq_iff)

lemma convert_run:
  assumes "resolver_run FastSourceLineResolver f" "SerializeModuleAndLoadIntoFastResolver fill iter f = ret (res, f')"
  shows "resolver_run FastSourceLineResolver f'"
  using assms(2) load_map [OF assms(1)] by (auto simp: SerializeModuleAndLoadIntoFastResolver_def bindc_eq_ret)

lemma Convert_loop_same:
  assumes b: "basic.ok b" and f: "resolver_run FastSourceLineResolver f"
    and ms: "\<And>k bm. (k, bm) \<in> set ms \<Longrightarrow> map_find k (modules b) = Some bm \<and> module_ok bm \<and> Module_SizeOf bm + 1 < 2 ^ 32"
  shows "\<exists>f'. Convert_loop fill ms f = ret f' \<and> resolver_run FastSourceLineResolver f' \<and>
    (\<forall>n. answers FastSourceLineResolver f' (Some n) =
       (if map_find (c_str n) (modules f) = None \<and> c_str n \<in> fst ` set ms then answers BasicSourceLineResolver b (Some n)
        else answers FastSourceLineResolver f (Some n)))"
  using f ms
proof (induction ms arbitrary: f)
  case (Cons e ms)
  obtain k bm where e: "e = (k, bm)" by (cases e)
  have bm: "map_find k (modules b) = Some bm" "module_ok bm" "Module_SizeOf bm + 1 < 2 ^ 32" using Cons.prems(2) e by auto
  have k: "c_str k = k" using basic.ok_module [OF b bm(1)] by metis
  note f = fast.run_ok [OF Cons.prems(1)]
  show ?case
  proof (cases "map_find k (modules f) = None")
    case True
    obtain f1 p where
      f1: "SerializeModuleAndLoadIntoFastResolver fill (k, bm) f = ret (True, f1)" "fast.ok f1"
        "modules f1 = map_insert k (Some p, fast_view bm [0]) (modules f)" "map_find p (blocks (rs_heap f1)) = Some (loaded bm [0])"
        "\<And>n. c_str n \<noteq> k \<Longrightarrow> answers FastSourceLineResolver f1 (Some n) = answers FastSourceLineResolver f (Some n)"
      by (rule convert_new [OF f True k bm(2,3), where fill = fill]) (rule that)
    have find: "map_find k' (modules f1) = (if k' = k then Some (Some p, fast_view bm [0]) else map_find k' (modules f))" for k'
      using fast.ok_maps(2) [OF f] True by (simp add: f1(3) map_find_insert)
    have here: "answers FastSourceLineResolver f1 (Some n) = answers BasicSourceLineResolver b (Some n)" if "c_str n = k" for n
      using converted_answers [OF f1(2) b bm(2,3)] find f1(4) bm(1) that by simp
    from Cons.IH [OF convert_run [OF Cons.prems(1) f1(1)]] Cons.prems(2) obtain f' where
      f': "Convert_loop fill ms f1 = ret f'" "resolver_run FastSourceLineResolver f'"
        "\<And>n. answers FastSourceLineResolver f' (Some n) =
          (if map_find (c_str n) (modules f1) = None \<and> c_str n \<in> fst ` set ms then answers BasicSourceLineResolver b (Some n)
           else answers FastSourceLineResolver f1 (Some n))" by (metis list.set_intros(2))
    have "answers FastSourceLineResolver f' (Some n) =
       (if map_find (c_str n) (modules f) = None \<and> c_str n \<in> fst ` set (e # ms) then answers BasicSourceLineResolver b (Some n)
        else answers FastSourceLineResolver f (Some n))" for n
      using f'(3) [of n] here [of n] f1(5) [of n] find [of "c_str n"] True by (cases "c_str n = k") (simp_all add: e)
    then show ?thesis using f' f1(1) by (simp add: e)
  next
    case False
    have "Module_Serialize fill bm = ret (module_bytes bm, Module_SizeOf bm)" using Module_Serialize_bytes [OF bm(2)] bm(3) by simp
    then have "SerializeModuleAndLoadIntoFastResolver fill (k, bm) f = ret (False, f)"
      using False k by (simp add: SerializeModuleAndLoadIntoFastResolver_def LoadModuleUsingMapBuffer_def)
    moreover from Cons.IH [OF Cons.prems(1)] Cons.prems(2) obtain f' where
      f': "Convert_loop fill ms f = ret f'" "resolver_run FastSourceLineResolver f'"
        "\<And>n. answers FastSourceLineResolver f' (Some n) =
          (if map_find (c_str n) (modules f) = None \<and> c_str n \<in> fst ` set ms then answers BasicSourceLineResolver b (Some n)
           else answers FastSourceLineResolver f (Some n))" by (metis list.set_intros(2))
    moreover have "c_str n \<in> fst ` set (e # ms) \<and> map_find (c_str n) (modules f) = None \<longleftrightarrow>
        c_str n \<in> fst ` set ms \<and> map_find (c_str n) (modules f) = None" for n
      using False by (auto simp: e)
    ultimately show ?thesis by (auto simp: e)
  qed
qed simp

text \<open>One module.\<close>

lemma ConvertOneModule_same:
  assumes b: "resolver_run BasicSourceLineResolver b" and f: "resolver_run FastSourceLineResolver f"
    and bm: "map_find (c_str n) (modules b) = Some bm" "Module_SizeOf bm + 1 < 2 ^ 32" and new: "\<not> HasModule (Some n) f"
  shows "\<exists>f'. ConvertOneModule fill n (Some b) (Some f) = ret (True, Some f') \<and>
    (\<forall>n'. answers FastSourceLineResolver f' (Some n') =
       (if c_str n' = c_str n then answers BasicSourceLineResolver b (Some n') else answers FastSourceLineResolver f (Some n')))"
proof -
  note okb = basic.run_ok [OF b] and okf = fast.run_ok [OF f]
  note mok = basic_run_modules [OF b bm(1)]
  have none: "map_find (c_str n) (modules f) = None"
    using new by (cases "map_find (c_str n) (modules f)") (simp_all add: HasModule_def)
  obtain f' p where f': "SerializeModuleAndLoadIntoFastResolver fill (c_str n, bm) f = ret (True, f')" "fast.ok f'"
      "modules f' = map_insert (c_str n) (Some p, fast_view bm [0]) (modules f)" "map_find p (blocks (rs_heap f')) = Some (loaded bm [0])"
      "\<And>n'. c_str n' \<noteq> c_str n \<Longrightarrow> answers FastSourceLineResolver f' (Some n') = answers FastSourceLineResolver f (Some n')"
    by (rule convert_new [OF okf none c_str_c_str mok bm(2), where fill = fill]) (rule that)
  have "map_find (c_str n) (modules f') = Some (Some p, fast_view bm [0])"
    using fast.ok_maps(2) [OF okf] none by (simp add: f'(3) map_find_insert)
  then have "answers FastSourceLineResolver f' (Some n') = answers BasicSourceLineResolver b (Some n')" if "c_str n' = c_str n" for n'
    using converted_answers [OF f'(2) okb mok bm(2) _ f'(4), of n'] bm(1) that by simp
  then show ?thesis using f'(1,5) bm(1) by (simp add: ConvertOneModule_def)
qed

text \<open>A basic resolver keeps no buffers.\<close>

lemma basic_no_buffers:
  assumes "resolver_run BasicSourceLineResolver b"
  shows "memory_buffers b = []" "blocks (rs_heap b) = []"
proof -
  note ok = basic.run_ok [OF assms]
  have none: "map_find k (memory_buffers b) = None" for k
    using basic.ok_buffers [OF ok, of k] by (cases "map_find k (modules b)") simp_all
  then have "map_find p (blocks (rs_heap b)) = None" for p using basic.ok_blocks [OF ok, of p] by simp
  with none show "memory_buffers b = []" "blocks (rs_heap b) = []"
    using basic.ok_maps(1,3) [OF ok] by (auto intro!: map_ok_eqI simp: heap_ok_def map_find_def)
qed

text \<open>A null buffer is not loaded by a fast module, which does not mark itself corrupt; the assertion fails.\<close>

lemma null_buffer_asserts:
  "LoadModuleUsingMemoryBuffer FastSourceLineResolver (Some [97]) None Resolver_new = fail AssertFailed"
  by code_simp

section \<open>Properties\<close>

text \<open>C1: All modules that a basic resolver has loaded, from whatever files, are converted when each fits into a block.  The
  fast resolver then gives the same answers to all queries as the basic one; a module it had loaded before
  under the same name is kept with its answers.\<close>

theorem ConvertAllModules_same:
  assumes b: "resolver_run BasicSourceLineResolver b" and f: "resolver_run FastSourceLineResolver f"
    and small: "\<forall>(k, bm) \<in> set (modules b). Module_SizeOf bm + 1 < 2 ^ 32"
  shows "\<exists>f'. ConvertAllModules fill (Some b) (Some f) = ret (Some f') \<and> resolver_run FastSourceLineResolver f' \<and>
    (\<forall>n. answers FastSourceLineResolver f' (Some n) =
       (if HasModule (Some n) f then answers FastSourceLineResolver f (Some n) else answers BasicSourceLineResolver b (Some n)))"
proof -
  note okb = basic.run_ok [OF b] and okf = fast.run_ok [OF f]
  have "map_find k (modules b) = Some bm \<and> module_ok bm \<and> Module_SizeOf bm + 1 < 2 ^ 32" if "(k, bm) \<in> set (modules b)" for k bm
    using that basic_run_modules [OF b] small map_find_mem [OF basic.ok_maps(2) [OF okb]] by fastforce
  from Convert_loop_same [OF okb f this] obtain f' where
    f': "Convert_loop fill (modules b) f = ret f'" "resolver_run FastSourceLineResolver f'"
      "\<And>n. answers FastSourceLineResolver f' (Some n) =
       (if map_find (c_str n) (modules f) = None \<and> c_str n \<in> fst ` set (modules b) then answers BasicSourceLineResolver b (Some n)
        else answers FastSourceLineResolver f (Some n))" by metis
  have "answers FastSourceLineResolver f (Some n) = answers BasicSourceLineResolver b (Some n)"
    if "map_find (c_str n) (modules f) = None" "map_find (c_str n) (modules b) = None" for n
    using answers_absent [OF that(1)] answers_absent [OF that(2)] that by (simp add: fast.ok_corrupt [OF okf] basic.ok_corrupt [OF okb])
  moreover have "c_str n \<in> fst ` set (modules b) \<longleftrightarrow> map_find (c_str n) (modules b) \<noteq> None" for n
    by (simp add: map_find_def map_of_eq_None_iff)
  ultimately have "answers FastSourceLineResolver f' (Some n) =
       (if HasModule (Some n) f then answers FastSourceLineResolver f (Some n) else answers BasicSourceLineResolver b (Some n))" for n
    using f'(3) [of n] by (cases "map_find (c_str n) (modules f) = None") (simp_all add: HasModule_def)
  then show ?thesis using f'(1,2) by (simp add: ConvertAllModules_def)
qed

text \<open>A resolver that has loaded the small symbol file.\<close>

definition small_basic :: "BasicModule Resolver" where
  "small_basic = \<lparr>modules = [([97], small_module)], corrupt_modules = [], memory_buffers = [], rs_heap = \<lparr>blocks = [], fresh = 1\<rparr>\<rparr>"

lemma chars_bytes_of [simp]: "chars (bytes_of s) = s"
proof -
  have "char_of (unat (of_nat (of_char c) :: u8)) = c" for c
  proof -
    have "(of_char c :: nat) < 256" by (rule nat_of_char_less_256)
    then have "unat (of_nat (of_char c) :: u8) = of_char c" unfolding unat_of_nat by simp
    then show ?thesis by simp
  qed
  then show ?thesis by (simp add: chars_def bytes_of_def o_def)
qed

lemma small_basic_loaded:
  "LoadModuleUsingMapBuffer BasicSourceLineResolver (Some [97]) (bytes_of small_file) Resolver_new = ret (True, small_basic)"
proof -
  have "chars (bytes_of small_file @ [0]) = small_file @ [CHR 0x00]"
    using chars_bytes_of [of small_file] by (simp add: chars_def char_of_def)
  then show ?thesis
    using small_file_loaded
    by (simp add: LoadModuleUsingMapBuffer_def Load_owned_def LoadModuleUsingMemoryBuffer_def BasicSourceLineResolver_def buffer_at_def
        new_block_def delete_block_def Resolver_new_def map_find_def map_erase_def c_str_def small_basic_def small_module_def Let_def)
qed

theorem ConvertAllModules_same_witness:
  "\<exists>f'. ConvertAllModules (\<lambda>_. 0xCC) (Some small_basic) (Some Resolver_new) = ret (Some f') \<and> HasModule (Some [97]) f' \<and>
     FillSourceLineInfo FastSourceLineResolver f' (Some [97, 0, 98]) (frame_in 0x40001004) =
       ret (frame_in 0x40001004 \<lparr>sf_function_name := [109], sf_function_base := 0x40001000,
         sf_source_file_name := [97, 46, 99], sf_source_line := 42, sf_source_line_base := 0x40001000\<rparr>)"
proof -
  have b: "resolver_run BasicSourceLineResolver small_basic" by (rule load_map [OF start small_basic_loaded])
  have small: "\<forall>(k, bm) \<in> set (modules small_basic). Module_SizeOf bm + 1 < 2 ^ 32"
    using small_module_fits by (simp add: small_basic_def)
  from ConvertAllModules_same [OF b start small, of "\<lambda>_. 0xCC"] obtain f' where
    f': "ConvertAllModules (\<lambda>_. 0xCC) (Some small_basic) (Some Resolver_new) = ret (Some f')"
      "\<And>n. answers FastSourceLineResolver f' (Some n) = answers BasicSourceLineResolver small_basic (Some n)"
    by (auto simp: HasModule_def Resolver_new_def map_find_def)
  have "Basic_LookupAddress small_module (frame_in 0x40001004) =
      ret (frame_in 0x40001004 \<lparr>sf_function_name := [109], sf_function_base := 0x40001000,
         sf_source_file_name := [97, 46, 99], sf_source_line := 42, sf_source_line_base := 0x40001000\<rparr>)"
    by (simp add: Basic_LookupAddress_def small_module_def sf_address_def frame_in_def RangeMap_RetrieveNearestRange_def
      RangeMap_RetrieveRange_def lower_bound_def range_out_def in_range_def Basic_line_def map_find_def Let_def)
  then have "FillSourceLineInfo BasicSourceLineResolver small_basic (Some [97, 0, 98]) (frame_in 0x40001004) =
      ret (frame_in 0x40001004 \<lparr>sf_function_name := [109], sf_function_base := 0x40001000,
         sf_source_file_name := [97, 46, 99], sf_source_line := 42, sf_source_line_base := 0x40001000\<rparr>)"
    by (simp add: FillSourceLineInfo_def small_basic_def c_str_def map_find_def BasicSourceLineResolver_def)
  moreover have "HasModule (Some [97]) small_basic" by (simp add: HasModule_def small_basic_def c_str_def map_find_def)
  ultimately show ?thesis using f'(1) f'(2) [of "[97]"] f'(2) [of "[97, 0, 98]"] by (auto simp: answers_def)
qed

text \<open>The same module in a fast resolver.\<close>

lemma small_fast:
  obtains f p where "LoadModuleUsingMapBuffer FastSourceLineResolver (Some [97]) (module_bytes small_module) Resolver_new = ret (True, f)"
    "map_find [97] (modules f) = Some (Some p, fast_view small_module [0])"
proof -
  have new: "fast.ok Resolver_new" by (rule resolver_ok_new)
  have none: "map_find [97] (modules Resolver_new) = None" by (simp add: Resolver_new_def map_find_def)
  have name: "c_str [97] = [97]" by (simp add: c_str_def)
  show thesis
  proof (rule convert_new [OF new none name small_module_ok small_module_fits, where fill = "\<lambda>_. 0"])
    fix f p
    assume f: "SerializeModuleAndLoadIntoFastResolver (\<lambda>_. 0) ([97], small_module) Resolver_new = ret (True, f)"
      "modules f = map_insert [97] (Some p, fast_view small_module [0]) (modules Resolver_new)"
    have "LoadModuleUsingMapBuffer FastSourceLineResolver (Some [97]) (module_bytes small_module) Resolver_new = ret (True, f)"
      using f(1) by (simp add: SerializeModuleAndLoadIntoFastResolver_def Module_Serialize_bytes [OF small_module_ok small_module_size]
          length_module_bytes [OF small_module_ok, symmetric])
    then show thesis by (rule that) (simp add: f(2) Resolver_new_def map_find_def)
  qed
qed

text \<open>C3: Whatever a client loads into a fast resolver and unloads from it, every module that is loaded has its block on the heap with
  the bytes it was loaded from, so that no query reads a buffer that was deleted; and the destructor deletes each block
  once and leaves none.\<close>

theorem fast_resolver_alive:
  assumes "resolver_run FastSourceLineResolver r"
  shows "(\<forall>k m. map_find k (modules r) = Some m \<longrightarrow>
      (\<exists>p mem. fst m = Some p \<and> map_find p (blocks (rs_heap r)) = Some mem \<and>
         Fast_LoadMapFromMemory (Some mem) FastModule_new = ret (True, snd m))) \<and>
    (\<exists>h. Resolver_delete r = ret h \<and> blocks h = [])"
proof (intro conjI allI impI)
  note ok = fast.run_ok [OF assms]
  show "\<exists>h. Resolver_delete r = ret h \<and> blocks h = []" by (rule fast.Resolver_delete_ok [OF ok])
  fix k m assume k: "map_find k (modules r) = Some m"
  show "\<exists>p mem. fst m = Some p \<and> map_find p (blocks (rs_heap r)) = Some mem \<and>
      Fast_LoadMapFromMemory (Some mem) FastModule_new = ret (True, snd m)"
    by (rule fast.ok_module [OF ok k]) auto
qed

theorem fast_resolver_alive_witness:
  "\<exists>f p mem. map_find [97] (modules f) = Some (Some p, fast_view small_module [0]) \<and> map_find p (blocks (rs_heap f)) = Some mem \<and>
     (\<exists>h. Resolver_delete f = ret h \<and> blocks h = [])"
proof -
  obtain f p where f: "LoadModuleUsingMapBuffer FastSourceLineResolver (Some [97]) (module_bytes small_module) Resolver_new = ret (True, f)"
    "map_find [97] (modules f) = Some (Some p, fast_view small_module [0])" by (rule small_fast)
  with fast_resolver_alive [OF load_map [OF start f(1)]] show ?thesis by fastforce
qed

text \<open>C37: Unloading a module undoes loading it: the modules, the corrupt ones among them, the buffers and the heap are as
  before.\<close>

theorem fast_load_unload:
  assumes "resolver_run FastSourceLineResolver r" "LoadModuleUsingMapBuffer FastSourceLineResolver (Some n) buf r = ret (True, r')"
  shows "\<exists>r''. UnloadModule FastSourceLineResolver (Some n) r' = ret r'' \<and> modules r'' = modules r \<and>
    corrupt_modules r'' = corrupt_modules r \<and> memory_buffers r'' = memory_buffers r \<and> blocks (rs_heap r'') = blocks (rs_heap r)"
  by (rule fast.load_unload [OF fast.run_ok [OF assms(1)] assms(2)]) blast

theorem fast_load_unload_witness:
  "\<exists>f r''. LoadModuleUsingMapBuffer FastSourceLineResolver (Some [97]) (module_bytes small_module) Resolver_new = ret (True, f) \<and>
     HasModule (Some [97]) f \<and> UnloadModule FastSourceLineResolver (Some [97]) f = ret r'' \<and>
     modules r'' = [] \<and> corrupt_modules r'' = [] \<and> memory_buffers r'' = [] \<and> blocks (rs_heap r'') = []"
proof -
  obtain f p where f: "LoadModuleUsingMapBuffer FastSourceLineResolver (Some [97]) (module_bytes small_module) Resolver_new = ret (True, f)"
    "map_find [97] (modules f) = Some (Some p, fast_view small_module [0])" by (rule small_fast)
  have "HasModule (Some [97]) f" using f(2) by (simp add: HasModule_def c_str_def)
  with fast_load_unload [OF start f(1)] f(1) show ?thesis by (auto simp: Resolver_new_def)
qed

end
