(* ===== verification/Spec2Isabelle.thy ===== *)
theory Spec2Isabelle
  imports Session Line_Resolver
begin

text \<open>
  A verification development of the native code of the repository: the search module of the
  navigation application Gildroia (\<^verbatim>\<open>src/MyAndroidApp/Gildroia/jni\<close>) and the data structures and
  interpreters of the processor of google-breakpad (\<^verbatim>\<open>src/google-breakpad/src/processor\<close>), the crash
  reporting library that the repository carries and builds.

  \<^bold>\<open>The search module.\<close>  Java calls the functions of \<^verbatim>\<open>SearchModule.cpp\<close>, which keep a session in
  global variables.  The session owns a \<^verbatim>\<open>CUmSearchModule\<close>, which owns a \<^verbatim>\<open>CUmSearchHelper\<close> for the
  data file of each province and a \<^verbatim>\<open>CTextMng\<close> that all helpers share for the texts of the names; a
  \<^verbatim>\<open>CAdminBoundManager\<close> beside it finds the administrative district around a position.  Helpers and
  text store find keys with the same binary search in a data file.
  \<^item> \<open>C_File\<close>: the streams of \<^verbatim>\<open><stdio.h>\<close>, with short reads and failing seeks.
  \<^item> \<open>Key_Search\<close>: \<^verbatim>\<open>searchu8KeyValue\<close>, \<^verbatim>\<open>searchu16KeyValue\<close>, \<^verbatim>\<open>searchu32KeyValue\<close>.  A key of a sorted
    table is found and the stream left at its payload; the absent key, and the key for which
    the unsigned bound wraps around and the loop never ends.  The locale \<open>key_index\<close> states the
    contract for its clients and is interpreted for the three widths.
  \<^item> \<open>U16_Text\<close>: strings of 16 bits, tokens, codes of initial consonants and telephone numbers.
    Splitting refines a specification on lists; the codes have round trips.
  \<^item> \<open>Std_Map\<close>: \<^verbatim>\<open>std::map\<close> as an ordered sequence of entries.  The locale \<open>ordered_index\<close> states what
    \<^verbatim>\<open>lower_bound\<close> and \<^verbatim>\<open>upper_bound\<close> promise; it is interpreted here and, for blocks of memory,
    in \<open>Static_Map\<close>.
  \<^item> \<open>Text_Mng\<close>: \<^verbatim>\<open>CTextMng\<close> with its two streams, its index and the tables of names.  Adding a
    text of fewer than 32 units to a file of less than 128 MB keeps the store consistent, and the text is
    read back from every later state; a longer text runs into the bits of its offset and is lost.
  \<^item> \<open>Search_Data\<close>: the packed records and bit fields of \<^verbatim>\<open>UmSearchModule.h\<close>.
  \<^item> \<open>Search_Helper\<close>, \<open>Search_Query\<close>: \<^verbatim>\<open>CUmSearchHelper\<close>, loading and addresses, then the queries by
    name, telephone number and category.  Loading ends on chained records and returns them;
    the lookups by offset and the matching of names agree with their declarative meaning.
  \<^item> \<open>Search_Module\<close>: \<^verbatim>\<open>CUmSearchModule\<close>, the queries over all provinces and the table from legal to
    administrative districts.  The record of a house gives back its number and its position, directly or
    through the table of extended positions.
  \<^item> \<open>Float_Round\<close>, \<open>Admin_Bound\<close>: \<^verbatim>\<open>double\<close> and \<^verbatim>\<open>float\<close> as rationals with rounding after each
    operation (locale \<open>rounding\<close>, interpreted for both precisions), and \<^verbatim>\<open>CAdminBoundManager\<close>:
    reading the outlines, finding the district of a position, reporting its change.  A file in the layout is
    read back, and one that was cut within its tables is rejected.  Positions beside an outline are outside
    when the coordinates are below \<open>2\<^sup>2\<^sup>6\<close>, where the products in the test are exact, and need not be beyond.
  \<^item> \<open>Session\<close>: all functions of \<^verbatim>\<open>SearchModule.cpp\<close>, with the global variables as a record and an
    inductive relation of the calls Java may make, except the four that read the details of the entry at
    the iterator.  In sessions of these calls the details returned for an index are those of the entry at
    the index, from the cache or not; with the four others the cache goes stale.  Walks through a result end
    and meet each entry once.

  \<^bold>\<open>The processor of google-breakpad.\<close>  A resolver of source lines loads the symbols of a module from a
  symbol file into maps keyed by addresses.  The serializers write these maps into one block of memory, where
  static maps read them without a copy; the fast resolver answers from such blocks.  Frame records hold
  postfix programs, which an evaluator runs over registers and memory; rules for call frames are sets
  of such programs.
  \<^item> \<open>Range_Map\<close>: \<^verbatim>\<open>AddressMap\<close> and \<^verbatim>\<open>RangeMap\<close>.  A range is accepted exactly when it is valid and
    apart from all others; retrieval returns what was stored.
  \<^item> \<open>Contained_Range_Map\<close>: \<^verbatim>\<open>ContainedRangeMap\<close>, a tree of nested ranges.  Storing accepts exactly the
    ranges that nest properly and keeps the tree consistent; retrieval returns the smallest range.
  \<^item> \<open>Static_Map\<close>: \<^verbatim>\<open>StaticMap\<close>, its iterator, \<^verbatim>\<open>StaticAddressMap\<close> and \<^verbatim>\<open>StaticRangeMap\<close>.  A block that
    \<^verbatim>\<open>ValidateInMemoryStructure\<close> accepts is searched as the ordered map it represents.
  \<^item> \<open>Map_Serializer\<close>: \<^verbatim>\<open>SimpleSerializer\<close> of all entry types, \<^verbatim>\<open>StdMapSerializer\<close>, to which
    \<^verbatim>\<open>AddressMapSerializer\<close> delegates, \<^verbatim>\<open>RangeMapSerializer\<close> and the readers \<^verbatim>\<open>CopyFrom\<close>.  The locale \<open>serializer\<close>
    states that a serializer writes as many bytes as it announces, the bytes of its value, and
    nothing else; it is interpreted for each entry type.  A map that is written and read back
    with the static map answers each address as before.
  \<^item> \<open>Contained_Serializer\<close>: \<^verbatim>\<open>ContainedRangeMapSerializer\<close> and \<^verbatim>\<open>StaticContainedRangeMap\<close>, the tree of nested
    ranges in a block.  The retrieval ends on every block, and on a written tree it answers as the tree.
  \<^item> \<open>Postfix_Evaluator\<close>: \<^verbatim>\<open>PostfixEvaluator\<close>.  Programs of assignments have the values their
    expressions denote, and the errors of the evaluator are its result.
  \<^item> \<open>Cfi_Frame_Info\<close>: \<^verbatim>\<open>CFIFrameInfo\<close>, \<^verbatim>\<open>CFIRuleParser\<close>, \<^verbatim>\<open>SimpleCFIWalker\<close> and \<^verbatim>\<open>Tokenize\<close>.
    Printed rules are parsed back to the same rules, and rules give the registers of the
    caller.

  \<^item> \<open>Source_Resolver\<close>: \<^verbatim>\<open>BasicSourceLineResolver::Module\<close> and \<^verbatim>\<open>FastSourceLineResolver::Module\<close> with their three
    queries, and \<^verbatim>\<open>ModuleSerializer\<close>.  A module that is serialised and loaded by the fast resolver, also into a
    longer block, answers every query as the maps do; in particular its loop over the delta rules ends.  The block
    has the announced size and every byte of it is written.
  \<^item> \<open>Symbol_Loader\<close>: the parser of symbol files, with \<^verbatim>\<open>strtol\<close>, \<^verbatim>\<open>strtoul\<close> and \<^verbatim>\<open>strtoull\<close> on a \<^verbatim>\<open>long\<close> of 32 bits,
    \<^verbatim>\<open>SymbolParseHelper\<close>, \<^verbatim>\<open>WindowsFrameInfo::ParseFromString\<close> and \<^verbatim>\<open>SerializeSymbolFileData\<close>.  Whatever a file
    holds, the module that is loaded is consistent and its ranges are apart; every file whose last line is ended, or
    that is followed by a second zero, is loaded; and both resolvers resolve it alike.  Functions under construction lie in a store, as the code shares them.
  \<^item> \<open>Line_Resolver\<close>: \<^verbatim>\<open>SourceLineResolverBase\<close> with its map of modules and the buffers it owns on a heap, for both
    subclasses, and the conversions of \<^verbatim>\<open>ModuleSerializer\<close> between them.  The locale \<open>module_class\<close> states what the
    resolver relies on of its modules and is interpreted for both.  No sequence of calls leaves a module with a
    deleted buffer or a buffer without a module, unloading undoes loading, and a converted resolver
    gives the same answers.

  \<^bold>\<open>Conventions.\<close>  \<open>Prelude\<close> fixes them.  Integers that may overflow are words of their width on the
  32-bit target.  A function that may fail has a result of type \<open>comp\<close>: \<open>None\<close> when it does not
  return, \<open>Inl\<close> with the \<open>fault\<close> when it performs an undefined operation, \<open>Inr\<close> with its result.
  Loops that may run forever are partial functions into \<open>option\<close>, all others terminate by proof;
  no definition uses fuel.  Pointers into arrays and blocks are positions, and reads and writes
  outside are faults.  The contents of files, the strings of the Java virtual machine and the
  memory of the crashed process are arguments.  Memory is never exhausted.  Sizes of serialised entries and of
  static maps (\<^verbatim>\<open>unsigned int\<close> and \<^verbatim>\<open>size_t\<close> in \<open>WFI_SizeOf\<close>, \<open>Function_SizeOf\<close> and the first offset that
  \<open>ValidateInMemoryStructure\<close> expects, \<^verbatim>\<open>int\<close> in \<^verbatim>\<open>1 + num_nodes_\<close>) are numbers without a bound; they are the numbers
  of the code for blocks below 4 GB, the address space of the target.

  \<^bold>\<open>Not modelled.\<close>
  \<^item> Of google-breakpad: minidump files, stack walkers, DWARF and symbol dumpers, whose results depend on
    file formats and processors; crash handlers, tools and tests, which are input and output; the messages of
    the log; \<^verbatim>\<open>LoadModuleUsingMemoryBuffer\<close> called by a client with a buffer of its own is defined, but the runs
    of a resolver have only buffers that the resolver owns, and what the parser leaves of such a buffer is not
    kept.  The copy below \<^verbatim>\<open>src/GoogleBreakPadSample\<close> has the same files.
  \<^item> Of the search module: the branches of \<^verbatim>\<open>#else\<close> that are not compiled, logging, and
    destructors that only release memory.
  \<^item> The Java applications, the native stubs of the samples (registration of methods and a
    deliberate crash) and the generated declarations of JNI.
\<close>

end
